(* ===== verification/Prelude.thy ===== *)
theory Prelude
  imports Main "HOL-Library.Word" "HOL-Library.Multiset"
begin

text \<open>
  Shared vocabulary of the development: bytes and byte strings, the machine integers the
  sources use, results of fallible operations, the few operations of Rust's \<open>Vec\<close> and
  \<open>Iterator\<close> that the components are written with, and the generic facts about them.

  Conventions. A Rust \<open>Result<T, E>\<close> is a value of \<open>'e + 't\<close> with \<open>Inl\<close> for the
  error. A method on \<open>&mut self\<close> returns its result paired with the new state. \<open>usize\<close>
  lengths and offsets are \<open>nat\<close>; \<open>u64\<close> milliseconds are \<open>nat\<close> with the saturation
  written out; \<open>u32\<close> values that go on the wire are \<open>32 word\<close>; stream ids, file
  descriptors and C return codes are \<open>int\<close>.
\<close>

section \<open>Bytes and machine integers\<close>

type_synonym byte = "8 word"
type_synonym bytes = "byte list"
type_synonym u32 = "32 word"

text \<open>A Rust byte-string literal \<open>b"..."\<close>.\<close>

definition ascii :: "string \<Rightarrow> bytes" where
  "ascii s = map of_char s"

text \<open>A number in decimal, as \<open>Display\<close> of an unsigned integer writes it.\<close>

fun dec_bytes :: "nat \<Rightarrow> bytes" where
  "dec_bytes n = (if n < 10 then [0x30 + of_nat n] else dec_bytes (n div 10) @ [0x30 + of_nat (n mod 10)])"

declare dec_bytes.simps [simp del]

text \<open>\<open>u64::saturating_mul\<close>, \<open>u64::saturating_add\<close> and \<open>u64::div_ceil\<close>.\<close>

definition u64_max :: nat where
  "u64_max = 2 ^ 64 - 1"

definition sat_mul64 :: "nat \<Rightarrow> nat \<Rightarrow> nat" where
  "sat_mul64 a b = min (a * b) u64_max"

definition sat_add64 :: "nat \<Rightarrow> nat \<Rightarrow> nat" where
  "sat_add64 a b = min (a + b) u64_max"

definition div_ceil :: "nat \<Rightarrow> nat \<Rightarrow> nat" where
  "div_ceil a b = (if a mod b = 0 then a div b else a div b + 1)"

lemma div_ceil_bounds:
  assumes "0 < b"
  shows "a \<le> div_ceil a b * b" and "div_ceil a b * b < a + b"
proof -
  have eq: "b * (a div b) + a mod b = a" by simp
  have lt: "a mod b < b" using assms by simp
  have ceil: "div_ceil a b * b = b * (a div b) + (if a mod b = 0 then 0 else b)"
    by (simp add: div_ceil_def algebra_simps)
  have "a mod b \<le> (if a mod b = 0 then 0 else b)"
    and "(if a mod b = 0 then 0 else b) < a mod b + b"
    using lt assms by auto
  with eq ceil show "a \<le> div_ceil a b * b" and "div_ceil a b * b < a + b"
    by linarith+
qed

lemma sat_mul64_exact: "a * b < 2 ^ 64 \<Longrightarrow> sat_mul64 a b = a * b"
  by (simp add: sat_mul64_def u64_max_def)

section \<open>Collections of rewrite rules\<close>

named_theorems wire_simps "unfolding rules for the byte encodings"
named_theorems queue_simps "unfolding rules for the outbound queue"
named_theorems conn_simps "field and frame rules for connection operations"

section \<open>Vectors\<close>

text \<open>
  \<open>xs.iter_mut().find(p)\<close> followed by a mutation through the found reference updates the
  first element that satisfies \<open>p\<close>; \<open>find\<close> of the library is the lookup.
\<close>

fun upd_first :: "('a \<Rightarrow> bool) \<Rightarrow> ('a \<Rightarrow> 'a) \<Rightarrow> 'a list \<Rightarrow> 'a list" where
  "upd_first p f [] = []"
| "upd_first p f (x # xs) = (if p x then f x # xs else x # upd_first p f xs)"

text \<open>The same for the first \<open>k\<close> elements that satisfy \<open>p\<close>.\<close>

fun upd_firstn :: "nat \<Rightarrow> ('a \<Rightarrow> bool) \<Rightarrow> ('a \<Rightarrow> 'a) \<Rightarrow> 'a list \<Rightarrow> 'a list" where
  "upd_firstn k p f [] = []"
| "upd_firstn k p f (x # xs) =
     (if k = 0 then x # xs
      else if p x then f x # upd_firstn (k - 1) p f xs else x # upd_firstn k p f xs)"

text \<open>\<open>iter().position(p)\<close> and \<open>Vec::swap_remove(i)\<close>.\<close>

fun position :: "('a \<Rightarrow> bool) \<Rightarrow> 'a list \<Rightarrow> nat option" where
  "position p [] = None"
| "position p (x # xs) = (if p x then Some 0 else map_option Suc (position p xs))"

definition swap_remove :: "nat \<Rightarrow> 'a list \<Rightarrow> 'a list" where
  "swap_remove i xs =
     (if Suc i = length xs then butlast xs else (butlast xs)[i := last xs])"

text \<open>\<open>VecDeque::remove(i)\<close> for an index in range.\<close>

definition remove_at :: "nat \<Rightarrow> 'a list \<Rightarrow> 'a list" where
  "remove_at i xs = take i xs @ drop (Suc i) xs"

lemma length_upd_first [simp]: "length (upd_first p f xs) = length xs"
  by (induction xs) auto

lemma map_upd_first:
  assumes "\<And>x. p x \<Longrightarrow> g (f x) = g x"
  shows "map g (upd_first p f xs) = map g xs"
  using assms by (induction xs) auto

lemma set_upd_first: "y \<in> set (upd_first p f xs) \<Longrightarrow> y \<in> set xs \<or> (\<exists>x \<in> set xs. p x \<and> y = f x)"
  by (induction xs) (auto split: if_splits)

lemma list_all_upd_first:
  assumes "list_all P xs" and "\<And>x. x \<in> set xs \<Longrightarrow> P x \<Longrightarrow> p x \<Longrightarrow> P (f x)"
  shows "list_all P (upd_first p f xs)"
  using assms by (induction xs) auto

lemma list_all_upd_found:
  assumes "list_all P xs" and "\<And>x. find p xs = Some x \<Longrightarrow> P x \<Longrightarrow> P (f x)"
  shows "list_all P (upd_first p f xs)"
  using assms by (induction xs) auto

lemma find_None_upd_first: "find p xs = None \<Longrightarrow> upd_first p f xs = xs"
  by (induction xs) (auto split: if_splits)

lemma find_append: "find p (xs @ ys) = (case find p xs of None \<Rightarrow> find p ys | Some x \<Rightarrow> Some x)"
  by (induction xs) auto

lemma upd_first_append:
  "\<forall>x \<in> set xs. \<not> p x \<Longrightarrow> upd_first p f (xs @ ys) = xs @ upd_first p f ys"
  by (induction xs) auto

lemma find_Some_mem: "find p xs = Some x \<Longrightarrow> x \<in> set xs \<and> p x"
  by (induction xs) (auto split: if_splits)

lemma find_upd_first_same:
  assumes "find p xs = Some x" and "p (f x)"
  shows "find p (upd_first p f xs) = Some (f x)"
  using assms by (induction xs) (auto split: if_splits)

lemma find_upd_first_other:
  assumes "\<And>x. p x \<Longrightarrow> \<not> q x" and "\<And>x. p x \<Longrightarrow> \<not> q (f x)"
  shows "find q (upd_first p f xs) = find q xs"
  using assms by (induction xs) auto

lemma list_all2_upd_first:
  assumes "\<And>x. R x x" and "\<And>x. find p xs = Some x \<Longrightarrow> R x (f x)"
  shows "list_all2 R xs (upd_first p f xs)"
  using assms(2) by (induction xs) (auto simp: assms(1) list.rel_refl)

lemma upd_first_distinct:
  assumes "distinct (map k xs)"
  shows "upd_first (\<lambda>x. k x = i) f xs = map (\<lambda>x. if k x = i then f x else x) xs"
  using assms
proof (induction xs)
  case (Cons x xs)
  have "map (\<lambda>y. if k y = k x then f y else y) xs = xs"
    using Cons.prems by (intro map_idI) (fastforce simp: image_iff)
  with Cons show ?case by auto
qed simp

lemma upd_first_at:
  assumes "distinct (map k xs)" and "i < length xs"
  shows "upd_first (\<lambda>x. k x = k (xs ! i)) f xs = xs[i := f (xs ! i)]"
  using assms
proof (induction xs arbitrary: i)
  case (Cons x xs)
  then show ?case by (cases i) auto
qed simp

lemma upd_firstn_0 [simp]: "upd_firstn 0 p f xs = xs"
  by (cases xs) auto

lemma upd_firstn_distinct:
  assumes "distinct (map k xs)"
  shows "upd_firstn n p f xs
    = map (\<lambda>x. if k x \<in> set (map k (take n (filter p xs))) then f x else x) xs"
  using assms
proof (induction xs arbitrary: n)
  case (Cons x xs)
  then have tail: "k x \<notin> k ` set xs" and "distinct (map k xs)" by auto
  have out: "k x \<notin> set (map k (take m (filter p xs)))" for m
    using tail by (auto dest: in_set_takeD)
  show ?case
  proof (cases "p x \<and> 0 < n")
    case True
    then obtain m where n: "n = Suc m" by (cases n) auto
    have "map (\<lambda>y. if k y \<in> set (map k (take n (filter p (x # xs)))) then f y else y) xs
        = map (\<lambda>y. if k y \<in> set (map k (take m (filter p xs))) then f y else y) xs"
      using True n tail by (intro map_cong) (fastforce simp: image_iff)+
    with True n Cons show ?thesis by simp
  next
    case False
    with Cons out [of n] show ?thesis by (cases n) auto
  qed
qed simp

lemma length_filter_upd_firstn:
  assumes "\<And>x. p x \<Longrightarrow> \<not> p (f x)"
  shows "length (filter p (upd_firstn k p f xs)) = length (filter p xs) - k"
  using assms by (induction k p f xs rule: upd_firstn.induct) auto

lemma map_upd_firstn:
  assumes "\<And>x. p x \<Longrightarrow> g (f x) = g x"
  shows "map g (upd_firstn k p f xs) = map g xs"
  using assms by (induction k p f xs rule: upd_firstn.induct) auto

lemma position_None_iff: "position p xs = None \<longleftrightarrow> find p xs = None"
  by (induction xs) auto

lemma position_SomeD:
  "position p xs = Some i \<Longrightarrow> i < length xs \<and> p (xs ! i) \<and> find p xs = Some (xs ! i)"
  by (induction xs arbitrary: i) (auto split: if_splits)

lemma position_find: "find p xs = Some x \<Longrightarrow> \<exists>i. position p xs = Some i \<and> xs ! i = x"
  by (induction xs) (auto split: if_splits)

lemma mset_swap_remove:
  assumes "i < length xs"
  shows "mset (swap_remove i xs) + {#xs ! i#} = mset xs"
proof (cases "Suc i = length xs")
  case True
  then have ne: "xs \<noteq> []" and i: "i = length xs - 1" by auto
  have ends: "butlast xs @ [last xs] = xs" using ne by simp
  have "xs ! i = last xs" using ne i by (simp add: last_conv_nth)
  have "mset xs = mset (butlast xs @ [last xs])" using ends by simp
  with True \<open>xs ! i = last xs\<close> show ?thesis by (simp add: swap_remove_def)
next
  case False
  with assms have i: "i < length (butlast xs)" and ne: "xs \<noteq> []" by auto
  have ends: "butlast xs @ [last xs] = xs" using ne by simp
  have at: "butlast xs ! i = xs ! i" using i by (simp add: nth_butlast)
  have "mset ((butlast xs)[i := last xs]) + {#butlast xs ! i#}
      = mset (butlast xs) + {#last xs#}"
    using i by (simp add: mset_update)
  also have "\<dots> = mset (butlast xs @ [last xs])" by simp
  finally show ?thesis using False ends at by (simp add: swap_remove_def)
qed

lemma set_swap_remove_subset: "i < length xs \<Longrightarrow> set (swap_remove i xs) \<subseteq> set xs"
  using mset_swap_remove [of i xs]
  by (metis mset_subset_eq_add_left set_mset_mono set_mset_mset)

lemma length_swap_remove: "i < length xs \<Longrightarrow> length (swap_remove i xs) = length xs - 1"
  by (simp add: swap_remove_def)

lemma list_all_swap_remove: "list_all P xs \<Longrightarrow> i < length xs \<Longrightarrow> list_all P (swap_remove i xs)"
  using set_swap_remove_subset [of i xs] by (auto simp: list_all_iff)

lemma distinct_map_swap_remove:
  assumes "distinct (map f xs)" and "i < length xs"
  shows "distinct (map f (swap_remove i xs))" and "f (xs ! i) \<notin> f ` set (swap_remove i xs)"
proof -
  have eq: "mset (map f (swap_remove i xs)) + {#f (xs ! i)#} = mset (map f xs)"
    using arg_cong [OF mset_swap_remove [OF assms(2)], of "image_mset f"] by simp
  then have "mset (f (xs ! i) # map f (swap_remove i xs)) = mset (map f xs)" by simp
  then have "distinct (f (xs ! i) # map f (swap_remove i xs))"
    using assms(1) mset_eq_imp_distinct_iff by blast
  then show "distinct (map f (swap_remove i xs))"
    and "f (xs ! i) \<notin> f ` set (swap_remove i xs)" by auto
qed

section \<open>Prefixes and chunks\<close>

lemma take_append_drop_concat: "take n xs @ drop n xs = xs"
  by simp

lemma take_take_drop: "take n xs @ take m (drop n xs) = take (n + m) xs"
  by (simp add: take_add)

text \<open>Results.\<close>

abbreviation is_ok :: "'e + 'a \<Rightarrow> bool" where
  "is_ok r \<equiv> (case r of Inl _ \<Rightarrow> False | Inr _ \<Rightarrow> True)"

end
