(* ===== verification/Framing.thy ===== *)
theory Framing
  imports Prelude
begin

unbundle bit_operations_syntax

text \<open>
  gRPC message framing, \<open>rust/grpcuds-core/src/framing.rs\<close>: the five-byte header
  (compressed flag, big-endian payload length) in front of every message. The theory holds
  the header codec, the round trip between its two halves, the complete classification of
  what the decoder answers, and the frame of a whole message that the queue and both
  clients build from it.
\<close>

section \<open>Definitions\<close>

definition FRAME_HEADER_LEN :: nat where
  "FRAME_HEADER_LEN = 5"

definition DEFAULT_MAX_MESSAGE_LEN :: u32 where
  "DEFAULT_MAX_MESSAGE_LEN = 16 * 1024 * 1024"

record frame_header =
  fh_compressed :: bool
  fh_payload_len :: u32

datatype frame_error = NeedMore | TooLarge | Compressed

text \<open>\<open>u32::to_be_bytes\<close> and \<open>u32::from_be_bytes\<close>.\<close>

definition to_be_bytes :: "u32 \<Rightarrow> bytes" where
  "to_be_bytes w =
     [ucast (drop_bit 24 w), ucast (drop_bit 16 w), ucast (drop_bit 8 w), ucast w]"

definition from_be_bytes :: "byte \<Rightarrow> byte \<Rightarrow> byte \<Rightarrow> byte \<Rightarrow> u32" where
  "from_be_bytes a b c d =
     push_bit 24 (ucast a) OR push_bit 16 (ucast b) OR push_bit 8 (ucast c) OR ucast d"

definition encode_header :: "bool \<Rightarrow> u32 \<Rightarrow> bytes" where
  "encode_header compressed payload_len =
     (if compressed then 1 else 0) # to_be_bytes payload_len"

definition decode_header :: "bytes \<Rightarrow> u32 \<Rightarrow> frame_error + frame_header" where
  "decode_header buf max_len =
     (if length buf < FRAME_HEADER_LEN then Inl NeedMore
      else let head = take FRAME_HEADER_LEN buf in
        if head ! 0 \<noteq> 0 then Inl Compressed
        else let payload_len = from_be_bytes (head ! 1) (head ! 2) (head ! 3) (head ! 4) in
          if payload_len > max_len then Inl TooLarge
          else Inr \<lparr>fh_compressed = False, fh_payload_len = payload_len\<rparr>)"

section \<open>The codec\<close>

lemma length_to_be_bytes [simp]: "length (to_be_bytes w) = 4"
  by (simp add: to_be_bytes_def)

lemma length_encode_header [simp]: "length (encode_header b w) = FRAME_HEADER_LEN"
  by (simp add: encode_header_def FRAME_HEADER_LEN_def)

lemma from_to_be_bytes:
  "from_be_bytes (ucast (drop_bit 24 w)) (ucast (drop_bit 16 w)) (ucast (drop_bit 8 w)) (ucast w)
     = w"
proof (rule bit_word_eqI)
  fix n :: nat
  assume "n < LENGTH(32)"
  then consider "n < 8" | "8 \<le> n" "n < 16" | "16 \<le> n" "n < 24" | "24 \<le> n" "n < 32"
    by fastforce
  then show "bit (from_be_bytes (ucast (drop_bit 24 w)) (ucast (drop_bit 16 w))
      (ucast (drop_bit 8 w)) (ucast w)) n = bit w n"
    by cases (auto simp: from_be_bytes_def bit_simps)
qed

lemma to_from_be_bytes:
  "to_be_bytes (from_be_bytes a b c d) = [a, b, c, d]"
proof -
  have "ucast (drop_bit 24 (from_be_bytes a b c d)) = a"
    by (rule bit_word_eqI) (auto simp: from_be_bytes_def bit_simps dest: bit_imp_le_length)
  moreover have "ucast (drop_bit 16 (from_be_bytes a b c d)) = b"
    by (rule bit_word_eqI) (auto simp: from_be_bytes_def bit_simps dest: bit_imp_le_length)
  moreover have "ucast (drop_bit 8 (from_be_bytes a b c d)) = c"
    by (rule bit_word_eqI) (auto simp: from_be_bytes_def bit_simps dest: bit_imp_le_length)
  moreover have "ucast (from_be_bytes a b c d) = d"
    by (rule bit_word_eqI) (auto simp: from_be_bytes_def bit_simps dest: bit_imp_le_length)
  ultimately show ?thesis by (simp add: to_be_bytes_def)
qed

lemma decode_header_cons:
  "decode_header (flag # b1 # b2 # b3 # b4 # rest) max_len =
     (if flag \<noteq> 0 then Inl Compressed
      else if from_be_bytes b1 b2 b3 b4 > max_len then Inl TooLarge
      else Inr \<lparr>fh_compressed = False, fh_payload_len = from_be_bytes b1 b2 b3 b4\<rparr>)"
  by (simp add: decode_header_def FRAME_HEADER_LEN_def)

lemma five_bytes_cases:
  assumes "FRAME_HEADER_LEN \<le> length (buf :: bytes)"
  obtains flag b1 b2 b3 b4 rest where "buf = flag # b1 # b2 # b3 # b4 # rest"
proof -
  have "Suc (Suc (Suc (Suc (Suc 0)))) \<le> length buf"
    using assms by (simp add: FRAME_HEADER_LEN_def)
  then obtain flag r1 where 1: "buf = flag # r1" "Suc (Suc (Suc (Suc 0))) \<le> length r1"
    by (cases buf) auto
  then obtain b1 r2 where 2: "r1 = b1 # r2" "Suc (Suc (Suc 0)) \<le> length r2"
    by (cases r1) auto
  then obtain b2 r3 where 3: "r2 = b2 # r3" "Suc (Suc 0) \<le> length r3"
    by (cases r2) auto
  then obtain b3 r4 where 4: "r3 = b3 # r4" "Suc 0 \<le> length r4"
    by (cases r3) auto
  then obtain b4 r5 where "r4 = b4 # r5"
    by (cases r4) auto
  with 1 2 3 4 that show thesis by blast
qed

lemma decode_header_short: "length buf < FRAME_HEADER_LEN \<Longrightarrow> decode_header buf m = Inl NeedMore"
  by (simp add: decode_header_def)

lemma decode_header_encode [wire_simps]:
  "decode_header (encode_header c w @ rest) max_len =
     (if c then Inl Compressed
      else if w > max_len then Inl TooLarge
      else Inr \<lparr>fh_compressed = False, fh_payload_len = w\<rparr>)"
  by (simp add: encode_header_def to_be_bytes_def decode_header_cons from_to_be_bytes)

lemma decode_header_InrE:
  assumes "decode_header buf max_len = Inr h"
  obtains rest where "buf = encode_header False (fh_payload_len h) @ rest"
    and "fh_payload_len h \<le> max_len" and "\<not> fh_compressed h"
proof -
  have "FRAME_HEADER_LEN \<le> length buf"
    using assms by (cases "length buf < FRAME_HEADER_LEN") (auto simp: decode_header_short)
  then obtain flag b1 b2 b3 b4 rest where buf: "buf = flag # b1 # b2 # b3 # b4 # rest"
    by (rule five_bytes_cases)
  with assms have "flag = 0" and "from_be_bytes b1 b2 b3 b4 \<le> max_len"
    and h: "h = \<lparr>fh_compressed = False, fh_payload_len = from_be_bytes b1 b2 b3 b4\<rparr>"
    by (auto simp: decode_header_cons split: if_splits)
  then show thesis
    using that [of rest] buf by (simp add: encode_header_def to_from_be_bytes)
qed

section \<open>Whole frames\<close>

text \<open>
  The frame of one message as the queue and the clients emit it, and the byte stream of a
  sequence of messages. The length is the one the sources write with \<open>as u32\<close>.
\<close>

definition frame :: "bytes \<Rightarrow> bytes" where
  "frame body = encode_header False (of_nat (length body)) @ body"

definition frames :: "bytes list \<Rightarrow> bytes" where
  "frames msgs = concat (map frame msgs)"

lemma frames_Nil [simp]: "frames [] = []"
  and frames_Cons [simp]: "frames (m # ms) = frame m @ frames ms"
  and frames_append [simp]: "frames (ms @ ns) = frames ms @ frames ns"
  by (simp_all add: frames_def)

lemma length_frame: "length (frame body) = FRAME_HEADER_LEN + length body"
  by (simp add: frame_def)

lemma frame_neq_Nil [simp]: "frame body \<noteq> []"
  by (simp add: frame_def encode_header_def)

lemma unat_of_nat_length:
  assumes "length (body :: bytes) \<le> unat (m :: u32)"
  shows "unat (of_nat (length body) :: u32) = length body"
proof -
  have "length body < 2 ^ 32"
    using assms unsigned_less [of m, where ?'a = nat] by simp
  then show ?thesis by (simp add: unsigned_of_nat take_bit_nat_eq_self)
qed

lemma decode_frame:
  assumes "length body \<le> unat max_len"
  shows "decode_header (frame body @ rest) max_len =
           Inr \<lparr>fh_compressed = False, fh_payload_len = of_nat (length body)\<rparr>"
proof -
  have "unat (of_nat (length body) :: u32) \<le> unat max_len"
    using unat_of_nat_length [OF assms] assms by simp
  then have "\<not> max_len < of_nat (length body)"
    by (simp add: word_less_nat_alt)
  then show ?thesis
    by (simp add: frame_def decode_header_encode)
qed

section \<open>Properties\<close>

text \<open>
  Decoding an encoded header gives back exactly what was encoded, whatever bytes follow
  it: the payload length when the frame is uncompressed and within the limit, and the two
  protocol errors otherwise.
\<close>

lemma header_roundtrip:
  "decode_header (encode_header compressed payload_len @ rest) max_len =
     (if compressed then Inl Compressed
      else if payload_len > max_len then Inl TooLarge
      else Inr \<lparr>fh_compressed = False, fh_payload_len = payload_len\<rparr>)"
  by (rule decode_header_encode)

text \<open>
  A header that decodes is the encoding of what was decoded: the accepted buffers are
  those that start with an uncompressed header for a length within the limit, so no two
  encodings of the same length are accepted.
\<close>

lemma header_decode_sound:
  "decode_header buf max_len = Inr h \<longleftrightarrow>
     (\<exists>rest. buf = encode_header False (fh_payload_len h) @ rest)
     \<and> fh_payload_len h \<le> max_len \<and> \<not> fh_compressed h"
proof
  assume "decode_header buf max_len = Inr h"
  then show "(\<exists>rest. buf = encode_header False (fh_payload_len h) @ rest)
     \<and> fh_payload_len h \<le> max_len \<and> \<not> fh_compressed h"
    by (rule decode_header_InrE) auto
next
  assume "(\<exists>rest. buf = encode_header False (fh_payload_len h) @ rest)
     \<and> fh_payload_len h \<le> max_len \<and> \<not> fh_compressed h"
  then show "decode_header buf max_len = Inr h"
    by (cases h) (auto simp: decode_header_encode)
qed

end
