(* ===== verification/Headers.thy ===== *)
theory Headers
  imports Prelude
begin

unbundle bit_operations_syntax

text \<open>
  \<open>rust/grpcuds-core/src/headers.rs\<close>: gRPC status codes and their numeric form, the
  response header and trailer builders handed to nghttp2, percent-encoding of the
  \<open>grpc-message\<close> trailer and the parser of the \<open>grpc-timeout\<close> request header. The
  contract between a status type and its wire numbers is the locale \<open>status_codec\<close>; the
  other places that repeat this table (\<open>dispatch.rs\<close>, the C layer, the Rust facade)
  interpret it again.
\<close>

section \<open>Status codes\<close>

datatype grpc_status =
    Ok | Cancelled | Unknown | InvalidArgument | DeadlineExceeded | NotFound | AlreadyExists
  | PermissionDenied | ResourceExhausted | FailedPrecondition | Aborted | OutOfRange
  | Unimplemented | Internal | Unavailable | DataLoss | Unauthenticated

text \<open>The discriminants: \<open>status as i32\<close>.\<close>

fun status_code :: "grpc_status \<Rightarrow> int" where
  "status_code Ok = 0"
| "status_code Cancelled = 1"
| "status_code Unknown = 2"
| "status_code InvalidArgument = 3"
| "status_code DeadlineExceeded = 4"
| "status_code NotFound = 5"
| "status_code AlreadyExists = 6"
| "status_code PermissionDenied = 7"
| "status_code ResourceExhausted = 8"
| "status_code FailedPrecondition = 9"
| "status_code Aborted = 10"
| "status_code OutOfRange = 11"
| "status_code Unimplemented = 12"
| "status_code Internal = 13"
| "status_code Unavailable = 14"
| "status_code DataLoss = 15"
| "status_code Unauthenticated = 16"

definition grpc_status_from_i32 :: "int \<Rightarrow> grpc_status" where
  "grpc_status_from_i32 code =
     (if code = 0 then Ok
      else if code = 1 then Cancelled
      else if code = 2 then Unknown
      else if code = 3 then InvalidArgument
      else if code = 4 then DeadlineExceeded
      else if code = 5 then NotFound
      else if code = 6 then AlreadyExists
      else if code = 7 then PermissionDenied
      else if code = 8 then ResourceExhausted
      else if code = 9 then FailedPrecondition
      else if code = 10 then Aborted
      else if code = 11 then OutOfRange
      else if code = 12 then Unimplemented
      else if code = 13 then Internal
      else if code = 14 then Unavailable
      else if code = 15 then DataLoss
      else if code = 16 then Unauthenticated
      else Unknown)"

section \<open>Header blocks\<close>

text \<open>
  An \<open>nghttp2_nv\<close>: the two pointers with their lengths are the two byte strings; the flag
  byte is kept as the two bits the code sets.
\<close>

record nv =
  nv_name :: bytes
  nv_value :: bytes
  nv_no_copy_name :: bool
  nv_no_copy_value :: bool

definition N_STATUS :: bytes where "N_STATUS = ascii '':status''"
definition V_200 :: bytes where "V_200 = ascii ''200''"
definition N_CONTENT_TYPE :: bytes where "N_CONTENT_TYPE = ascii ''content-type''"
definition V_APP_GRPC :: bytes where "V_APP_GRPC = ascii ''application/grpc''"
definition N_GRPC_STATUS :: bytes where "N_GRPC_STATUS = ascii ''grpc-status''"
definition N_GRPC_MESSAGE :: bytes where "N_GRPC_MESSAGE = ascii ''grpc-message''"

definition V_GRPC_STATUS :: "bytes list" where
  "V_GRPC_STATUS = map ascii
     [''0'', ''1'', ''2'', ''3'', ''4'', ''5'', ''6'', ''7'', ''8'', ''9'', ''10'', ''11'',
      ''12'', ''13'', ''14'', ''15'', ''16'']"

definition nv_static :: "bytes \<Rightarrow> bytes \<Rightarrow> nv" where
  "nv_static name value =
     \<lparr>nv_name = name, nv_value = value, nv_no_copy_name = True, nv_no_copy_value = True\<rparr>"

definition nv_dyn_value :: "bytes \<Rightarrow> bytes \<Rightarrow> nv" where
  "nv_dyn_value name value =
     \<lparr>nv_name = name, nv_value = value, nv_no_copy_name = True, nv_no_copy_value = False\<rparr>"

definition HEX :: bytes where
  "HEX = ascii ''0123456789ABCDEF''"

fun percent_encode_message :: "bytes \<Rightarrow> bytes \<Rightarrow> bytes" where
  "percent_encode_message [] out = out"
| "percent_encode_message (b # msg) out =
     percent_encode_message msg
       (if \<not> (0x20 \<le> b \<and> b \<le> 0x7E) \<or> b = 0x25
        then out @ [0x25, HEX ! unat (drop_bit 4 b), HEX ! unat (b AND 0x0F)]
        else out @ [b])"

definition response_headers :: "nv list" where
  "response_headers = [nv_static N_STATUS V_200, nv_static N_CONTENT_TYPE V_APP_GRPC]"

definition trailer :: "grpc_status \<Rightarrow> nv list" where
  "trailer status =
     (let idx = nat (status_code status); val = V_GRPC_STATUS ! idx
      in [nv_static N_GRPC_STATUS val])"

definition trailer_with_message :: "grpc_status \<Rightarrow> bytes \<Rightarrow> nv list" where
  "trailer_with_message status msg =
     (let val = V_GRPC_STATUS ! nat (status_code status)
      in [nv_static N_GRPC_STATUS val, nv_dyn_value N_GRPC_MESSAGE msg])"

section \<open>The \<open>grpc-timeout\<close> header\<close>

definition is_ascii_digit :: "byte \<Rightarrow> bool" where
  "is_ascii_digit d \<longleftrightarrow> 0x30 \<le> d \<and> d \<le> 0x39"

fun timeout_digits :: "bytes \<Rightarrow> nat \<Rightarrow> nat option" where
  "timeout_digits [] n = Some n"
| "timeout_digits (d # ds) n =
     (if \<not> is_ascii_digit d then None else timeout_digits ds (n * 10 + unat (d - 0x30)))"

definition timeout_unit :: "byte \<Rightarrow> nat \<Rightarrow> nat option" where
  "timeout_unit u n =
     (if u = 0x48 then Some (sat_mul64 n 3600000)
      else if u = 0x4D then Some (sat_mul64 n 60000)
      else if u = 0x53 then Some (sat_mul64 n 1000)
      else if u = 0x6D then Some n
      else if u = 0x75 then Some (div_ceil n 1000)
      else if u = 0x6E then Some (div_ceil n 1000000)
      else None)"

definition parse_grpc_timeout_ms :: "bytes \<Rightarrow> nat option" where
  "parse_grpc_timeout_ms v =
     (if length v < 2 \<or> length v > 9 then None
      else let digits = take (length v - 1) v; unit = drop (length v - 1) v
        in case timeout_digits digits 0 of
             None \<Rightarrow> None
           | Some n \<Rightarrow>
               (case timeout_unit (unit ! 0) n of
                  None \<Rightarrow> None
                | Some ms \<Rightarrow> Some (if ms = 0 then 1 else ms)))"

section \<open>The status table\<close>

text \<open>
  What a status type and its wire numbers owe each other: every status has its own number
  in \<open>0..16\<close>, every such number is read back, and all other numbers read as one designated
  status.
\<close>

locale status_codec =
  fixes to_wire :: "'s \<Rightarrow> int" and from_wire :: "int \<Rightarrow> 's" and unknown :: 's
  assumes from_to: "from_wire (to_wire s) = s"
    and to_range: "0 \<le> to_wire s \<and> to_wire s \<le> 16"
    and to_from: "0 \<le> c \<Longrightarrow> c \<le> 16 \<Longrightarrow> to_wire (from_wire c) = c"
    and out_of_range: "c < 0 \<or> 16 < c \<Longrightarrow> from_wire c = unknown"
begin

lemma to_wire_inj: "inj to_wire"
  by (metis from_to injI)

lemma normalise: "to_wire (from_wire c) = (if 0 \<le> c \<and> c \<le> 16 then c else to_wire unknown)"
  using to_from [of c] out_of_range [of c] by auto

lemma bij_wire: "bij_betw to_wire UNIV {0..16}"
proof -
  have "range to_wire = {0..16}"
  proof
    show "range to_wire \<subseteq> {0..16}" using to_range by auto
    show "{0..16} \<subseteq> range to_wire"
      using to_from by (metis atLeastAtMost_iff rangeI subsetI)
  qed
  then show ?thesis by (simp add: bij_betw_def to_wire_inj)
qed

lemma from_wire_eq_iff: "0 \<le> c \<Longrightarrow> c \<le> 16 \<Longrightarrow> from_wire c = s \<longleftrightarrow> c = to_wire s"
  using to_from from_to by metis

end

lemma code_range_cases:
  fixes c :: int
  assumes "0 \<le> c" and "c \<le> 16"
  shows "c \<in> {0, 1, 2, 3, 4, 5, 6, 7, 8, 9, 10, 11, 12, 13, 14, 15, 16}"
  using assms by (simp add: set_eq_iff) presburger

lemma to_from_status:
  assumes "0 \<le> c" and "c \<le> 16"
  shows "status_code (grpc_status_from_i32 c) = c"
  using code_range_cases [OF assms] by (auto simp: grpc_status_from_i32_def)

interpretation core_status: status_codec status_code grpc_status_from_i32 Unknown
proof (standard, goal_cases)
  case (1 s)
  then show ?case by (cases s) (simp_all add: grpc_status_from_i32_def)
next
  case (2 s)
  then show ?case by (cases s) simp_all
next
  case (3 c)
  then show ?case by (rule to_from_status)
next
  case (4 c)
  then show ?case by (auto simp: grpc_status_from_i32_def)
qed

section \<open>Percent-encoding\<close>

text \<open>The encoding of one byte, and the bytes that may stand in a header value.\<close>

definition pct_byte :: "byte \<Rightarrow> bytes" where
  "pct_byte b =
     (if \<not> (0x20 \<le> b \<and> b \<le> 0x7E) \<or> b = 0x25
      then [0x25, HEX ! unat (drop_bit 4 b), HEX ! unat (b AND 0x0F)] else [b])"

definition printable :: "byte \<Rightarrow> bool" where
  "printable b \<longleftrightarrow> 0x20 \<le> b \<and> b \<le> 0x7E"

lemma HEX_eq: "HEX = [0x30, 0x31, 0x32, 0x33, 0x34, 0x35, 0x36, 0x37, 0x38, 0x39,
     0x41, 0x42, 0x43, 0x44, 0x45, 0x46]"
  by (simp add: HEX_def ascii_def)

lemma percent_encode_concat:
  "percent_encode_message msg out = out @ concat (map pct_byte msg)"
  by (induction msg out rule: percent_encode_message.induct) (auto simp: pct_byte_def)

lemma high_nibble: "unat (drop_bit 4 (b :: byte)) < 16"
proof -
  have "unat b < 256" using unsigned_less [of b, where ?'a = nat] by simp
  then show ?thesis by (simp add: unsigned_drop_bit_eq drop_bit_eq_div unat_div_distrib)
qed

lemma low_nibble: "unat (b AND 0x0F :: byte) < 16"
proof -
  have "b AND 0x0F = take_bit 4 b" by (simp add: take_bit_eq_mask mask_eq_exp_minus_1)
  then show ?thesis
    using take_bit_nat_less_exp [of 4 "unat b"] by (simp add: unsigned_take_bit_eq)
qed

lemma HEX_printable:
  assumes "i < 16"
  shows "printable (HEX ! i)" and "HEX ! i \<noteq> 0x25"
proof -
  have "\<forall>x \<in> set HEX. printable x \<and> x \<noteq> 0x25"
    by (simp add: HEX_eq printable_def)
  moreover have "HEX ! i \<in> set HEX"
    using assms by (intro nth_mem) (simp add: HEX_def ascii_def)
  ultimately show "printable (HEX ! i)" and "HEX ! i \<noteq> 0x25" by auto
qed

lemma pct_byte_printable: "list_all printable (pct_byte b)"
  using HEX_printable [OF high_nibble [of b]] HEX_printable [OF low_nibble [of b]]
  by (auto simp: pct_byte_def) (simp_all add: printable_def)

lemma percent_encode_all_printable: "list_all printable (percent_encode_message msg [])"
  unfolding percent_encode_concat using pct_byte_printable by (induction msg) auto

lemma percent_encode_neq_Nil: "msg \<noteq> [] \<Longrightarrow> percent_encode_message msg [] \<noteq> []"
  unfolding percent_encode_concat by (cases msg) (auto simp: pct_byte_def)

lemma percent_encode_plain: "list_all (\<lambda>b. printable b \<and> b \<noteq> 0x25) msg \<Longrightarrow> percent_encode_message msg [] = msg"
  unfolding percent_encode_concat by (induction msg) (auto simp: pct_byte_def printable_def)

section \<open>Timeouts\<close>

text \<open>
  The reference reading of a timeout: one to eight decimal digits and a unit, worth a number
  of nanoseconds, rounded up to whole milliseconds and to at least one.
\<close>

definition unit_ns :: "byte \<Rightarrow> nat option" where
  "unit_ns u =
     (if u = 0x48 then Some (3600 * 10 ^ 9) else if u = 0x4D then Some (60 * 10 ^ 9)
      else if u = 0x53 then Some (10 ^ 9) else if u = 0x6D then Some (10 ^ 6)
      else if u = 0x75 then Some (10 ^ 3) else if u = 0x6E then Some 1 else None)"

fun dec_value :: "bytes \<Rightarrow> nat" where
  "dec_value [] = 0"
| "dec_value (d # ds) = (unat d - 48) * 10 ^ length ds + dec_value ds"

definition timeout_spec :: "bytes \<Rightarrow> nat option" where
  "timeout_spec v =
     (if v \<noteq> [] \<and> butlast v \<noteq> [] \<and> length (butlast v) \<le> 8
         \<and> list_all is_ascii_digit (butlast v)
      then map_option (\<lambda>ns. max 1 (div_ceil (dec_value (butlast v) * ns) (10 ^ 6)))
             (unit_ns (last v))
      else None)"

lemma digit_value: "is_ascii_digit d \<Longrightarrow> unat (d - 0x30) = unat d - 48 \<and> unat d - 48 \<le> 9"
  by (auto simp: is_ascii_digit_def unat_sub word_le_nat_alt)

lemma timeout_digits_eq:
  "timeout_digits ds n =
     (if list_all is_ascii_digit ds then Some (n * 10 ^ length ds + dec_value ds) else None)"
  by (induction ds n rule: timeout_digits.induct) (auto simp: digit_value algebra_simps)

lemma dec_value_bound: "list_all is_ascii_digit ds \<Longrightarrow> dec_value ds < 10 ^ length ds"
proof (induction ds)
  case (Cons d ds)
  then have "unat d - 48 \<le> 9" and "dec_value ds < 10 ^ length ds"
    using digit_value [of d] by auto
  then have "(unat d - 48) * 10 ^ length ds + dec_value ds < 9 * 10 ^ length ds + 10 ^ length ds"
    by (intro add_le_less_mono mult_le_mono1)
  then show ?case by simp
qed simp

lemma div_ceil_mult: "0 < k \<Longrightarrow> div_ceil (n * k) k = n"
  by (simp add: div_ceil_def)

lemma div_ceil_scale: "0 < k \<Longrightarrow> div_ceil (n * k) (m * k) = div_ceil n m"
  by (simp add: div_ceil_def)

lemma timeout_unit_spec:
  assumes "n < 10 ^ 8"
  shows "timeout_unit u n = map_option (\<lambda>ns. div_ceil (n * ns) (10 ^ 6)) (unit_ns u)"
proof -
  have sat: "sat_mul64 n k = n * k" if "k \<le> 3600000" for k
  proof -
    have "n * k \<le> 10 ^ 8 * 3600000"
      using assms that by (intro mult_le_mono) auto
    then show ?thesis by (intro sat_mul64_exact) simp
  qed
  have whole: "div_ceil (n * (k * 1000000)) 1000000 = n * k" for k
    using div_ceil_mult [of 1000000 "n * k"] by (simp add: mult.assoc)
  show ?thesis
    using whole [of 3600000] whole [of 60000] whole [of 1000] whole [of 1]
      div_ceil_scale [of 1000 n 1000]
    by (auto simp: timeout_unit_def unit_ns_def sat)
qed

lemma parse_timeout_spec: "parse_grpc_timeout_ms v = timeout_spec v"
proof (cases "length v < 2 \<or> length v > 9 \<or> \<not> list_all is_ascii_digit (butlast v)")
  case True
  then show ?thesis
    by (cases v rule: rev_cases)
       (auto simp: parse_grpc_timeout_ms_def timeout_spec_def timeout_digits_eq Let_def)
next
  case False
  then have len: "2 \<le> length v" "length v \<le> 9" and dig: "list_all is_ascii_digit (butlast v)"
    by auto
  then obtain ds u where v: "v = ds @ [u]" by (cases v rule: rev_cases) auto
  have "dec_value ds < 10 ^ length ds" using dec_value_bound dig v by simp
  also have "\<dots> \<le> 10 ^ 8" using len v by (intro power_increasing) auto
  finally have n: "dec_value ds < 10 ^ 8" .
  show ?thesis
    using len dig v timeout_unit_spec [OF n, of u]
    by (auto simp: parse_grpc_timeout_ms_def timeout_spec_def timeout_digits_eq Let_def
        split: option.splits)
qed

section \<open>Properties\<close>

text \<open>
  The status table is a bijection: the seventeen statuses take the seventeen numbers
  \<open>0..16\<close>, a number in that range is read back as the status it was written for, and every
  other \<open>i32\<close> reads as \<open>Unknown\<close>.
\<close>

lemma status_table_total:
  "bij_betw status_code UNIV {0..16}
   \<and> grpc_status_from_i32 (status_code s) = s
   \<and> status_code (grpc_status_from_i32 c) = (if 0 \<le> c \<and> c \<le> 16 then c else 2)"
  using core_status.bij_wire core_status.from_to core_status.normalise [of c] by simp

text \<open>
  Percent-encoding keeps what the buffer held, and everything it appends is printable
  ASCII, so that the value is a legal header value whatever bytes the message has; a message
  of printable bytes without a percent sign is appended verbatim.
\<close>

lemma percent_encode_printable:
  "\<exists>enc. percent_encode_message msg out = out @ enc \<and> list_all printable enc
     \<and> (list_all (\<lambda>b. printable b \<and> b \<noteq> 0x25) msg \<longrightarrow> enc = msg)"
proof (intro exI conjI impI)
  show "percent_encode_message msg out = out @ concat (map pct_byte msg)"
    by (rule percent_encode_concat)
  show "list_all printable (concat (map pct_byte msg))"
    using percent_encode_all_printable [of msg] by (simp add: percent_encode_concat)
  show "concat (map pct_byte msg) = msg" if "list_all (\<lambda>b. printable b \<and> b \<noteq> 0x25) msg"
    using percent_encode_plain [OF that] by (simp add: percent_encode_concat)
qed

text \<open>
  C32. The timeout parser computes the specified value for every byte string: one to eight
  digits and a unit are worth that many nanoseconds rounded up to whole milliseconds, never
  less than one; everything else is ignored. No accepted value saturates.
\<close>

theorem parse_timeout_correct: "parse_grpc_timeout_ms v = timeout_spec v"
  by (rule parse_timeout_spec)

end
