(* ===== verification/Out_Queue.thy ===== *)
theory Out_Queue
  imports Framing Headers
begin

text \<open>
  \<open>rust/grpcuds-core/src/conn/out_queue.rs\<close>: the per-stream queue of framed response
  messages between the handlers and nghttp2, with its two ways out (the copying
  \<open>drain_into\<close> and the \<open>NO_COPY\<close> path \<open>promise_front\<close>, \<open>front_regions\<close>,
  \<open>consume_front\<close>) and its overflow policies.

  The abstraction of a queue is \<open>qbytes\<close>, the bytes not yet shipped. Under \<open>queue_inv\<close>
  every subtraction and slice of the source is in range, so the list operations below read
  exactly what the source reads. Each way out is an instance of the locale \<open>byte_source\<close>.

  The result of a fallible allocation (\<open>try_reserve\<close>) is an argument: \<open>al_bytes n\<close> says
  whether reserving \<open>n\<close> bytes succeeds and \<open>al_slot\<close> whether a container can grow by one
  element.
\<close>

section \<open>Definitions\<close>

record alloc =
  al_bytes :: "nat \<Rightarrow> bool"
  al_slot :: bool

text \<open>The allocator of a machine that does not run out of memory.\<close>

definition al_all :: alloc where
  "al_all = \<lparr>al_bytes = (\<lambda>_. True), al_slot = True\<rparr>"

datatype session_error = SessionAlloc

datatype conn_error =
    Session session_error
  | OutOfMemory
  | StreamNotFound
  | StreamFinished
  | QueueFull
  | Nghttp2 int

datatype overflow_policy = Reject | DropOldest

datatype backpressure = Unbounded | Bounded (bp_capacity: nat) (bp_policy: overflow_policy)

record out_msg =
  om_hdr :: bytes
  om_body :: bytes

definition om_len :: "out_msg \<Rightarrow> nat" where
  "om_len m = FRAME_HEADER_LEN + length (om_body m)"

record out_queue =
  messages :: "out_msg list"
  front_offset :: nat
  front_committed :: bool
  finished :: bool
  final_status :: grpc_status
  final_message :: "bytes option"
  response_started :: bool
  oq_backpressure :: backpressure

definition oq_new :: out_queue where
  "oq_new =
     \<lparr>messages = [], front_offset = 0, front_committed = False, finished = False,
      final_status = Ok, final_message = None, response_started = False,
      oq_backpressure = Unbounded\<rparr>"

definition in_flight :: "out_queue \<Rightarrow> bool" where
  "in_flight q \<longleftrightarrow> front_offset q > 0 \<or> front_committed q"

definition unstarted_count :: "out_queue \<Rightarrow> nat" where
  "unstarted_count q =
     (if front_offset q > 0 \<or> front_committed q then length (messages q) - 1
      else length (messages q))"

definition front_remaining :: "out_queue \<Rightarrow> nat" where
  "front_remaining q =
     (case messages q of [] \<Rightarrow> 0 | m # _ \<Rightarrow> om_len m - front_offset q)"

definition promise_front :: "nat \<Rightarrow> out_queue \<Rightarrow> nat \<times> out_queue" where
  "promise_front max_n q =
     (let n = min (front_remaining q) max_n
      in (n, if n > 0 then q\<lparr>front_committed := True\<rparr> else q))"

text \<open>\<open>&v[a..b]\<close>.\<close>

definition slice :: "nat \<Rightarrow> nat \<Rightarrow> 'a list \<Rightarrow> 'a list" where
  "slice a b xs = take (b - a) (drop a xs)"

definition front_regions :: "nat \<Rightarrow> out_queue \<Rightarrow> bytes \<times> bytes" where
  "front_regions n0 q =
     (case messages q of
        [] \<Rightarrow> ([], [])
      | front # _ \<Rightarrow>
          let off = front_offset q;
              n = min n0 (om_len front - off);
              fin = off + n;
              hdr_part = (if off < FRAME_HEADER_LEN
                          then slice off (min fin FRAME_HEADER_LEN) (om_hdr front) else []);
              body_start = max off FRAME_HEADER_LEN - FRAME_HEADER_LEN;
              body_end = max fin FRAME_HEADER_LEN - FRAME_HEADER_LEN
          in (hdr_part, slice body_start body_end (om_body front)))"

definition consume_front :: "nat \<Rightarrow> out_queue \<Rightarrow> out_queue" where
  "consume_front n q =
     (case messages q of
        [] \<Rightarrow> q\<lparr>front_committed := False\<rparr>
      | front # rest \<Rightarrow>
          let off = front_offset q + min n (om_len front - front_offset q)
          in if off = om_len front
             then q\<lparr>messages := rest, front_offset := 0, front_committed := False\<rparr>
             else q\<lparr>front_offset := off, front_committed := False\<rparr>)"

definition drop_oldest :: "out_queue \<Rightarrow> out_queue" where
  "drop_oldest q =
     (let drop_idx = (if front_offset q > 0 \<or> front_committed q then 1 else 0)
      in if drop_idx < length (messages q)
         then q\<lparr>messages := remove_at drop_idx (messages q)\<rparr> else q)"

definition overflow :: "out_queue \<Rightarrow> overflow_policy option" where
  "overflow q =
     (case oq_backpressure q of
        Unbounded \<Rightarrow> None
      | Bounded capacity policy \<Rightarrow>
          if unstarted_count q \<ge> capacity then Some policy else None)"

definition enqueue_owned ::
    "alloc \<Rightarrow> bytes \<Rightarrow> out_queue \<Rightarrow> (conn_error + unit) \<times> out_queue" where
  "enqueue_owned al body q =
     (if length body > 2 ^ 32 - 1 then (Inl QueueFull, q)
      else if overflow q = Some Reject then (Inl QueueFull, q)
      else
        let q = (if overflow q = Some DropOldest then drop_oldest q else q);
            hdr = encode_header False (of_nat (length body))
        in if \<not> al_slot al then (Inl OutOfMemory, q)
           else (Inr (), q\<lparr>messages := messages q @ [\<lparr>om_hdr = hdr, om_body = body\<rparr>]\<rparr>))"

definition enqueue_framed ::
    "alloc \<Rightarrow> bytes \<Rightarrow> out_queue \<Rightarrow> (conn_error + unit) \<times> out_queue" where
  "enqueue_framed al payload q =
     (if \<not> al_bytes al (length payload) then (Inl OutOfMemory, q)
      else enqueue_owned al payload q)"

text \<open>
  \<open>drain_into\<close>: \<open>cap\<close> is \<open>dst.len()\<close> and \<open>out\<close> the part of \<open>dst\<close> already written. One
  round of the loop copies what is left of the front message's header, then of its body, and
  pops the message when it is exhausted. A front that is not exhausted has filled \<open>dst\<close>
  (lemma \<open>drain_body_full\<close>), so the loop goes on exactly after a pop.
\<close>

definition drain_hdr :: "nat \<Rightarrow> out_msg \<Rightarrow> bytes \<Rightarrow> nat \<Rightarrow> bytes \<times> nat" where
  "drain_hdr cap front out off =
     (if off < FRAME_HEADER_LEN
      then let remaining = drop off (om_hdr front);
               n = min (length remaining) (cap - length out)
           in (out @ take n remaining, off + n)
      else (out, off))"

definition drain_body :: "nat \<Rightarrow> out_msg \<Rightarrow> bytes \<Rightarrow> nat \<Rightarrow> bytes \<times> nat" where
  "drain_body cap front out off =
     (let body_off = off - FRAME_HEADER_LEN;
          remaining = drop body_off (om_body front);
          n = min (length remaining) (cap - length out)
      in (out @ take n remaining, off + n))"

fun drain_loop :: "nat \<Rightarrow> bytes \<Rightarrow> out_msg list \<Rightarrow> nat \<Rightarrow> bytes \<times> out_msg list \<times> nat" where
  "drain_loop cap out [] off = (out, [], off)"
| "drain_loop cap out (front # rest) off =
     (if length out < cap
      then let (out1, off1) = drain_hdr cap front out off
           in if length out1 = cap then (out1, front # rest, off1)
              else let (out2, off2) = drain_body cap front out1 off1
                   in if off2 = om_len front then drain_loop cap out2 rest 0
                      else (out2, front # rest, off2)
      else (out, front # rest, off))"

definition drain_into :: "nat \<Rightarrow> out_queue \<Rightarrow> bytes \<times> out_queue" where
  "drain_into cap q =
     (let (out, msgs, off) = drain_loop cap [] (messages q) (front_offset q)
      in (out, q\<lparr>messages := msgs, front_offset := off\<rparr>))"

section \<open>Abstraction and invariant\<close>

definition msg_bytes :: "out_msg \<Rightarrow> bytes" where
  "msg_bytes m = om_hdr m @ om_body m"

definition qbytes :: "out_queue \<Rightarrow> bytes" where
  "qbytes q = drop (front_offset q) (concat (map msg_bytes (messages q)))"

definition msg_ok :: "out_msg \<Rightarrow> bool" where
  "msg_ok m \<longleftrightarrow> om_hdr m = encode_header False (of_nat (length (om_body m)))
     \<and> length (om_body m) < 2 ^ 32"

fun off_ok :: "out_msg list \<Rightarrow> nat \<Rightarrow> bool" where
  "off_ok [] off \<longleftrightarrow> off = 0"
| "off_ok (m # ms) off \<longleftrightarrow> off \<le> om_len m"

definition queue_inv :: "out_queue \<Rightarrow> bool" where
  "queue_inv q \<longleftrightarrow> list_all msg_ok (messages q) \<and> off_ok (messages q) (front_offset q)"

text \<open>The messages that may still be dropped, and the one that may not.\<close>

definition unstarted :: "out_queue \<Rightarrow> bytes list" where
  "unstarted q = map om_body (if in_flight q then drop 1 (messages q) else messages q)"

definition started :: "out_queue \<Rightarrow> bytes list" where
  "started q = map om_body (if in_flight q then take 1 (messages q) else [])"

text \<open>The no-copy path as one step: promise, write the promised regions, consume.\<close>

definition nocopy_pull :: "nat \<Rightarrow> out_queue \<Rightarrow> bytes \<times> out_queue" where
  "nocopy_pull n q =
     (let (k, q1) = promise_front n q; (h, b) = front_regions k q1
      in (h @ b, consume_front k q1))"

abbreviation msgs_bytes :: "out_msg list \<Rightarrow> bytes" where
  "msgs_bytes ms \<equiv> concat (map msg_bytes ms)"

section \<open>Lemmas\<close>

subsection \<open>The copying path\<close>

lemma om_len_msg: "msg_ok m \<Longrightarrow> length (msg_bytes m) = om_len m"
  by (simp add: msg_ok_def msg_bytes_def om_len_def)

lemma hdr_len: "msg_ok m \<Longrightarrow> length (om_hdr m) = FRAME_HEADER_LEN"
  by (simp add: msg_ok_def)

lemma msg_bytes_frame: "msg_ok m \<Longrightarrow> msg_bytes m = frame (om_body m)"
  by (simp add: msg_ok_def msg_bytes_def frame_def)

lemma qbytes_frames:
  "queue_inv q \<Longrightarrow> qbytes q = drop (front_offset q) (frames (map om_body (messages q)))"
  by (simp add: queue_inv_def qbytes_def frames_def list_all_iff msg_bytes_frame cong: map_cong)

lemma drain_hdr_spec:
  assumes "msg_ok m" and "length out \<le> cap" and "drain_hdr cap m out off = (out', off')"
  shows "out' = out @ take (cap - length out) (drop off (om_hdr m))"
    and "off' = off + (length out' - length out)" and "length out' \<le> cap"
    and "off \<le> om_len m \<Longrightarrow> off' \<le> om_len m"
    and "length out' < cap \<Longrightarrow> FRAME_HEADER_LEN \<le> off'"
    and "off < FRAME_HEADER_LEN \<Longrightarrow> off' \<le> FRAME_HEADER_LEN"
  using assms hdr_len [of m]
  by (auto simp: drain_hdr_def Let_def om_len_def min_def split: if_splits)

lemma drain_body_spec:
  assumes "length out \<le> cap" and "FRAME_HEADER_LEN \<le> off" and "off \<le> om_len m"
    and "drain_body cap m out off = (out', off')"
  shows "out' = out @ take (cap - length out) (drop (off - FRAME_HEADER_LEN) (om_body m))"
    and "off' = off + (length out' - length out)" and "length out' \<le> cap"
    and "off' \<le> om_len m"
  using assms by (auto simp: drain_body_def Let_def om_len_def min_def split: if_splits)

lemma drain_body_full:
  assumes "length out \<le> cap" and "FRAME_HEADER_LEN \<le> off" and "off \<le> om_len m"
    and "drain_body cap m out off = (out', off')" and "off' \<noteq> om_len m"
  shows "length out' = cap"
  using assms by (auto simp: drain_body_def Let_def om_len_def min_def split: if_splits)

lemma drain_front_hdr:
  assumes "msg_ok m" and "off \<le> om_len m" and "length out < cap"
    and "drain_hdr cap m out off = (out1, off1)" and "length out1 = cap"
  shows "out1 = out @ take (cap - length out) (drop off (msg_bytes m))"
    and "off1 = off + (cap - length out)" and "off1 \<le> om_len m"
proof -
  have lt: "length out \<le> cap" using assms(3) by simp
  note spec = drain_hdr_spec [OF assms(1) lt assms(4)]
  have o1: "out1 = out @ take (cap - length out) (drop off (om_hdr m))" by (rule spec(1))
  have "cap - length out \<le> length (drop off (om_hdr m))"
    using o1 assms(5) by (auto simp: min_def split: if_splits)
  then have "take (cap - length out) (drop off (msg_bytes m))
      = take (cap - length out) (drop off (om_hdr m))"
    by (simp add: msg_bytes_def)
  with o1 show "out1 = out @ take (cap - length out) (drop off (msg_bytes m))" by metis
  show "off1 = off + (cap - length out)" using spec(2) unfolding assms(5) .
  show "off1 \<le> om_len m" by (rule spec(4) [OF assms(2)])
qed

lemma drain_front_body:
  assumes m: "msg_ok m" and off: "off \<le> om_len m" and lt: "length out < cap"
    and h: "drain_hdr cap m out off = (out1, off1)" and ne: "length out1 \<noteq> cap"
    and b: "drain_body cap m out1 off1 = (out2, off2)"
  shows "out2 = out @ take (cap - length out) (drop off (msg_bytes m))"
    and "off2 = off + (length out2 - length out)" and "off2 \<le> om_len m"
    and "off2 \<noteq> om_len m \<Longrightarrow> length out2 = cap"
proof -
  note h1 = drain_hdr_spec [OF m less_imp_le [OF lt] h]
  have cap1: "length out1 < cap" using h1(3) ne by linarith
  note o1 = h1(1) and f1 = h1(2) and le1 = h1(4) [OF off] and ge1 = h1(5) [OF cap1]
  note b1 = drain_body_spec [OF less_imp_le [OF cap1] ge1 le1 b]
  note o2 = b1(1) and f2 = b1(2) and le2 = b1(4)
  note full = drain_body_full [OF less_imp_le [OF cap1] ge1 le1 b]
  have all: "take (cap - length out) (drop off (om_hdr m)) = drop off (om_hdr m)"
    and len1: "length out1 = length out + (FRAME_HEADER_LEN - off)"
  proof -
    have "length (take (cap - length out) (drop off (om_hdr m))) < cap - length out"
      using arg_cong [OF o1, of length] cap1 by simp
    then show all: "take (cap - length out) (drop off (om_hdr m)) = drop off (om_hdr m)"
      by simp
    show "length out1 = length out + (FRAME_HEADER_LEN - off)"
      using arg_cong [OF o1 [unfolded all], of length] hdr_len [OF m] by simp
  qed
  have body: "off1 - FRAME_HEADER_LEN = off - FRAME_HEADER_LEN"
    using f1 len1 by simp
  have "out2 = out @ drop off (om_hdr m)
      @ take (cap - length out1) (drop (off - FRAME_HEADER_LEN) (om_body m))"
    using o2 unfolding o1 [unfolded all] body by simp
  also have "\<dots> = out @ take (cap - length out) (drop off (msg_bytes m))"
    using len1 cap1 hdr_len [OF m] by (simp add: msg_bytes_def)
  finally show "out2 = out @ take (cap - length out) (drop off (msg_bytes m))" .
  show "off2 = off + (length out2 - length out)"
  proof -
    have "length out \<le> length out1" and "length out1 \<le> length out2"
      using arg_cong [OF o1, of length] arg_cong [OF o2, of length] by simp_all
    then show ?thesis using f1 f2 by linarith
  qed
  show "off2 \<le> om_len m" by (fact le2)
  show "off2 \<noteq> om_len m \<Longrightarrow> length out2 = cap" by (fact full)
qed

lemma drain_loop_spec:
  assumes "list_all msg_ok ms" and "off_ok ms off" and "length out \<le> cap"
    and "drain_loop cap out ms off = (out', ms', off')"
  shows "out' = out @ take (cap - length out) (drop off (msgs_bytes ms))
    \<and> drop off' (msgs_bytes ms') = drop (cap - length out) (drop off (msgs_bytes ms))
    \<and> list_all msg_ok ms' \<and> off_ok ms' off'
    \<and> (\<exists>n. ms' = drop n ms)"
  using assms
proof (induction cap out ms off rule: drain_loop.induct)
  case (1 cap out off)
  then show ?case by auto
next
  case (2 cap out m ms off)
  obtain out1 off1 where h: "drain_hdr cap m out off = (out1, off1)" by fastforce
  obtain out2 off2 where b: "drain_body cap m out1 off1 = (out2, off2)" by fastforce
  have m: "msg_ok m" and ms: "list_all msg_ok ms" and off: "off \<le> om_len m"
    using "2.prems" by auto
  have blen: "length (msg_bytes m) = om_len m" by (rule om_len_msg [OF m])
  consider "length out = cap" | "length out < cap" "length out1 = cap"
    | "length out < cap" "length out1 \<noteq> cap" "off2 = om_len m"
    | "length out < cap" "length out1 \<noteq> cap" "off2 \<noteq> om_len m"
    using "2.prems" by linarith
  then show ?case
  proof cases
    case 1
    with "2.prems" have "out' = out" "ms' = m # ms" "off' = off" by auto
    with 1 "2.prems" show ?thesis by (auto intro: exI [of _ 0])
  next
    case 2
    with "2.prems" h have "out' = out1" "ms' = m # ms" "off' = off1" by auto
    with drain_front_hdr [OF m off 2(1) h 2(2)] 2 blen m ms show ?thesis
      by (auto simp: ac_simps intro: exI [of _ 0])
  next
    case 3
    note f = drain_front_body [OF m off 3(1) h 3(2) b]
    have "length out \<le> length out2" using arg_cong [OF f(1), of length] by simp
    then have all: "length out2 = length out + (om_len m - off)"
      using f(2) 3(3) off by linarith
    have le: "length out2 \<le> cap"
      using arg_cong [OF f(1), of length] 3(1) by simp
    have "om_len m - off \<le> cap - length out" using all le by linarith
    then have o2: "out2 = out @ drop off (msg_bytes m)"
      using f(1) blen by simp
    have "drain_loop cap out2 ms 0 = (out', ms', off')"
      using "2.prems"(4) h b 3 by simp
    with "2.IH" [OF 3(1) h [symmetric] refl 3(2) b [symmetric] refl 3(3)] ms le
    have IH: "out' = out2 @ take (cap - length out2) (msgs_bytes ms)
        \<and> drop off' (msgs_bytes ms') = drop (cap - length out2) (msgs_bytes ms)
        \<and> list_all msg_ok ms' \<and> off_ok ms' off' \<and> (\<exists>n. ms' = drop n ms)"
      by (cases ms) auto
    have "take (cap - length out) (drop off (msgs_bytes (m # ms)))
        = drop off (msg_bytes m) @ take (cap - length out2) (msgs_bytes ms)"
      and "drop (cap - length out) (drop off (msgs_bytes (m # ms)))
        = drop (cap - length out2) (msgs_bytes ms)"
      using all le off blen by simp_all
    moreover from IH obtain n where "ms' = drop (Suc n) (m # ms)" by auto
    ultimately show ?thesis using IH o2 by (metis append.assoc)
  next
    case 4
    note f = drain_front_body [OF m off 4(1) h 4(2) b]
    have "out' = out2" "ms' = m # ms" "off' = off2" using "2.prems"(4) h b 4 by auto
    moreover have "off2 = off + (cap - length out)"
      using f(2) unfolding f(4) [OF 4(3)] .
    ultimately show ?thesis using f(1,3) 4(1) blen m ms
      by (auto simp: ac_simps intro: exI [of _ 0])
  qed
qed

lemma drain_into_spec:
  assumes "queue_inv q" and "drain_into n q = (out, q')"
  shows "out = take n (qbytes q)" and "qbytes q' = drop n (qbytes q)" and "queue_inv q'"
    and "\<exists>k. messages q' = drop k (messages q)"
proof -
  obtain msgs off where loop: "drain_loop n [] (messages q) (front_offset q) = (out, msgs, off)"
    and q': "q' = q\<lparr>messages := msgs, front_offset := off\<rparr>"
    using assms(2) by (auto simp: drain_into_def split: prod.splits)
  have "list_all msg_ok (messages q)" and "off_ok (messages q) (front_offset q)"
    using assms(1) by (auto simp: queue_inv_def)
  from drain_loop_spec [OF this _ loop] q'
  show "out = take n (qbytes q)" and "qbytes q' = drop n (qbytes q)" and "queue_inv q'"
    and "\<exists>k. messages q' = drop k (messages q)"
    by (simp_all add: qbytes_def queue_inv_def)
qed

lemma drain_into_frame:
  "drain_into n q = (out, q') \<Longrightarrow>
     finished q' = finished q \<and> final_status q' = final_status q
     \<and> final_message q' = final_message q \<and> response_started q' = response_started q
     \<and> oq_backpressure q' = oq_backpressure q \<and> front_committed q' = front_committed q"
  by (auto simp: drain_into_def split: prod.splits)

subsection \<open>The no-copy path\<close>

lemma qbytes_Cons:
  assumes "messages q = m # ms" and "queue_inv q"
  shows "qbytes q = drop (front_offset q) (msg_bytes m) @ msgs_bytes ms"
    and "length (drop (front_offset q) (msg_bytes m)) = front_remaining q"
  using assms om_len_msg [of m] by (auto simp: qbytes_def queue_inv_def front_remaining_def)

lemma slice_split:
  assumes "off + n \<le> length h + length b"
  shows "(if off < length h then slice off (min (off + n) (length h)) h else [])
       @ slice (max off (length h) - length h) (max (off + n) (length h) - length h) b
     = take n (drop off (h @ b))"
  using assms by (auto simp: slice_def min_def max_def not_less add.commute [of off n])

lemma front_regions_spec:
  assumes "queue_inv q" and "front_regions n q = (h, b)"
  shows "h @ b = take (min n (front_remaining q)) (qbytes q)"
proof (cases "messages q")
  case Nil
  with assms show ?thesis by (auto simp: front_regions_def qbytes_def queue_inv_def)
next
  case (Cons m ms)
  with assms(1) have ok: "msg_ok m" and off: "front_offset q \<le> om_len m"
    by (auto simp: queue_inv_def)
  let ?n = "min n (om_len m - front_offset q)"
  have fr: "front_remaining q = om_len m - front_offset q"
    using Cons by (simp add: front_remaining_def)
  have "h @ b = take ?n (drop (front_offset q) (msg_bytes m))"
    using slice_split [of "front_offset q" ?n "om_hdr m" "om_body m"] assms(2) Cons off
      hdr_len [OF ok]
    by (auto simp: front_regions_def Let_def om_len_def msg_bytes_def split: if_splits)
  with qbytes_Cons [OF Cons assms(1)] fr show ?thesis by simp
qed

lemma consume_front_spec:
  assumes "queue_inv q"
  shows "qbytes (consume_front n q) = drop (min n (front_remaining q)) (qbytes q)"
    and "queue_inv (consume_front n q)"
proof -
  consider "messages q = []" | m ms where "messages q = m # ms" by (cases "messages q") auto
  then show "qbytes (consume_front n q) = drop (min n (front_remaining q)) (qbytes q)"
  proof cases
    case 2
    with assms om_len_msg [of m] show ?thesis
      by (auto simp: consume_front_def front_remaining_def qbytes_def queue_inv_def Let_def
          min_def add.commute)
  qed (simp add: consume_front_def qbytes_def)
  show "queue_inv (consume_front n q)"
    using assms by (cases "messages q"; cases "tl (messages q)")
      (auto simp: consume_front_def queue_inv_def Let_def)
qed

lemma promise_front_spec:
  assumes "promise_front n q = (k, q')"
  shows "k = min (front_remaining q) n" and "qbytes q' = qbytes q"
    and "front_remaining q' = front_remaining q" and "queue_inv q' = queue_inv q"
    and "messages q' = messages q" and "k > 0 \<Longrightarrow> front_committed q'"
  using assms
  by (auto simp: promise_front_def Let_def qbytes_def queue_inv_def front_remaining_def
      split: if_splits list.splits)

lemma nocopy_pull_spec:
  assumes "queue_inv q" and "nocopy_pull n q = (out, q')"
  shows "out = take (min n (front_remaining q)) (qbytes q)"
    and "qbytes q' = drop (min n (front_remaining q)) (qbytes q)" and "queue_inv q'"
proof -
  obtain k q1 where p: "promise_front n q = (k, q1)" by fastforce
  obtain h b where r: "front_regions k q1 = (h, b)" by fastforce
  note ps = promise_front_spec [OF p]
  have inv: "queue_inv q1" using ps(4) assms(1) by simp
  have out: "out = h @ b" and q': "q' = consume_front k q1"
    using assms(2) p r by (auto simp: nocopy_pull_def)
  show "out = take (min n (front_remaining q)) (qbytes q)"
    using front_regions_spec [OF inv r] out ps(1,2,3) by (simp add: min.commute min.left_commute)
  show "qbytes q' = drop (min n (front_remaining q)) (qbytes q)"
    using consume_front_spec(1) [OF inv, of k] q' ps(1,2,3)
    by (simp add: min.commute min.left_commute)
  show "queue_inv q'" using consume_front_spec(2) [OF inv] q' by simp
qed

lemma front_remaining_le: "queue_inv q \<Longrightarrow> front_remaining q \<le> length (qbytes q)"
  using qbytes_Cons [of q] by (cases "messages q") (auto simp: front_remaining_def)

subsection \<open>Byte sources\<close>

text \<open>
  The contract of everything the transport takes bytes from: a pull gives a prefix of the
  contents, at most as long as asked, and leaves the rest. Whatever sequence of pull sizes is
  used, the pieces are the contents in order; a source that also makes progress is emptied by
  enough pulls.
\<close>

fun pulls :: "(nat \<Rightarrow> 'q \<Rightarrow> bytes \<times> 'q) \<Rightarrow> nat list \<Rightarrow> 'q \<Rightarrow> bytes \<times> 'q" where
  "pulls pull [] q = ([], q)"
| "pulls pull (n # ns) q =
     (let (out, q1) = pull n q; (outs, q2) = pulls pull ns q1 in (out @ outs, q2))"

locale byte_source =
  fixes contents :: "'q \<Rightarrow> bytes" and pull :: "nat \<Rightarrow> 'q \<Rightarrow> bytes \<times> 'q" and ok :: "'q \<Rightarrow> bool"
  assumes pull_split: "ok q \<Longrightarrow> pull n q = (out, q') \<Longrightarrow> out @ contents q' = contents q"
    and pull_bound: "ok q \<Longrightarrow> pull n q = (out, q') \<Longrightarrow> length out \<le> n"
    and pull_ok: "ok q \<Longrightarrow> pull n q = (out, q') \<Longrightarrow> ok q'"
begin

lemma pulls_split:
  "ok q \<Longrightarrow> pulls pull ns q = (out, q') \<Longrightarrow> out @ contents q' = contents q \<and> ok q'"
proof (induction ns arbitrary: q out q')
  case (Cons n ns)
  obtain o1 q1 where 1: "pull n q = (o1, q1)" by fastforce
  obtain o2 q2 where 2: "pulls pull ns q1 = (o2, q2)" by fastforce
  have "ok q1" by (rule pull_ok [OF Cons.prems(1) 1])
  with Cons.IH [OF _ 2] have "o2 @ contents q2 = contents q1" and "ok q2" by auto
  moreover have "out = o1 @ o2" and "q' = q2" using Cons.prems(2) 1 2 by auto
  ultimately show ?case using pull_split [OF Cons.prems(1) 1] by simp
qed auto

lemma pulls_ok: "ok q \<Longrightarrow> ok (snd (pulls pull ns q))"
  using pulls_split [of q ns "fst (pulls pull ns q)" "snd (pulls pull ns q)"] by simp

end

locale live_byte_source = byte_source +
  assumes progress:
    "ok q \<Longrightarrow> 0 < n \<Longrightarrow> contents q \<noteq> [] \<Longrightarrow> pull n q = (out, q') \<Longrightarrow> out \<noteq> []"
begin

lemma pulls_drain:
  assumes "ok q" and "list_all (\<lambda>n. 0 < n) ns" and "length (contents q) \<le> length ns"
  shows "fst (pulls pull ns q) = contents q"
  using assms
proof (induction ns arbitrary: q)
  case (Cons n ns)
  obtain o1 q1 where 1: "pull n q = (o1, q1)" by fastforce
  note split = pull_split [OF Cons.prems(1) 1]
  have "contents q = [] \<or> o1 \<noteq> []" using progress [OF Cons.prems(1) _ _ 1] Cons.prems(2) by auto
  then have "length (contents q1) \<le> length ns"
    using arg_cong [OF split, of length] Cons.prems(3) by (cases o1) auto
  then have "fst (pulls pull ns q1) = contents q1"
    using Cons.IH pull_ok [OF Cons.prems(1) 1] Cons.prems(2) by simp
  then show ?case using split 1 by (auto split: prod.splits)
qed auto

end

interpretation drain: live_byte_source qbytes drain_into queue_inv
proof (standard, goal_cases)
  case (1 q n out q')
  then show ?case using drain_into_spec(1,2) [OF 1] by simp
next
  case (2 q n out q')
  then show ?case using drain_into_spec(1) [OF 2] by simp
next
  case (3 q n out q')
  then show ?case by (rule drain_into_spec(3))
next
  case (4 q n out q')
  then show ?case using drain_into_spec(1) [OF 4(1,4)] by simp
qed

interpretation nocopy: byte_source qbytes nocopy_pull queue_inv
proof (standard, goal_cases)
  case (1 q n out q')
  then show ?case using nocopy_pull_spec(1,2) [OF 1] by simp
next
  case (2 q n out q')
  then show ?case using nocopy_pull_spec(1) [OF 2] by simp
next
  case (3 q n out q')
  then show ?case by (rule nocopy_pull_spec(3))
qed

subsection \<open>Enqueueing\<close>

lemma drop_oldest_keeps [queue_simps]:
  "front_offset (drop_oldest q) = front_offset q"
  "front_committed (drop_oldest q) = front_committed q"
  "finished (drop_oldest q) = finished q"
  "final_status (drop_oldest q) = final_status q"
  "final_message (drop_oldest q) = final_message q"
  "response_started (drop_oldest q) = response_started q"
  "oq_backpressure (drop_oldest q) = oq_backpressure q"
  by (simp_all add: drop_oldest_def Let_def)

lemma drop_oldest_messages:
  "map om_body (messages (drop_oldest q)) = started q @ tl (unstarted q)"
proof (cases "messages q")
  case Nil
  then show ?thesis by (simp add: drop_oldest_def started_def unstarted_def)
next
  case (Cons m ms)
  then show ?thesis
    by (cases ms) (auto simp: drop_oldest_def started_def unstarted_def in_flight_def
        remove_at_def Let_def)
qed

lemma drop_oldest_inv:
  assumes "queue_inv q"
  shows "queue_inv (drop_oldest q)"
proof (cases "messages q")
  case Nil
  with assms show ?thesis by (simp add: drop_oldest_def)
next
  case (Cons m ms)
  then show ?thesis using assms
    by (cases ms; cases "tl ms") (auto simp: drop_oldest_def queue_inv_def remove_at_def Let_def)
qed

lemma new_msg_ok:
  "length body \<le> 2 ^ 32 - 1 \<Longrightarrow>
     msg_ok \<lparr>om_hdr = encode_header False (of_nat (length body)), om_body = body\<rparr>"
  by (simp add: msg_ok_def)

lemma queue_inv_push:
  assumes "queue_inv q" and "msg_ok m"
  shows "queue_inv (q\<lparr>messages := messages q @ [m]\<rparr>)"
  using assms by (cases "messages q") (auto simp: queue_inv_def)

lemma enqueue_owned_inv: "queue_inv q \<Longrightarrow> queue_inv (snd (enqueue_owned al body q))"
  by (auto simp: enqueue_owned_def Let_def not_less
      intro!: queue_inv_push drop_oldest_inv new_msg_ok)

lemma enqueue_framed_inv: "queue_inv q \<Longrightarrow> queue_inv (snd (enqueue_framed al body q))"
  by (simp add: enqueue_framed_def enqueue_owned_inv)

lemma enqueue_owned_keeps [queue_simps]:
  "front_offset (snd (enqueue_owned al body q)) = front_offset q"
  "front_committed (snd (enqueue_owned al body q)) = front_committed q"
  "finished (snd (enqueue_owned al body q)) = finished q"
  "final_status (snd (enqueue_owned al body q)) = final_status q"
  "final_message (snd (enqueue_owned al body q)) = final_message q"
  "response_started (snd (enqueue_owned al body q)) = response_started q"
  "oq_backpressure (snd (enqueue_owned al body q)) = oq_backpressure q"
  by (simp_all add: enqueue_owned_def Let_def queue_simps)

lemma enqueue_framed_keeps [queue_simps]:
  "front_offset (snd (enqueue_framed al body q)) = front_offset q"
  "front_committed (snd (enqueue_framed al body q)) = front_committed q"
  "finished (snd (enqueue_framed al body q)) = finished q"
  "final_status (snd (enqueue_framed al body q)) = final_status q"
  "final_message (snd (enqueue_framed al body q)) = final_message q"
  "response_started (snd (enqueue_framed al body q)) = response_started q"
  "oq_backpressure (snd (enqueue_framed al body q)) = oq_backpressure q"
  by (simp_all add: enqueue_framed_def queue_simps)

lemma enqueue_room:
  assumes "queue_inv q" and "overflow q = None"
    and "length body \<le> 2 ^ 32 - 1" and "al_slot al"
  shows "fst (enqueue_owned al body q) = Inr ()"
    and "qbytes (snd (enqueue_owned al body q)) = qbytes q @ frame body"
    and "map om_body (messages (snd (enqueue_owned al body q)))
       = map om_body (messages q) @ [body]"
proof -
  let ?m = "\<lparr>om_hdr = encode_header False (of_nat (length body)), om_body = body\<rparr>"
  have eq: "enqueue_owned al body q = (Inr (), q\<lparr>messages := messages q @ [?m]\<rparr>)"
    using assms by (simp add: enqueue_owned_def Let_def)
  have "front_offset q \<le> length (msgs_bytes (messages q))"
    using assms(1) om_len_msg by (cases "messages q") (auto simp: queue_inv_def)
  then show "qbytes (snd (enqueue_owned al body q)) = qbytes q @ frame body"
    by (simp add: eq qbytes_def msg_bytes_def frame_def)
  show "fst (enqueue_owned al body q) = Inr ()" by (simp add: eq)
  show "map om_body (messages (snd (enqueue_owned al body q)))
     = map om_body (messages q) @ [body]" by (simp add: eq)
qed

subsection \<open>Bursts\<close>

definition push_all :: "alloc \<Rightarrow> bytes list \<Rightarrow> out_queue \<Rightarrow> out_queue" where
  "push_all al bs q = fold (\<lambda>b q. snd (enqueue_owned al b q)) bs q"

lemma push_all_snoc: "push_all al (bs @ [b]) q = snd (enqueue_owned al b (push_all al bs q))"
  by (simp add: push_all_def)

lemma push_all_keeps:
  "front_offset (push_all al bs q) = front_offset q"
  "front_committed (push_all al bs q) = front_committed q"
  "oq_backpressure (push_all al bs q) = oq_backpressure q"
  by (induction bs rule: rev_induct) (simp_all add: push_all_snoc queue_simps, simp_all add: push_all_def)

lemma bounded_step:
  assumes "oq_backpressure q = Bounded cap pol" and "\<not> in_flight q" and "0 < cap"
    and "length b \<le> 2 ^ 32 - 1" and "al_slot al"
  shows "map om_body (messages (snd (enqueue_owned al b q))) =
     (if length (messages q) < cap then map om_body (messages q) @ [b]
      else if pol = Reject then map om_body (messages q)
      else tl (map om_body (messages q)) @ [b])"
  using assms drop_oldest_messages [of q]
  by (cases pol) (auto simp: enqueue_owned_def overflow_def unstarted_count_def in_flight_def
      Let_def started_def unstarted_def)

lemma push_all_bounded:
  assumes "0 < cap" and "al_slot al" and "\<forall>b \<in> set bs. length b \<le> 2 ^ 32 - 1"
  shows "map om_body (messages (push_all al bs (oq_new\<lparr>oq_backpressure := Bounded cap pol\<rparr>)))
     = (if pol = Reject then take cap bs else drop (length bs - cap) bs)"
  using assms(3)
proof (induction bs rule: rev_induct)
  case Nil
  then show ?case by (simp add: push_all_def oq_new_def)
next
  case (snoc b bs)
  let ?q = "push_all al bs (oq_new\<lparr>oq_backpressure := Bounded cap pol\<rparr>)"
  have IH: "map om_body (messages ?q)
      = (if pol = Reject then take cap bs else drop (length bs - cap) bs)"
    using snoc by simp
  have len: "length (messages ?q) = min cap (length bs)"
    using arg_cong [OF IH, of length] by (auto split: if_splits)
  have "\<not> in_flight ?q" and "oq_backpressure ?q = Bounded cap pol"
    by (simp_all add: in_flight_def push_all_keeps oq_new_def)
  with snoc.prems have step: "map om_body (messages (snd (enqueue_owned al b ?q))) =
     (if length (messages ?q) < cap then map om_body (messages ?q) @ [b]
      else if pol = Reject then map om_body (messages ?q)
      else tl (map om_body (messages ?q)) @ [b])"
    by (intro bounded_step [OF _ _ assms(1) _ assms(2)]) auto
  show ?case
  proof (cases "length bs < cap")
    case True
    with IH len show ?thesis unfolding push_all_snoc step by auto
  next
    case False
    then have "Suc (length bs) - cap = Suc (length bs - cap)" by simp
    with False IH len show ?thesis unfolding push_all_snoc step
      using assms(1) by (auto simp: drop_Suc tl_drop)
  qed
qed

lemmas queue_eval = oq_new_def queue_inv_def msg_ok_def qbytes_def msg_bytes_def om_len_def
  FRAME_HEADER_LEN_def encode_header_def to_be_bytes_def front_remaining_def
  enqueue_framed_def enqueue_owned_def overflow_def unstarted_count_def drop_oldest_def
  remove_at_def

section \<open>Properties\<close>

text \<open>
  C3. The copying drain is \<open>take\<close> and \<open>drop\<close> on the bytes the queue still holds: for any
  buffer size it writes exactly the next bytes in order, across message boundaries, leaves
  exactly the rest, and keeps the queue well-formed.
\<close>

theorem drain_into_refines:
  assumes "queue_inv q"
  shows "fst (drain_into n q) = take n (qbytes q)
    \<and> qbytes (snd (drain_into n q)) = drop n (qbytes q) \<and> queue_inv (snd (drain_into n q))"
  using drain_into_spec [OF assms surjective_pairing, of n] by blast

theorem drain_into_refines_witness:
  "let q = oq_new\<lparr>messages := [\<lparr>om_hdr = [0, 0, 0, 0, 2], om_body = [7, 8]\<rparr>,
                               \<lparr>om_hdr = [0, 0, 0, 0, 1], om_body = [9]\<rparr>],
                  front_offset := 3\<rparr>
   in queue_inv q \<and> fst (drain_into 6 q) = [0, 2, 7, 8, 0, 0]
      \<and> qbytes (snd (drain_into 6 q)) = [0, 0, 1, 9]"
proof -
  let ?q = "oq_new\<lparr>messages := [\<lparr>om_hdr = [0, 0, 0, 0, 2], om_body = [7, 8]\<rparr>,
                               \<lparr>om_hdr = [0, 0, 0, 0, 1], om_body = [9]\<rparr>],
                  front_offset := 3\<rparr>"
  have "queue_inv ?q" by (simp add: queue_eval)
  moreover have "qbytes ?q = [0, 2, 7, 8, 0, 0, 0, 0, 1, 9]" by (simp add: queue_eval)
  ultimately show ?thesis using drain_into_refines [of ?q 6] by simp
qed

text \<open>
  C8. The \<open>NO_COPY\<close> path ships the same bytes as the copying path: promising, writing the two
  regions of the front message and consuming yields what \<open>drain_into\<close> yields for as many
  bytes, and leaves a queue that still holds the same bytes.
\<close>

theorem nocopy_equals_copy:
  assumes "queue_inv q" and "n \<le> front_remaining q"
  shows "fst (nocopy_pull n q) = fst (drain_into n q)
    \<and> qbytes (snd (nocopy_pull n q)) = qbytes (snd (drain_into n q))
    \<and> length (fst (nocopy_pull n q)) = n"
proof -
  note d = drain_into_spec [OF assms(1) surjective_pairing, of n]
  note c = nocopy_pull_spec [OF assms(1) surjective_pairing, of n]
  have "n \<le> length (qbytes q)" using assms(2) front_remaining_le [OF assms(1)] by simp
  with assms(2) d c show ?thesis by (simp add: min_absorb1)
qed

theorem nocopy_equals_copy_witness:
  "let q = oq_new\<lparr>messages := [\<lparr>om_hdr = [0, 0, 0, 0, 2], om_body = [7, 8]\<rparr>],
                  front_offset := 3\<rparr>
   in queue_inv q \<and> 3 \<le> front_remaining q \<and> length (fst (nocopy_pull 3 q)) = 3
      \<and> fst (nocopy_pull 3 q) = fst (drain_into 3 q)"
proof -
  let ?q = "oq_new\<lparr>messages := [\<lparr>om_hdr = [0, 0, 0, 0, 2], om_body = [7, 8]\<rparr>],
                  front_offset := 3\<rparr>"
  have "queue_inv ?q" and "3 \<le> front_remaining ?q" by (simp_all add: queue_eval)
  then show ?thesis using nocopy_equals_copy [of ?q 3] unfolding Let_def by blast
qed

text \<open>
  C30. No enqueue, whatever the policy and whether it succeeds, is rejected or runs out of
  memory, touches a message that is partly shipped or promised to a \<open>NO_COPY\<close> frame: it stays
  at the front with its offset and its commitment.
\<close>

theorem in_flight_survives:
  assumes "front_offset q > 0 \<or> front_committed q" and "messages q \<noteq> []"
  shows "let q' = snd (enqueue_framed al body q)
    in messages q' \<noteq> [] \<and> hd (messages q') = hd (messages q)
       \<and> front_offset q' = front_offset q \<and> front_committed q' = front_committed q"
  using assms
  by (cases "messages q")
     (auto simp: enqueue_framed_def enqueue_owned_def drop_oldest_def remove_at_def Let_def)

theorem in_flight_survives_witness:
  "let q = oq_new\<lparr>messages := [\<lparr>om_hdr = [0, 0, 0, 0, 1], om_body = [7]\<rparr>,
                               \<lparr>om_hdr = [0, 0, 0, 0, 1], om_body = [8]\<rparr>],
                  front_committed := True, oq_backpressure := Bounded 1 DropOldest\<rparr>;
       q' = snd (enqueue_framed \<lparr>al_bytes = \<lambda>_. True, al_slot = True\<rparr> [9] q)
   in hd (messages q') = hd (messages q) \<and> map om_body (messages q') = [[7], [9]]"
proof -
  let ?q = "oq_new\<lparr>messages := [\<lparr>om_hdr = [0, 0, 0, 0, 1], om_body = [7]\<rparr>,
                               \<lparr>om_hdr = [0, 0, 0, 0, 1], om_body = [8]\<rparr>],
                  front_committed := True, oq_backpressure := Bounded 1 DropOldest\<rparr>"
  let ?al = "\<lparr>al_bytes = \<lambda>_. True, al_slot = True\<rparr>"
  have "map om_body (messages (snd (enqueue_framed ?al [9] ?q))) = [[7], [9]]" by (simp add: queue_eval)
  then show ?thesis using in_flight_survives [of ?q ?al "[9]"] by (simp add: Let_def)
qed

text \<open>
  What a bounded queue keeps of a burst of messages that nothing drains: with \<open>Reject\<close> the
  first \<open>cap\<close> of them, with \<open>DropOldest\<close> the last \<open>cap\<close>, in order.
\<close>

lemma bounded_burst:
  assumes "0 < cap" and "al_slot al" and "\<forall>b \<in> set bs. length b \<le> 2 ^ 32 - 1"
  shows "map om_body (messages (push_all al bs (oq_new\<lparr>oq_backpressure := Bounded cap pol\<rparr>)))
     = (case pol of Reject \<Rightarrow> take cap bs | DropOldest \<Rightarrow> drop (length bs - cap) bs)"
  using push_all_bounded [OF assms] by (cases pol) simp_all

text \<open>
  A bounded queue never grows past its capacity by an enqueue: the number of messages not
  yet started stays below the capacity, or does not increase if the capacity was lowered under
  the queue at run time.
\<close>

lemma capacity_respected:
  assumes "oq_backpressure q = Bounded cap pol" and "0 < cap"
  shows "unstarted_count (snd (enqueue_framed al body q)) \<le> max cap (unstarted_count q)"
  using assms
  by (cases pol) (auto simp: enqueue_framed_def enqueue_owned_def overflow_def unstarted_count_def
      drop_oldest_def remove_at_def Let_def)

end
