(* ===== verification/Posix.thy ===== *)
theory Posix
  imports Prelude "HOL-Library.Sublist"
begin

text \<open>
  The operating system as the sources see it. A connected socket is a record of what the
  kernel will answer: a list of results for the coming \<open>send\<close>/\<open>sendmsg\<close> calls and one for
  the coming \<open>read\<close>/\<open>recv\<close> calls. An exhausted list answers \<open>EAGAIN\<close>. A successful send
  accepts at most the bytes offered, whatever number the list names, and appends them to
  \<open>net_wire\<close>, the bytes the peer will see.

  \<open>net_emitted\<close> is a history variable: the bytes handed to the transport so far, in the order
  nghttp2 produced them. It is only written, never read, by the modelled code.
\<close>

datatype sysret = SysOk nat | SysErr int

datatype rdret = RdData bytes | RdErr int

record net =
  net_sends :: "sysret list"
  net_reads :: "rdret list"
  net_wire :: bytes
  net_emitted :: bytes

definition EINTR :: int where "EINTR = 4"
definition EAGAIN :: int where "EAGAIN = 11"
definition EWOULDBLOCK :: int where "EWOULDBLOCK = 11"
definition EPIPE :: int where "EPIPE = 32"

definition would_block :: "int \<Rightarrow> bool" where
  "would_block e \<longleftrightarrow> e = EAGAIN \<or> e = EWOULDBLOCK"

text \<open>One \<open>send\<close> of \<open>data\<close>: the kernel's answer and the socket afterwards.\<close>

definition sys_send :: "bytes \<Rightarrow> net \<Rightarrow> (int + nat) \<times> net" where
  "sys_send data w =
     (case net_sends w of
        [] \<Rightarrow> (Inl EAGAIN, w)
      | SysErr e # rs \<Rightarrow> (Inl e, w\<lparr>net_sends := rs\<rparr>)
      | SysOk k # rs \<Rightarrow>
          let n = min k (length data)
          in (Inr n, w\<lparr>net_sends := rs, net_wire := net_wire w @ take n data\<rparr>))"

text \<open>One \<open>read\<close> into a buffer of \<open>cap\<close> bytes; an empty result is end of file.\<close>

definition sys_read :: "nat \<Rightarrow> net \<Rightarrow> (int + bytes) \<times> net" where
  "sys_read cap w =
     (case net_reads w of
        [] \<Rightarrow> (Inl EAGAIN, w)
      | RdErr e # rs \<Rightarrow> (Inl e, w\<lparr>net_reads := rs\<rparr>)
      | RdData bs # rs \<Rightarrow> (Inr (take cap bs), w\<lparr>net_reads := rs\<rparr>))"

lemma sys_send_Inr:
  assumes "sys_send data w = (Inr n, w')"
  shows "n \<le> length data" and "net_wire w' = net_wire w @ take n data"
    and "length (net_sends w') < length (net_sends w)"
    and "net_reads w' = net_reads w" and "net_emitted w' = net_emitted w"
  using assms by (auto simp: sys_send_def Let_def split: list.splits sysret.splits)

lemma sys_send_Inl:
  assumes "sys_send data w = (Inl e, w')"
  shows "net_wire w' = net_wire w" and "length (net_sends w') \<le> length (net_sends w)"
    and "net_reads w' = net_reads w" and "net_emitted w' = net_emitted w"
    and "e \<noteq> EAGAIN \<Longrightarrow> length (net_sends w') < length (net_sends w)"
  using assms by (auto simp: sys_send_def Let_def split: list.splits sysret.splits)

lemma sys_read_reads:
  assumes "sys_read cap w = (r, w')"
  shows "net_wire w' = net_wire w" and "net_emitted w' = net_emitted w"
    and "net_sends w' = net_sends w"
    and "r \<noteq> Inl EAGAIN \<Longrightarrow> length (net_reads w') < length (net_reads w)"
    and "\<And>bs. r = Inr bs \<Longrightarrow> length bs \<le> cap"
  using assms by (auto simp: sys_read_def split: list.splits rdret.splits)

section \<open>Writing until the socket is full\<close>

text \<open>
  The loop that three places of the sources share in shape (\<open>write_some\<close> in \<open>uds.rs\<close>,
  \<open>write_all\<close> in the clients, the \<open>sendmsg\<close> retry in \<open>callbacks.rs\<close>) repeats \<open>send\<close> on the
  rest. It ends because every round but the last consumes an answer of the kernel.
\<close>

function send_rest ::
    "(int \<Rightarrow> bool) \<Rightarrow> (int \<Rightarrow> bool) \<Rightarrow> bytes \<Rightarrow> nat \<Rightarrow> net \<Rightarrow> (int + nat) \<times> net" where
  "send_rest retry stop data written w =
     (if written < length data
      then case sys_send (drop written data) w of
             (Inl e, w1) \<Rightarrow>
               if stop e then (Inr written, w1)
               else if retry e \<and> e \<noteq> EAGAIN then send_rest retry stop data written w1
               else (Inl e, w1)
           | (Inr n, w1) \<Rightarrow> send_rest retry stop data (written + n) w1
      else (Inr written, w))"
  by pat_completeness auto
termination
  by (relation "measure (\<lambda>(_, _, _, _, w). length (net_sends w))")
     (auto dest: sys_send_Inl(5) [OF sym] sys_send_Inr(3) [OF sym])

declare send_rest.simps [simp del]

text \<open>\<open>sent data k w w'\<close>: between \<open>w\<close> and \<open>w'\<close> exactly the first \<open>k\<close> bytes of \<open>data\<close> went out.\<close>

definition sent :: "bytes \<Rightarrow> nat \<Rightarrow> net \<Rightarrow> net \<Rightarrow> bool" where
  "sent data k w w' \<longleftrightarrow> k \<le> length data \<and> net_wire w' = net_wire w @ take k data
     \<and> net_reads w' = net_reads w \<and> net_emitted w' = net_emitted w
     \<and> length (net_sends w') \<le> length (net_sends w)
     \<and> (0 < k \<longrightarrow> length (net_sends w') < length (net_sends w))"

lemma sent_refl: "sent data 0 w w"
  by (simp add: sent_def)

lemma sent_Inl: "sys_send data w = (Inl e, w') \<Longrightarrow> sent data 0 w w'"
  by (simp add: sent_def sys_send_Inl)

lemma sent_Inr: "sys_send data w = (Inr n, w') \<Longrightarrow> sent data n w w'"
  using sys_send_Inr [of data w n w'] by (simp add: sent_def)

lemma sent_trans:
  assumes "sent data k w w1" and "sent (drop k data) l w1 w2"
  shows "sent data (k + l) w w2"
  using assms take_take_drop [of k data l] by (auto simp: sent_def)

lemma send_rest_sent:
  assumes "send_rest retry stop data written w = (r, w')" and "written \<le> length data"
  shows "\<exists>k. sent (drop written data) k w w' \<and> (\<forall>n. r = Inr n \<longrightarrow> n = written + k)"
  using assms
proof (induction retry stop data written w arbitrary: r w' rule: send_rest.induct)
  case (1 retry stop data written w)
  note unf = send_rest.simps [of retry stop data written w]
  show ?case
  proof (cases "written < length data")
    case False
    with "1.prems" have "w' = w" and "r = Inr written" by (simp_all add: unf)
    then show ?thesis using sent_refl by fastforce
  next
    case True
    obtain a w1 where s: "sys_send (drop written data) w = (a, w1)" by fastforce
    show ?thesis
    proof (cases a)
      case (Inl e)
      note s1 = sent_Inl [OF s [unfolded Inl]]
      show ?thesis
      proof (cases "\<not> stop e \<and> retry e \<and> e \<noteq> EAGAIN")
        case False
        then have "w' = w1" and "\<forall>n. r = Inr n \<longrightarrow> n = written"
          using "1.prems"(1) True s Inl by (auto simp: unf split: if_splits)
        then show ?thesis using s1 by fastforce
      next
        case True2: True
        then have "send_rest retry stop data written w1 = (r, w')"
          using "1.prems"(1) True s Inl by (simp add: unf)
        from "1.IH"(1) [OF True s [symmetric] Inl _ _ this "1.prems"(2)] True2
        obtain k where "sent (drop written data) k w1 w'" "\<forall>n. r = Inr n \<longrightarrow> n = written + k"
          by auto
        then show ?thesis using sent_trans [OF s1, of k w'] by (intro exI [of _ k]) simp
      qed
    next
      case (Inr n)
      note s1 = sent_Inr [OF s [unfolded Inr]]
      have rec: "send_rest retry stop data (written + n) w1 = (r, w')"
        using "1.prems"(1) True s Inr by (simp add: unf)
      have le: "written + n \<le> length data" using s1 True by (auto simp: sent_def)
      from "1.IH"(2) [OF True s [symmetric] Inr rec le]
      obtain k where "sent (drop (written + n) data) k w1 w'"
        "\<forall>m. r = Inr m \<longrightarrow> m = written + n + k" by blast
      then show ?thesis using sent_trans [OF s1, of k w']
        by (intro exI [of _ "n + k"]) (simp add: add.commute add.left_commute)
    qed
  qed
qed

end
