(* ===== verification/Conn_State.thy ===== *)
theory Conn_State
  imports Out_Queue Posix
begin

text \<open>
  \<open>rust/grpcuds-core/src/conn/state.rs\<close> and \<open>session.rs\<close>: the stream contexts and the
  connection, the operations a handler calls on it, deadlines and cancel hooks, and the
  pending tail of the transport.

  libnghttp2 is not part of the sources. Its session is a value of a type parameter \<open>'n\<close>; the
  functions the code calls are the fields of the record \<open>'n ng_ops\<close>. The two calls that run
  callbacks answer with an \<open>'n ng_prog\<close>, a tree of the callbacks nghttp2 makes before it
  returns, each with the continuation on the callback's answer. Nothing is assumed of these
  functions; the theorems that need more name it as a hypothesis.

  Function pointers and \<open>user_data\<close> pointers are numbers. \<open>installed\<close> and \<open>fired\<close> are
  history variables: the cancel hooks set and the cancel hooks invoked so far, in order. Logging calls leave no trace in the state and are
  left out, as is the \<open>wirelog\<close> feature.
\<close>

section \<open>Streams and connections\<close>

datatype stream_state =
  StHeadersIn | StBodyIn | StComplete | StDispatched | StClosed | StCancelled

record cancel_hook =
  ch_callback :: nat
  ch_user_data :: nat

record stream_ctx =
  sc_id :: int
  sc_state :: stream_state
  sc_request :: bytes
  sc_path :: bytes
  sc_out :: out_queue
  sc_status :: grpc_status
  sc_cancel_hook :: "cancel_hook option"
  sc_deadline_ms :: "nat option"

record method_entry =
  me_path :: bytes
  me_handler :: nat
  me_user_data :: nat
  me_backpressure :: "backpressure option"

record 'n conn =
  session :: 'n
  streams :: "stream_ctx list"
  methods :: "method_entry list"
  max_message_len :: u32
  conn_fd :: int
  out_pending :: bytes
  installed :: "cancel_hook list"
  fired :: "cancel_hook list"

text \<open>The clock and the allocator during one call.\<close>

record env =
  env_now :: nat
  env_alloc :: alloc

section \<open>libnghttp2\<close>

record frame_hd =
  fr_type_headers :: bool
  fr_cat_request :: bool
  fr_end_stream :: bool
  fr_stream_id :: int

datatype callback =
    CbBeginHeaders frame_hd
  | CbHeader int bytes bytes
  | CbFrameRecv frame_hd
  | CbDataChunk int bytes
  | CbStreamClose int nat
  | CbDataRead int nat
  | CbSendData int bytes nat nat

record data_flags =
  df_no_copy :: bool
  df_eof :: bool
  df_no_end_stream :: bool

datatype cb_ret = CbRc int | CbRead int bytes data_flags

datatype 'n ng_prog =
    NgRet 'n int bytes
  | NgCall callback env 'n "'n \<Rightarrow> cb_ret \<Rightarrow> 'n ng_prog"

record 'n ng_ops =
  ng_resume_data :: "'n \<Rightarrow> int \<Rightarrow> 'n"
  ng_submit_response :: "'n \<Rightarrow> int \<Rightarrow> nv list \<Rightarrow> 'n \<times> int"
  ng_submit_trailer :: "'n \<Rightarrow> int \<Rightarrow> nv list \<Rightarrow> 'n \<times> int"
  ng_submit_settings :: "'n \<Rightarrow> 'n \<times> int"
  ng_mem_recv :: "'n \<Rightarrow> bytes \<Rightarrow> 'n ng_prog"
  ng_mem_send :: "'n \<Rightarrow> 'n ng_prog"
  ng_want_read :: "'n \<Rightarrow> bool"
  ng_want_write :: "'n \<Rightarrow> bool"

definition ERR_WOULDBLOCK :: int where "ERR_WOULDBLOCK = - 504"
definition ERR_DEFERRED :: int where "ERR_DEFERRED = - 508"
definition ERR_TEMPORAL_CALLBACK_FAILURE :: int where "ERR_TEMPORAL_CALLBACK_FAILURE = - 521"
definition ERR_PAUSE :: int where "ERR_PAUSE = - 526"
definition ERR_CALLBACK_FAILURE :: int where "ERR_CALLBACK_FAILURE = - 902"

section \<open>Construction and registration\<close>

text \<open>
  The constructors of \<open>session.rs\<close>: what the nghttp2 allocation functions answer is an error
  code and a pointer, which may be null.
\<close>

definition callbacks_new :: "int \<times> 'a option \<Rightarrow> session_error + 'a" where
  "callbacks_new r =
     (case r of (rc, p) \<Rightarrow>
        if rc \<noteq> 0 then Inl SessionAlloc
        else case p of None \<Rightarrow> Inl SessionAlloc | Some ptr \<Rightarrow> Inr ptr)"

definition session_new_server ::
    "int \<times> 'o option \<Rightarrow> int \<times> 'n option \<Rightarrow> session_error + 'n" where
  "session_new_server opt sess =
     (case opt of (rc, p) \<Rightarrow>
        if rc \<noteq> 0 \<or> p = None then Inl SessionAlloc
        else case sess of (rc, p) \<Rightarrow>
          if rc \<noteq> 0 then Inl SessionAlloc
          else case p of None \<Rightarrow> Inl SessionAlloc | Some ptr \<Rightarrow> Inr ptr)"

definition session_new_client :: "int \<times> 'n option \<Rightarrow> session_error + 'n" where
  "session_new_client sess =
     (case sess of (rc, p) \<Rightarrow>
        if rc \<noteq> 0 then Inl SessionAlloc
        else case p of None \<Rightarrow> Inl SessionAlloc | Some ptr \<Rightarrow> Inr ptr)"

definition submit_initial_settings ::
    "'n ng_ops \<Rightarrow> 'n conn \<Rightarrow> (conn_error + unit) \<times> 'n conn" where
  "submit_initial_settings ops c =
     (let (n, rc) = ng_submit_settings ops (session c); c = c\<lparr>session := n\<rparr>
      in if rc \<noteq> 0 then (Inl (Nghttp2 rc), c) else (Inr (), c))"

definition new_server ::
    "'n ng_ops \<Rightarrow> int \<times> unit option \<Rightarrow> int \<times> unit option \<Rightarrow> int \<times> 'n option
       \<Rightarrow> conn_error + 'n conn" where
  "new_server ops cbs opt sess =
     (case callbacks_new cbs of
        Inl e \<Rightarrow> Inl (Session e)
      | Inr _ \<Rightarrow>
          (case session_new_server opt sess of
             Inl e \<Rightarrow> Inl (Session e)
           | Inr n \<Rightarrow>
               let c = \<lparr>session = n, streams = [], methods = [],
                        max_message_len = DEFAULT_MAX_MESSAGE_LEN, conn_fd = - 1,
                        out_pending = [], installed = [], fired = []\<rparr>
               in (case submit_initial_settings ops c of
                     (Inl e, _) \<Rightarrow> Inl e
                   | (Inr _, c) \<Rightarrow> Inr c)))"

definition register_method_inner ::
    "alloc \<Rightarrow> bytes \<Rightarrow> nat \<Rightarrow> nat \<Rightarrow> backpressure option \<Rightarrow> 'n conn
       \<Rightarrow> (conn_error + unit) \<times> 'n conn" where
  "register_method_inner al path handler user_data bp c =
     (if \<not> al_bytes al (length path) then (Inl OutOfMemory, c)
      else if \<not> al_slot al then (Inl OutOfMemory, c)
      else (Inr (), c\<lparr>methods := methods c @
              [\<lparr>me_path = path, me_handler = handler, me_user_data = user_data,
                me_backpressure = bp\<rparr>]\<rparr>))"

definition register_method ::
    "alloc \<Rightarrow> bytes \<Rightarrow> nat \<Rightarrow> nat \<Rightarrow> 'n conn \<Rightarrow> (conn_error + unit) \<times> 'n conn" where
  "register_method al path handler user_data c =
     register_method_inner al path handler user_data None c"

definition register_streaming_method ::
    "alloc \<Rightarrow> bytes \<Rightarrow> nat \<Rightarrow> nat \<Rightarrow> backpressure \<Rightarrow> 'n conn
       \<Rightarrow> (conn_error + unit) \<times> 'n conn" where
  "register_streaming_method al path handler user_data bp c =
     register_method_inner al path handler user_data (Some bp) c"

section \<open>Calls\<close>

definition find_stream :: "'n conn \<Rightarrow> int \<Rightarrow> stream_ctx option" where
  "find_stream c i = find (\<lambda>s. sc_id s = i) (streams c)"

text \<open>Mutation through the reference \<open>find_stream\<close> returns.\<close>

definition upd_stream :: "int \<Rightarrow> (stream_ctx \<Rightarrow> stream_ctx) \<Rightarrow> 'n conn \<Rightarrow> 'n conn" where
  "upd_stream i f c = c\<lparr>streams := upd_first (\<lambda>s. sc_id s = i) f (streams c)\<rparr>"

definition resume_data :: "'n ng_ops \<Rightarrow> int \<Rightarrow> 'n conn \<Rightarrow> 'n conn" where
  "resume_data ops i c = c\<lparr>session := ng_resume_data ops (session c) i\<rparr>"

definition write_call_with ::
    "'n ng_ops \<Rightarrow> int \<Rightarrow> (out_queue \<Rightarrow> (conn_error + unit) \<times> out_queue) \<Rightarrow> 'n conn
       \<Rightarrow> (conn_error + unit) \<times> 'n conn" where
  "write_call_with ops call_id enqueue c =
     (case find_stream c call_id of
        None \<Rightarrow> (Inl StreamNotFound, c)
      | Some s \<Rightarrow>
          if finished (sc_out s) then (Inl StreamFinished, c)
          else
            let (r, q) = enqueue (sc_out s);
                c = upd_stream call_id (\<lambda>s. s\<lparr>sc_out := q\<rparr>) c
            in (case r of
                  Inl e \<Rightarrow> (Inl e, c)
                | Inr _ \<Rightarrow>
                    let response_started' = response_started q;
                        needs_resume = (sc_state s = StDispatched \<and> response_started')
                    in (Inr (), if needs_resume \<and> response_started'
                                then resume_data ops call_id c else c)))"

definition write_call ::
    "'n ng_ops \<Rightarrow> alloc \<Rightarrow> int \<Rightarrow> bytes \<Rightarrow> 'n conn \<Rightarrow> (conn_error + unit) \<times> 'n conn" where
  "write_call ops al call_id payload c =
     write_call_with ops call_id (enqueue_framed al payload) c"

definition write_call_owned ::
    "'n ng_ops \<Rightarrow> alloc \<Rightarrow> int \<Rightarrow> bytes \<Rightarrow> 'n conn \<Rightarrow> (conn_error + unit) \<times> 'n conn" where
  "write_call_owned ops al call_id payload c =
     write_call_with ops call_id (enqueue_owned al payload) c"

text \<open>What the first \<open>finish\<close> of a call leaves on its queue.\<close>

definition finish_queue :: "grpc_status \<Rightarrow> bytes option \<Rightarrow> out_queue \<Rightarrow> out_queue" where
  "finish_queue status msg q =
     (if \<not> finished q
      then let q = q\<lparr>finished := True, final_status := status\<rparr>
           in (case msg of
                 None \<Rightarrow> q
               | Some m \<Rightarrow>
                   if m \<noteq> [] then q\<lparr>final_message := Some (percent_encode_message m [])\<rparr>
                   else q)
      else q)"

definition finish_call_inner ::
    "'n ng_ops \<Rightarrow> int \<Rightarrow> grpc_status \<Rightarrow> bytes option \<Rightarrow> 'n conn
       \<Rightarrow> (conn_error + unit) \<times> 'n conn" where
  "finish_call_inner ops call_id status msg c =
     (case find_stream c call_id of
        None \<Rightarrow> (Inl StreamNotFound, c)
      | Some s \<Rightarrow>
          let c = upd_stream call_id (\<lambda>s. s\<lparr>sc_out := finish_queue status msg (sc_out s)\<rparr>) c;
              response_started' = response_started (finish_queue status msg (sc_out s));
              needs_resume = (sc_state s = StDispatched \<and> response_started')
          in (Inr (), if needs_resume \<and> response_started'
                      then resume_data ops call_id c else c))"

definition finish_call ::
    "'n ng_ops \<Rightarrow> int \<Rightarrow> grpc_status \<Rightarrow> 'n conn \<Rightarrow> (conn_error + unit) \<times> 'n conn" where
  "finish_call ops call_id status c = finish_call_inner ops call_id status None c"

definition finish_call_msg ::
    "'n ng_ops \<Rightarrow> int \<Rightarrow> grpc_status \<Rightarrow> bytes \<Rightarrow> 'n conn \<Rightarrow> (conn_error + unit) \<times> 'n conn"
  where
  "finish_call_msg ops call_id status msg c = finish_call_inner ops call_id status (Some msg) c"

section \<open>Deadlines\<close>

text \<open>A stream whose deadline has passed and that \<open>expire_deadlines\<close> acts on.\<close>

definition expired_stream :: "nat \<Rightarrow> stream_ctx \<Rightarrow> bool" where
  "expired_stream now s \<longleftrightarrow> sc_state s = StDispatched \<and> \<not> finished (sc_out s)
     \<and> (case sc_deadline_ms s of None \<Rightarrow> False | Some d \<Rightarrow> d \<le> now)"

text \<open>
  The scan over the streams: \<open>n\<close> counts the slots of the eight-element array in use. The
  result is the streams, the ids put into the array and the hooks called.
\<close>

fun expire_scan ::
    "nat \<Rightarrow> nat \<Rightarrow> stream_ctx list \<Rightarrow> stream_ctx list \<times> int list \<times> cancel_hook list" where
  "expire_scan now n [] = ([], [], [])"
| "expire_scan now n (s # ss) =
     (if n = 8 then (s # ss, [], [])
      else if expired_stream now s
      then let (ss', ids, hooks) = expire_scan now (n + 1) ss;
               called = (case sc_cancel_hook s of None \<Rightarrow> [] | Some h \<Rightarrow> [h])
           in (s\<lparr>sc_deadline_ms := None, sc_cancel_hook := None\<rparr> # ss', sc_id s # ids,
               called @ hooks)
      else let (ss', ids, hooks) = expire_scan now n ss in (s # ss', ids, hooks))"

definition expire_deadlines :: "'n ng_ops \<Rightarrow> nat \<Rightarrow> 'n conn \<Rightarrow> 'n conn" where
  "expire_deadlines ops now c =
     (let (ss, ids, hooks) = expire_scan now 0 (streams c);
          c = c\<lparr>streams := ss, fired := fired c @ hooks\<rparr>
      in fold (\<lambda>i c. snd (finish_call_msg ops i DeadlineExceeded (ascii ''deadline exceeded'') c))
           ids c)"

definition call_time_remaining_ms :: "nat \<Rightarrow> int \<Rightarrow> 'n conn \<Rightarrow> conn_error + nat option" where
  "call_time_remaining_ms now call_id c =
     (case find_stream c call_id of
        None \<Rightarrow> Inl StreamNotFound
      | Some s \<Rightarrow> Inr (map_option (\<lambda>d. d - now) (sc_deadline_ms s)))"

definition armed_deadlines :: "'n conn \<Rightarrow> nat list" where
  "armed_deadlines c =
     List.map_filter sc_deadline_ms
       (filter (\<lambda>s. sc_state s = StDispatched \<and> \<not> finished (sc_out s)) (streams c))"

definition next_deadline_ms :: "nat \<Rightarrow> 'n conn \<Rightarrow> nat option" where
  "next_deadline_ms now c =
     (case armed_deadlines c of
        [] \<Rightarrow> None
      | d # ds \<Rightarrow> Some (fold min ds d - now))"

section \<open>Per-call settings\<close>

definition set_cancel_hook ::
    "int \<Rightarrow> nat \<Rightarrow> nat \<Rightarrow> 'n conn \<Rightarrow> (conn_error + unit) \<times> 'n conn" where
  "set_cancel_hook call_id callback user_data c =
     (case find_stream c call_id of
        None \<Rightarrow> (Inl StreamNotFound, c)
      | Some _ \<Rightarrow>
          let h = \<lparr>ch_callback = callback, ch_user_data = user_data\<rparr>
          in (Inr (), upd_stream call_id (\<lambda>s. s\<lparr>sc_cancel_hook := Some h\<rparr>)
                        (c\<lparr>installed := installed c @ [h]\<rparr>)))"

definition set_stream_policy ::
    "int \<Rightarrow> backpressure \<Rightarrow> 'n conn \<Rightarrow> (conn_error + unit) \<times> 'n conn" where
  "set_stream_policy call_id bp c =
     (case find_stream c call_id of
        None \<Rightarrow> (Inl StreamNotFound, c)
      | Some _ \<Rightarrow>
          (Inr (), upd_stream call_id
             (\<lambda>s. s\<lparr>sc_out := (sc_out s)\<lparr>oq_backpressure := bp\<rparr>\<rparr>) c))"

definition submit_response_for ::
    "'n ng_ops \<Rightarrow> int \<Rightarrow> 'n conn \<Rightarrow> (conn_error + unit) \<times> 'n conn" where
  "submit_response_for ops call_id c =
     (let (n, rc) = ng_submit_response ops (session c) call_id response_headers;
          c = c\<lparr>session := n\<rparr>
      in if rc \<noteq> 0 then (Inl (Nghttp2 rc), c)
         else (Inr (), upd_stream call_id
                 (\<lambda>s. s\<lparr>sc_out := (sc_out s)\<lparr>response_started := True\<rparr>\<rparr>) c))"

section \<open>The pending tail\<close>

definition set_fd :: "int \<Rightarrow> 'n conn \<Rightarrow> 'n conn" where
  "set_fd fd c = c\<lparr>conn_fd := fd\<rparr>"

definition has_pending :: "'n conn \<Rightarrow> bool" where
  "has_pending c \<longleftrightarrow> out_pending c \<noteq> []"

definition pending_bytes :: "'n conn \<Rightarrow> bytes" where
  "pending_bytes c = out_pending c"

definition consume_pending :: "nat \<Rightarrow> 'n conn \<Rightarrow> 'n conn" where
  "consume_pending n c =
     (if n \<ge> length (out_pending c) then c\<lparr>out_pending := []\<rparr>
      else c\<lparr>out_pending := drop n (out_pending c)\<rparr>)"

definition stash_pending :: "alloc \<Rightarrow> bytes \<Rightarrow> 'n conn \<Rightarrow> (conn_error + unit) \<times> 'n conn" where
  "stash_pending al bs c =
     (if \<not> al_bytes al (length bs) then (Inl OutOfMemory, c)
      else (Inr (), c\<lparr>out_pending := out_pending c @ bs\<rparr>))"

definition conn_wants_read :: "'n ng_ops \<Rightarrow> 'n conn \<Rightarrow> bool" where
  "conn_wants_read ops c \<longleftrightarrow> ng_want_read ops (session c)"

definition conn_wants_write :: "'n ng_ops \<Rightarrow> 'n conn \<Rightarrow> bool" where
  "conn_wants_write ops c \<longleftrightarrow> ng_want_write ops (session c)"

section \<open>Invariants\<close>

definition message_inv :: "out_queue \<Rightarrow> bool" where
  "message_inv q \<longleftrightarrow>
     (case final_message q of
        None \<Rightarrow> True
      | Some m \<Rightarrow> finished q \<and> m \<noteq> [] \<and> list_all printable m)"

definition stream_inv :: "u32 \<Rightarrow> stream_ctx \<Rightarrow> bool" where
  "stream_inv max_len s \<longleftrightarrow> queue_inv (sc_out s) \<and> message_inv (sc_out s)
     \<and> length (sc_request s) \<le> unat max_len"

text \<open>The cancel hooks that can still fire.\<close>

definition held :: "stream_ctx list \<Rightarrow> cancel_hook multiset" where
  "held ss = mset (List.map_filter sc_cancel_hook ss)"

definition hook_inv :: "'n conn \<Rightarrow> bool" where
  "hook_inv c \<longleftrightarrow> mset (fired c) + held (streams c) \<subseteq># mset (installed c)"

definition conn_inv :: "'n conn \<Rightarrow> bool" where
  "conn_inv c \<longleftrightarrow> list_all (stream_inv (max_message_len c)) (streams c) \<and> hook_inv c"

section \<open>What the operations of a handler can do\<close>

text \<open>
  \<open>queue_step\<close> and \<open>stream_step\<close> bound the effect of every operation a handler has on a call:
  well-formedness is kept, what is already shipped or promised stays, and a finished queue is
  frozen. \<open>conn_step\<close> lifts this to the streams of a connection.
\<close>

definition queue_step :: "out_queue \<Rightarrow> out_queue \<Rightarrow> bool" where
  "queue_step q q' \<longleftrightarrow> (queue_inv q \<longrightarrow> queue_inv q') \<and> (message_inv q \<longrightarrow> message_inv q')
     \<and> front_offset q' = front_offset q \<and> front_committed q' = front_committed q
     \<and> response_started q' = response_started q
     \<and> (finished q \<longrightarrow> finished q' \<and> final_status q' = final_status q
          \<and> final_message q' = final_message q \<and> messages q' = messages q)"

definition stream_step :: "stream_ctx \<Rightarrow> stream_ctx \<Rightarrow> bool" where
  "stream_step s s' \<longleftrightarrow> sc_id s' = sc_id s \<and> sc_state s' = sc_state s
     \<and> sc_request s' = sc_request s \<and> sc_path s' = sc_path s
     \<and> sc_status s' = sc_status s \<and> sc_deadline_ms s' = sc_deadline_ms s
     \<and> queue_step (sc_out s) (sc_out s')"

definition conn_step :: "'n conn \<Rightarrow> 'n conn \<Rightarrow> bool" where
  "conn_step c c' \<longleftrightarrow> list_all2 stream_step (streams c) (streams c')
     \<and> methods c' = methods c \<and> max_message_len c' = max_message_len c
     \<and> conn_fd c' = conn_fd c \<and> out_pending c' = out_pending c \<and> fired c' = fired c
     \<and> (hook_inv c \<longrightarrow> hook_inv c')"

lemma queue_step_refl [simp]: "queue_step q q"
  by (simp add: queue_step_def)

lemma queue_step_trans: "queue_step q1 q2 \<Longrightarrow> queue_step q2 q3 \<Longrightarrow> queue_step q1 q3"
  by (auto simp: queue_step_def)

lemma stream_step_refl [simp]: "stream_step s s"
  by (simp add: stream_step_def)

lemma stream_step_trans: "stream_step s1 s2 \<Longrightarrow> stream_step s2 s3 \<Longrightarrow> stream_step s1 s3"
  by (auto simp: stream_step_def intro: queue_step_trans)

lemma conn_step_refl [simp]: "conn_step c c"
  by (simp add: conn_step_def list.rel_refl)

lemma conn_step_trans: "conn_step c1 c2 \<Longrightarrow> conn_step c2 c3 \<Longrightarrow> conn_step c1 c3"
  unfolding conn_step_def
  by (auto intro: list_all2_trans [of stream_step stream_step stream_step, OF stream_step_trans])

lemma conn_step_inv:
  assumes "conn_step c c'" and "conn_inv c"
  shows "conn_inv c'"
proof -
  have "list_all2 stream_step (streams c) (streams c')"
    and "list_all (stream_inv (max_message_len c)) (streams c)"
    using assms by (auto simp: conn_step_def conn_inv_def)
  then have "list_all (stream_inv (max_message_len c)) (streams c')"
    by (induction rule: list_all2_induct)
       (auto simp: stream_inv_def stream_step_def queue_step_def)
  then show ?thesis using assms by (auto simp: conn_inv_def conn_step_def)
qed

lemma held_simps [simp]:
  "held [] = {#}"
  "held (s # ss) = (case sc_cancel_hook s of None \<Rightarrow> {#} | Some h \<Rightarrow> {#h#}) + held ss"
  "held (ss @ ts) = held ss + held ts"
  by (auto simp: held_def List.map_filter_def split: option.splits)

lemma held_upd_first:
  assumes "\<And>s. p s \<Longrightarrow> sc_cancel_hook (f s) = sc_cancel_hook s"
  shows "held (upd_first p f ss) = held ss"
  using assms by (induction ss) auto

lemma upd_stream_fields [simp]:
  "session (upd_stream i f c) = session c" "methods (upd_stream i f c) = methods c"
  "max_message_len (upd_stream i f c) = max_message_len c"
  "conn_fd (upd_stream i f c) = conn_fd c" "out_pending (upd_stream i f c) = out_pending c"
  "installed (upd_stream i f c) = installed c" "fired (upd_stream i f c) = fired c"
  by (simp_all add: upd_stream_def)

lemma conn_step_upd_stream:
  assumes "\<And>s. find_stream c i = Some s \<Longrightarrow> stream_step s (f s)"
    and "\<And>s. sc_cancel_hook (f s) = sc_cancel_hook s"
  shows "conn_step c (upd_stream i f c)"
proof -
  have "list_all2 stream_step (streams c) (upd_first (\<lambda>s. sc_id s = i) f (streams c))"
    using assms(1) by (intro list_all2_upd_first) (auto simp: find_stream_def)
  moreover have "held (upd_first (\<lambda>s. sc_id s = i) f (streams c)) = held (streams c)"
    using assms(2) by (intro held_upd_first)
  ultimately show ?thesis by (simp add: conn_step_def upd_stream_def hook_inv_def)
qed

lemma conn_step_resume: "conn_step c (resume_data ops i c)"
  by (simp add: conn_step_def resume_data_def list.rel_refl hook_inv_def)

lemma enqueue_queue_step:
  assumes "\<not> finished q"
  shows "queue_step q (snd (enqueue_owned al body q))"
    and "queue_step q (snd (enqueue_framed al body q))"
  using assms enqueue_owned_inv [of q al body] enqueue_framed_inv [of q al body]
  by (auto simp: queue_step_def message_inv_def queue_simps split: option.splits)

lemma finish_queue_step: "queue_step q (finish_queue status msg q)"
proof -
  have "message_inv q \<Longrightarrow> message_inv (finish_queue status msg q)"
    using percent_encode_neq_Nil percent_encode_all_printable
    by (auto simp: message_inv_def finish_queue_def Let_def split: option.splits)
  moreover have "messages (finish_queue status msg q) = messages q"
    and "front_offset (finish_queue status msg q) = front_offset q"
    by (auto simp: finish_queue_def Let_def split: option.splits)
  ultimately show ?thesis
    by (auto simp: queue_step_def queue_inv_def finish_queue_def Let_def split: option.splits)
qed

lemma write_call_with_step:
  assumes "\<And>q. \<not> finished q \<Longrightarrow> queue_step q (snd (enq q))"
  shows "conn_step c (snd (write_call_with ops i enq c))"
proof (cases "find_stream c i")
  case None
  then show ?thesis by (simp add: write_call_with_def)
next
  case (Some s)
  show ?thesis
  proof (cases "finished (sc_out s)")
    case True
    with Some show ?thesis by (simp add: write_call_with_def)
  next
    case False
    obtain r q where e: "enq (sc_out s) = (r, q)" by fastforce
    then have "queue_step (sc_out s) q" using assms [OF False] by simp
    then have st: "conn_step c (upd_stream i (\<lambda>s. s\<lparr>sc_out := q\<rparr>) c)"
      using Some by (intro conn_step_upd_stream) (auto simp: stream_step_def)
    with conn_step_trans [OF st conn_step_resume] Some False e show ?thesis
      by (auto simp: write_call_with_def Let_def split: sum.splits)
  qed
qed

lemma write_call_step: "conn_step c (snd (write_call ops al i p c))"
  unfolding write_call_def by (rule write_call_with_step) (rule enqueue_queue_step)

lemma write_call_owned_step: "conn_step c (snd (write_call_owned ops al i p c))"
  unfolding write_call_owned_def by (rule write_call_with_step) (rule enqueue_queue_step)

lemma finish_call_inner_step: "conn_step c (snd (finish_call_inner ops i status msg c))"
proof (cases "find_stream c i")
  case None
  then show ?thesis by (simp add: finish_call_inner_def)
next
  case (Some s)
  have st: "conn_step c (upd_stream i (\<lambda>s. s\<lparr>sc_out := finish_queue status msg (sc_out s)\<rparr>) c)"
    by (intro conn_step_upd_stream) (auto simp: stream_step_def finish_queue_step)
  with conn_step_trans [OF st conn_step_resume] Some show ?thesis
    by (auto simp: finish_call_inner_def Let_def)
qed

lemma set_cancel_hook_step: "conn_step c (snd (set_cancel_hook i cb ud c))"
proof (cases "find_stream c i")
  case None
  then show ?thesis by (simp add: set_cancel_hook_def)
next
  case (Some s)
  let ?h = "\<lparr>ch_callback = cb, ch_user_data = ud\<rparr>"
  let ?ss = "upd_first (\<lambda>s. sc_id s = i) (\<lambda>s. s\<lparr>sc_cancel_hook := Some ?h\<rparr>) (streams c)"
  have "held (upd_first p (\<lambda>s. s\<lparr>sc_cancel_hook := Some ?h\<rparr>) ss) \<subseteq># held ss + {#?h#}" for p ss
    by (induction ss) (auto split: option.splits simp: subset_mset.add_increasing)
  then have "mset (fired c) + held ?ss \<subseteq># mset (fired c) + held (streams c) + {#?h#}"
    by (metis add.assoc mset_subset_eq_mono_add_left_cancel)
  then have "hook_inv c \<Longrightarrow> mset (fired c) + held ?ss \<subseteq># mset (installed c) + {#?h#}"
    unfolding hook_inv_def by (meson mset_subset_eq_mono_add_right_cancel subset_mset.order_trans)
  moreover have "list_all2 stream_step (streams c) ?ss"
    by (rule list_all2_upd_first) (auto simp: stream_step_def)
  ultimately show ?thesis
    using Some by (simp add: set_cancel_hook_def conn_step_def upd_stream_def hook_inv_def Let_def)
qed

lemma set_stream_policy_step: "conn_step c (snd (set_stream_policy i bp c))"
  by (auto simp: set_stream_policy_def stream_step_def queue_step_def queue_inv_def
      message_inv_def split: option.splits intro!: conn_step_upd_stream)

lemmas api_steps = write_call_step write_call_owned_step finish_call_inner_step
  set_cancel_hook_step set_stream_policy_step

section \<open>Expiry\<close>

text \<open>The effect of an expiry on one stream, as \<open>expire_deadlines\<close> should leave it.\<close>

definition expire_stream :: "stream_ctx \<Rightarrow> stream_ctx" where
  "expire_stream s =
     s\<lparr>sc_deadline_ms := None, sc_cancel_hook := None,
       sc_out := finish_queue DeadlineExceeded (Some (ascii ''deadline exceeded'')) (sc_out s)\<rparr>"

abbreviation expired_first :: "nat \<Rightarrow> nat \<Rightarrow> stream_ctx list \<Rightarrow> stream_ctx list" where
  "expired_first n now ss \<equiv> take n (filter (expired_stream now) ss)"

lemma expire_scan_spec:
  assumes "n \<le> 8"
  shows "expire_scan now n ss =
    (upd_firstn (8 - n) (expired_stream now)
       (\<lambda>s. s\<lparr>sc_deadline_ms := None, sc_cancel_hook := None\<rparr>) ss,
     map sc_id (expired_first (8 - n) now ss),
     List.map_filter sc_cancel_hook (expired_first (8 - n) now ss))"
  using assms
proof (induction ss arbitrary: n)
  case Nil
  then show ?case by (simp add: List.map_filter_def)
next
  case (Cons s ss)
  show ?case
  proof (cases "n = 8")
    case True
    then show ?thesis by (simp add: List.map_filter_def)
  next
    case False
    with Cons.prems have "8 - n = Suc (8 - Suc n)" by simp
    with False Cons.IH [of n] Cons.IH [of "Suc n"] Cons.prems show ?thesis
      by (auto simp: map_filter_simps split: option.splits)
  qed
qed

lemma held_upd_firstn:
  "mset (List.map_filter sc_cancel_hook (take k (filter p ss)))
     + held (upd_firstn k p (\<lambda>s. s\<lparr>sc_deadline_ms := None, sc_cancel_hook := None\<rparr>) ss)
   = held ss"
proof (induction ss arbitrary: k)
  case (Cons s ss)
  then show ?case
    by (cases k) (auto simp: map_filter_simps held_def split: option.splits)
qed (simp add: List.map_filter_def)

lemma finish_streams:
  "streams (snd (finish_call_inner ops i status msg c)) =
     upd_first (\<lambda>s. sc_id s = i) (\<lambda>s. s\<lparr>sc_out := finish_queue status msg (sc_out s)\<rparr>) (streams c)"
  by (auto simp: finish_call_inner_def find_stream_def Let_def upd_stream_def resume_data_def
      find_None_upd_first split: option.splits)

lemma finish_fired: "fired (snd (finish_call_inner ops i status msg c)) = fired c"
  using finish_call_inner_step [of c ops i status msg] by (simp add: conn_step_def)

lemma fold_finish:
  fixes c :: "'n conn"
  assumes "distinct (map sc_id (streams c))" and "distinct ids"
  shows "let c' = fold (\<lambda>i c. snd (finish_call_inner ops i status msg c)) ids c
    in streams c' = map (\<lambda>s. if sc_id s \<in> set ids
          then s\<lparr>sc_out := finish_queue status msg (sc_out s)\<rparr> else s) (streams c)
       \<and> fired c' = fired c"
  using assms
proof (induction ids arbitrary: c)
  case (Cons i ids)
  let ?f = "\<lambda>s :: stream_ctx. s\<lparr>sc_out := finish_queue status msg (sc_out s)\<rparr>"
  let ?c1 = "snd (finish_call_inner ops i status msg c)"
  have s1: "streams ?c1 = map (\<lambda>s. if sc_id s = i then ?f s else s) (streams c)"
    using Cons.prems(1) by (simp add: finish_streams upd_first_distinct)
  have ids1: "map sc_id (streams ?c1) = map sc_id (streams c)"
    unfolding s1 by (simp add: o_def if_distrib cong: if_cong)
  have "map (\<lambda>s. if sc_id s \<in> set ids then ?f s else s) (streams ?c1)
      = map (\<lambda>s. if sc_id s \<in> set (i # ids) then ?f s else s) (streams c)"
    unfolding s1 using Cons.prems(2) by (auto simp: o_def)
  with Cons.IH [of ?c1] Cons.prems ids1 show ?case
    by (simp add: Let_def finish_fired)
qed simp

lemma expire_deadlines_streams:
  fixes c :: "'n conn"
  assumes "distinct (map sc_id (streams c))"
  shows "streams (expire_deadlines ops now c)
      = upd_firstn 8 (expired_stream now) expire_stream (streams c)"
    and "fired (expire_deadlines ops now c)
      = fired c @ List.map_filter sc_cancel_hook (expired_first 8 now (streams c))"
proof -
  let ?g = "\<lambda>s :: stream_ctx. s\<lparr>sc_deadline_ms := None, sc_cancel_hook := None\<rparr>"
  let ?f = "\<lambda>s :: stream_ctx.
    s\<lparr>sc_out := finish_queue DeadlineExceeded (Some (ascii ''deadline exceeded'')) (sc_out s)\<rparr>"
  let ?ids = "map sc_id (expired_first 8 now (streams c))"
  let ?hooks = "List.map_filter sc_cancel_hook (expired_first 8 now (streams c))"
  let ?ss = "upd_firstn 8 (expired_stream now) ?g (streams c)"
  let ?c = "c\<lparr>streams := ?ss, fired := fired c @ ?hooks\<rparr>"
  have ids: "map sc_id ?ss = map sc_id (streams c)" by (rule map_upd_firstn) simp
  have dist: "distinct ?ids"
    using assms by (simp add: distinct_map_filter distinct_take take_map [symmetric])
  have run: "expire_deadlines ops now c
      = fold (\<lambda>i c. snd (finish_call_inner ops i DeadlineExceeded
                            (Some (ascii ''deadline exceeded'')) c)) ?ids ?c"
    by (simp add: expire_deadlines_def expire_scan_spec finish_call_msg_def)
  have fin: "streams (expire_deadlines ops now c)
        = map (\<lambda>s. if sc_id s \<in> set ?ids then ?f s else s) ?ss"
    and fir: "fired (expire_deadlines ops now c) = fired c @ ?hooks"
    using fold_finish [of ?c ?ids ops DeadlineExceeded "Some (ascii ''deadline exceeded'')"]
      assms ids dist unfolding run by (simp_all add: Let_def)
  show "fired (expire_deadlines ops now c) = fired c @ ?hooks" by (fact fir)
  have "map (\<lambda>s. if sc_id s \<in> set ?ids then ?f s else s) ?ss
      = map (\<lambda>s. if sc_id s \<in> set ?ids then expire_stream s else s) (streams c)"
    unfolding upd_firstn_distinct [OF assms] by (auto simp: expire_stream_def)
  then show "streams (expire_deadlines ops now c)
      = upd_firstn 8 (expired_stream now) expire_stream (streams c)"
    unfolding fin upd_firstn_distinct [OF assms] .
qed

lemma conn_step_fold_finish:
  "conn_step c (fold (\<lambda>i c. snd (finish_call_msg ops i status msg c)) ids c)"
proof (induction ids arbitrary: c)
  case (Cons i ids)
  then show ?case
    using finish_call_inner_step [of c ops i status "Some msg"]
    by (auto simp: finish_call_msg_def intro: conn_step_trans)
qed simp

lemma list_all_upd_firstn:
  assumes "list_all P xs" and "\<And>x. P x \<Longrightarrow> P (f x)"
  shows "list_all P (upd_firstn k p f xs)"
  using assms by (induction k p f xs rule: upd_firstn.induct) auto

lemma expire_deadlines_inv:
  assumes "conn_inv c"
  shows "conn_inv (expire_deadlines ops now c)"
proof -
  let ?g = "\<lambda>s :: stream_ctx. s\<lparr>sc_deadline_ms := None, sc_cancel_hook := None\<rparr>"
  let ?hooks = "List.map_filter sc_cancel_hook (expired_first 8 now (streams c))"
  let ?ss = "upd_firstn 8 (expired_stream now) ?g (streams c)"
  let ?c = "c\<lparr>streams := ?ss, fired := fired c @ ?hooks\<rparr>"
  have "list_all (stream_inv (max_message_len c)) ?ss"
    using assms by (intro list_all_upd_firstn) (auto simp: conn_inv_def stream_inv_def)
  moreover have "mset (fired c @ ?hooks) + held ?ss = mset (fired c) + held (streams c)"
    using held_upd_firstn [of 8 "expired_stream now" "streams c"] by (simp add: add.assoc)
  ultimately have "conn_inv ?c" using assms by (simp add: conn_inv_def hook_inv_def add.assoc)
  moreover have "conn_step ?c (expire_deadlines ops now c)"
    using conn_step_fold_finish by (simp add: expire_deadlines_def expire_scan_spec)
  ultimately show ?thesis using conn_step_inv by blast
qed

lemma expire_stream_not_expired: "\<not> expired_stream now (expire_stream s)"
  by (simp add: expired_stream_def expire_stream_def)

lemma expire_stream_id [simp]: "sc_id (expire_stream s) = sc_id s"
  by (simp add: expire_stream_def)

lemma armed_deadlines_iff:
  "d \<in> set (armed_deadlines c) \<longleftrightarrow>
     (\<exists>s \<in> set (streams c). sc_state s = StDispatched \<and> \<not> finished (sc_out s)
        \<and> sc_deadline_ms s = Some d)"
  by (force simp: armed_deadlines_def List.map_filter_def)

lemma expired_armed:
  "(\<exists>s \<in> set (streams c). expired_stream now s) \<longleftrightarrow> (\<exists>d \<in> set (armed_deadlines c). d \<le> now)"
proof -
  have "expired_stream now s \<longleftrightarrow> sc_state s = StDispatched \<and> \<not> finished (sc_out s)
      \<and> (\<exists>d. sc_deadline_ms s = Some d \<and> d \<le> now)" for s
    by (cases "sc_deadline_ms s") (simp_all add: expired_stream_def)
  then show ?thesis unfolding Bex_def armed_deadlines_iff by blast
qed

lemma next_deadline_Min:
  "next_deadline_ms now c =
     (if armed_deadlines c = [] then None else Some (Min (set (armed_deadlines c)) - now))"
  by (cases "armed_deadlines c")
     (simp_all add: next_deadline_ms_def Min.set_eq_fold [symmetric] del: list.set)

section \<open>The pending tail as a byte source\<close>

definition pending_pull :: "nat \<Rightarrow> 'n conn \<Rightarrow> bytes \<times> 'n conn" where
  "pending_pull n c = (take n (pending_bytes c), consume_pending n c)"

lemma consume_pending_pending: "out_pending (consume_pending n c) = drop n (out_pending c)"
  by (simp add: consume_pending_def)

interpretation pending: live_byte_source out_pending pending_pull "\<lambda>_. True"
  by standard (auto simp: pending_pull_def pending_bytes_def consume_pending_pending)

section \<open>Effects on the stream found\<close>

lemma find_upd_stream:
  assumes "find_stream c i = Some s" and "sc_id (f s) = sc_id s"
  shows "find_stream (upd_stream i f c) i = Some (f s)"
  using assms find_Some_mem [of "\<lambda>s. sc_id s = i" "streams c" s]
    find_upd_first_same [of "\<lambda>s. sc_id s = i" "streams c" s f]
  by (simp add: find_stream_def upd_stream_def)

lemma find_stream_resume [simp]: "find_stream (resume_data ops i c) j = find_stream c j"
  by (simp add: find_stream_def resume_data_def)

lemma finish_call_found:
  assumes "find_stream c i = Some s"
  shows "find_stream (snd (finish_call_msg ops i st m c)) i
      = Some (s\<lparr>sc_out := finish_queue st (Some m) (sc_out s)\<rparr>)"
    and "find_stream (snd (finish_call ops i st c)) i
      = Some (s\<lparr>sc_out := finish_queue st None (sc_out s)\<rparr>)"
  using assms find_upd_stream [OF assms, of "\<lambda>s. s\<lparr>sc_out := finish_queue st (Some m) (sc_out s)\<rparr>"]
    find_upd_stream [OF assms, of "\<lambda>s. s\<lparr>sc_out := finish_queue st None (sc_out s)\<rparr>"]
  by (simp_all add: finish_call_msg_def finish_call_def finish_call_inner_def Let_def)

lemma write_found:
  assumes "find_stream c i = Some s" and "\<not> finished (sc_out s)"
    and "oq_backpressure (sc_out s) = Unbounded" and "length m < 2 ^ 32"
  shows "find_stream (snd (write_call ops al_all i m c)) i
      = Some (s\<lparr>sc_out := (sc_out s)\<lparr>messages := messages (sc_out s)
          @ [\<lparr>om_hdr = encode_header False (of_nat (length m)), om_body = m\<rparr>]\<rparr>\<rparr>)"
    and "find_stream (snd (write_call_owned ops al_all i m c)) i
      = Some (s\<lparr>sc_out := (sc_out s)\<lparr>messages := messages (sc_out s)
          @ [\<lparr>om_hdr = encode_header False (of_nat (length m)), om_body = m\<rparr>]\<rparr>\<rparr>)"
    and "fst (write_call_owned ops al_all i m c) = Inr ()"
proof -
  let ?q = "(sc_out s)\<lparr>messages := messages (sc_out s)
         @ [\<lparr>om_hdr = encode_header False (of_nat (length m)), om_body = m\<rparr>]\<rparr>"
  have o: "enqueue_owned al_all m (sc_out s) = (Inr (), ?q)"
    using assms(3,4) by (simp add: enqueue_owned_def overflow_def al_all_def Let_def)
  then have f: "enqueue_framed al_all m (sc_out s) = (Inr (), ?q)"
    by (simp add: enqueue_framed_def al_all_def)
  note u = find_upd_stream [OF assms(1), of "\<lambda>s. s\<lparr>sc_out := ?q\<rparr>"]
  show "find_stream (snd (write_call ops al_all i m c)) i = Some (s\<lparr>sc_out := ?q\<rparr>)"
    using assms(1,2) u f by (simp add: write_call_def write_call_with_def Let_def)
  show "find_stream (snd (write_call_owned ops al_all i m c)) i = Some (s\<lparr>sc_out := ?q\<rparr>)"
    and "fst (write_call_owned ops al_all i m c) = Inr ()"
    using assms(1,2) u o by (simp_all add: write_call_owned_def write_call_with_def Let_def)
qed

lemma finish_queue_open:
  assumes "\<not> finished q"
  shows "finished (finish_queue st m q)" and "final_status (finish_queue st m q) = st"
    and "messages (finish_queue st m q) = messages q"
  using assms by (auto simp: finish_queue_def Let_def split: option.splits)

section \<open>A small connection\<close>

text \<open>Concrete streams, connection and nghttp2 functions the witnesses evaluate on.\<close>

definition demo_stream :: "int \<Rightarrow> nat option \<Rightarrow> stream_ctx" where
  "demo_stream i d =
     \<lparr>sc_id = i, sc_state = StDispatched, sc_request = [], sc_path = [], sc_out = oq_new,
      sc_status = Ok, sc_cancel_hook = Some \<lparr>ch_callback = 7, ch_user_data = nat i\<rparr>,
      sc_deadline_ms = d\<rparr>"

definition demo_conn :: "stream_ctx list \<Rightarrow> unit conn" where
  "demo_conn ss =
     \<lparr>session = (), streams = ss, methods = [], max_message_len = 16, conn_fd = - 1,
      out_pending = [], installed = [], fired = []\<rparr>"

definition demo_ops :: "unit ng_ops" where
  "demo_ops =
     \<lparr>ng_resume_data = \<lambda>n _. n, ng_submit_response = \<lambda>n _ _. (n, 0),
      ng_submit_trailer = \<lambda>n _ _. (n, 0), ng_submit_settings = \<lambda>n. (n, 0),
      ng_mem_recv = \<lambda>n data. NgRet n (int (length data)) [], ng_mem_send = \<lambda>n. NgRet n 0 [],
      ng_want_read = \<lambda>_. True, ng_want_write = \<lambda>_. False\<rparr>"

section \<open>Properties\<close>

text \<open>
  C29. Expiry with pairwise distinct stream ids: the first eight streams whose deadline has
  passed are finished with \<open>DEADLINE_EXCEEDED\<close> and the percent-encoded message, lose deadline
  and hook, and their hooks fire once each, in stream order; every other stream is untouched.
\<close>

theorem expire_deadlines_correct:
  fixes c :: "'n conn"
  assumes "distinct (map sc_id (streams c))"
  shows "streams (expire_deadlines ops now c)
       = upd_firstn 8 (expired_stream now) expire_stream (streams c)
    \<and> fired (expire_deadlines ops now c)
       = fired c @ List.map_filter sc_cancel_hook (take 8 (filter (expired_stream now) (streams c)))"
  using expire_deadlines_streams [OF assms] by blast

theorem expire_deadlines_correct_witness:
  "let c = demo_conn [demo_stream 1 (Some 10), demo_stream 3 (Some 30), demo_stream 5 None]
   in distinct (map sc_id (streams c))
      \<and> streams (expire_deadlines demo_ops 20 c)
        = [expire_stream (demo_stream 1 (Some 10)), demo_stream 3 (Some 30), demo_stream 5 None]
      \<and> fired (expire_deadlines demo_ops 20 c) = [\<lparr>ch_callback = 7, ch_user_data = 1\<rparr>]"
proof -
  let ?c = "demo_conn [demo_stream 1 (Some 10), demo_stream 3 (Some 30), demo_stream 5 None]"
  have "distinct (map sc_id (streams ?c))" by (simp add: demo_conn_def demo_stream_def)
  then show ?thesis
    using expire_deadlines_correct [of ?c demo_ops 20]
    by (simp add: demo_conn_def demo_stream_def expired_stream_def oq_new_def List.map_filter_def)
qed

lemma expire_deadlines_ids:
  fixes c :: "'n conn"
  assumes "distinct (map sc_id (streams c))"
  shows "map sc_id (streams (expire_deadlines ops now c)) = map sc_id (streams c)"
  unfolding expire_deadlines_streams(1) [OF assms] by (rule map_upd_firstn) simp

lemma expire_ticks:
  fixes c :: "'n conn"
  assumes "distinct (map sc_id (streams c))"
  shows "distinct (map sc_id (streams ((expire_deadlines ops now ^^ k) c)))
    \<and> length (filter (expired_stream now) (streams ((expire_deadlines ops now ^^ k) c)))
      = length (filter (expired_stream now) (streams c)) - 8 * k"
proof (induction k)
  case (Suc k)
  let ?c = "(expire_deadlines ops now ^^ k) c"
  have d: "distinct (map sc_id (streams ?c))" using Suc by simp
  have "length (filter (expired_stream now) (streams (expire_deadlines ops now ?c)))
      = length (filter (expired_stream now) (streams ?c)) - 8"
    unfolding expire_deadlines_streams(1) [OF d]
    by (rule length_filter_upd_firstn) (simp add: expire_stream_not_expired)
  with Suc d expire_deadlines_ids [OF d] show ?case by simp
qed (simp add: assms)

text \<open>
  No deadline is missed for ever: although a tick expires at most eight streams, once the
  ticks number an eighth of the due streams, rounded up, no due stream is left.
\<close>

lemma expire_deadlines_complete:
  fixes c :: "'n conn"
  assumes "distinct (map sc_id (streams c))"
    and "length (filter (expired_stream now) (streams c)) \<le> 8 * k"
  shows "\<not> (\<exists>s \<in> set (streams ((expire_deadlines ops now ^^ k) c)). expired_stream now s)"
proof -
  have "length (filter (expired_stream now) (streams ((expire_deadlines ops now ^^ k) c))) = 0"
    using expire_ticks [OF assms(1), where ops = ops and now = now and k = k] assms(2) by simp
  then show ?thesis by (simp add: filter_empty_conv)
qed

text \<open>
  The poll bound is exact: \<open>next_deadline_ms\<close> is \<open>Some 0\<close> exactly when a tick now would
  expire something, \<open>None\<close> exactly when no call carries a live deadline, and otherwise the
  first moment at which a tick has something to expire is the bound from now.
\<close>

lemma next_deadline_exact:
  "(next_deadline_ms now c = Some 0 \<longleftrightarrow> (\<exists>s \<in> set (streams c). expired_stream now s))
   \<and> (next_deadline_ms now c = None \<longleftrightarrow> (\<forall>t. \<not> (\<exists>s \<in> set (streams c). expired_stream t s)))
   \<and> (\<forall>d t. next_deadline_ms now c = Some d \<longrightarrow> now \<le> t \<longrightarrow>
        ((\<exists>s \<in> set (streams c). expired_stream t s) \<longleftrightarrow> now + d \<le> t))"
proof -
  let ?A = "set (armed_deadlines c)"
  have le: "(\<exists>d \<in> ?A. d \<le> t) \<longleftrightarrow> ?A \<noteq> {} \<and> Min ?A \<le> t" for t
    by (cases "?A = {}") (auto simp: Min_le_iff)
  show ?thesis
    unfolding expired_armed next_deadline_Min le
    by (auto simp del: Min_le_iff)
qed

end
