(* ===== verification/Callbacks.thy ===== *)
theory Callbacks
  imports Conn_State
begin

text \<open>
  The callbacks nghttp2 runs on a connection: \<open>rust/grpcuds-core/src/conn/callbacks.rs\<close> and
  the data provider \<open>data_provider_read\<close> of \<open>conn/dispatch.rs\<close>; \<open>run_cb\<close> is the table that
  \<open>install_callbacks\<close> registers, \<open>run_ng\<close> runs one call into nghttp2 with all the callbacks it
  makes, and \<open>recv\<close> and \<open>pull_send\<close> of \<open>conn/state.rs\<close> are the two entry points.
\<close>

section \<open>Receive side\<close>

definition CB_FAIL :: int where
  "CB_FAIL = ERR_CALLBACK_FAILURE"

definition new_stream :: "int \<Rightarrow> stream_ctx" where
  "new_stream i =
     \<lparr>sc_id = i, sc_state = StHeadersIn, sc_request = [], sc_path = [], sc_out = oq_new,
      sc_status = Ok, sc_cancel_hook = None, sc_deadline_ms = None\<rparr>"

definition on_begin_headers :: "alloc \<Rightarrow> frame_hd \<Rightarrow> 'n conn \<Rightarrow> int \<times> 'n conn" where
  "on_begin_headers al fhd c =
     (if \<not> fr_type_headers fhd then (0, c)
      else if \<not> fr_cat_request fhd then (0, c)
      else if \<not> al_slot al then (CB_FAIL, c)
      else (0, c\<lparr>streams := streams c @ [new_stream (fr_stream_id fhd)]\<rparr>))"

definition on_header :: "env \<Rightarrow> int \<Rightarrow> bytes \<Rightarrow> bytes \<Rightarrow> 'n conn \<Rightarrow> int \<times> 'n conn" where
  "on_header e i name value c =
     (case find_stream c i of
        None \<Rightarrow> (0, c)
      | Some s \<Rightarrow>
          if name = ascii '':path''
          then if \<not> al_bytes (env_alloc e) (length value) then (CB_FAIL, c)
               else (0, upd_stream i (\<lambda>s. s\<lparr>sc_path := sc_path s @ value\<rparr>) c)
          else if name = ascii ''grpc-timeout''
          then (0, upd_stream i (\<lambda>s. s\<lparr>sc_deadline_ms :=
                     map_option (\<lambda>t. env_now e + t) (parse_grpc_timeout_ms value)\<rparr>) c)
          else (0, c))"

definition on_frame_recv :: "frame_hd \<Rightarrow> 'n conn \<Rightarrow> int \<times> 'n conn" where
  "on_frame_recv fhd c =
     (case find_stream c (fr_stream_id fhd) of
        None \<Rightarrow> (0, c)
      | Some s \<Rightarrow>
          if fr_end_stream fhd
          then (0, upd_stream (fr_stream_id fhd) (\<lambda>s. s\<lparr>sc_state := StComplete\<rparr>) c)
          else if fr_type_headers fhd
          then (0, upd_stream (fr_stream_id fhd) (\<lambda>s. s\<lparr>sc_state := StBodyIn\<rparr>) c)
          else (0, c))"

definition on_data_chunk_recv :: "alloc \<Rightarrow> int \<Rightarrow> bytes \<Rightarrow> 'n conn \<Rightarrow> int \<times> 'n conn" where
  "on_data_chunk_recv al i chunk c =
     (case find_stream c i of
        None \<Rightarrow> (0, c)
      | Some s \<Rightarrow>
          if sat_add64 (length (sc_request s)) (length chunk) > unat (max_message_len c)
          then (CB_FAIL, c)
          else if \<not> al_bytes al (length chunk) then (CB_FAIL, c)
          else (0, upd_stream i (\<lambda>s. s\<lparr>sc_request := sc_request s @ chunk\<rparr>) c))"

definition on_stream_close :: "int \<Rightarrow> nat \<Rightarrow> 'n conn \<Rightarrow> int \<times> 'n conn" where
  "on_stream_close i error_code c =
     (case position (\<lambda>s. sc_id s = i) (streams c) of
        None \<Rightarrow> (0, c)
      | Some pos \<Rightarrow>
          let s = streams c ! pos; c = c\<lparr>streams := swap_remove pos (streams c)\<rparr>
          in if error_code \<noteq> 0
             then (case sc_cancel_hook s of
                     None \<Rightarrow> (0, c)
                   | Some h \<Rightarrow> (0, c\<lparr>fired := fired c @ [h]\<rparr>))
             else (0, c))"

section \<open>Send side\<close>

definition NOCOPY_MIN :: nat where
  "NOCOPY_MIN = 4096"

definition no_flags :: data_flags where
  "no_flags = \<lparr>df_no_copy = False, df_eof = False, df_no_end_stream = False\<rparr>"

definition data_provider_read ::
    "'n ng_ops \<Rightarrow> int \<Rightarrow> nat \<Rightarrow> 'n conn \<Rightarrow> cb_ret \<times> 'n conn" where
  "data_provider_read ops i len c =
     (case find_stream c i of
        None \<Rightarrow> (CbRead ERR_TEMPORAL_CALLBACK_FAILURE [] no_flags, c)
      | Some s \<Rightarrow>
          if conn_fd c \<ge> 0 \<and> front_remaining (sc_out s) \<ge> NOCOPY_MIN
          then let (n, q) = promise_front len (sc_out s)
               in (CbRead (int n) [] (no_flags\<lparr>df_no_copy := True\<rparr>),
                   upd_stream i (\<lambda>s. s\<lparr>sc_out := q\<rparr>) c)
          else
            let (out, q) = drain_into len (sc_out s);
                c = upd_stream i (\<lambda>s. s\<lparr>sc_out := q\<rparr>) c
            in if length out > 0 then (CbRead (int (length out)) out no_flags, c)
               else if finished q
               then let flags = no_flags\<lparr>df_eof := True, df_no_end_stream := True\<rparr>;
                        tr = (case final_message q of
                                Some msg \<Rightarrow>
                                  if msg \<noteq> [] then trailer_with_message (final_status q) msg
                                  else trailer (final_status q)
                              | None \<Rightarrow> trailer (final_status q));
                        (n, rc) = ng_submit_trailer ops (session c) i tr;
                        c = c\<lparr>session := n\<rparr>
                    in if rc \<noteq> 0 then (CbRead ERR_CALLBACK_FAILURE [] flags, c)
                       else (CbRead 0 [] flags, c)
               else (CbRead ERR_DEFERRED [] no_flags, c))"

text \<open>
  The \<open>sendmsg\<close> loop of \<open>send_data\<close>: \<open>EINTR\<close> retries, \<open>EAGAIN\<close> counts as nothing written.
\<close>

function sendmsg_loop :: "bytes \<Rightarrow> net \<Rightarrow> (int + nat) \<times> net" where
  "sendmsg_loop data w =
     (case sys_send data w of
        (Inr n, w1) \<Rightarrow> (Inr n, w1)
      | (Inl e, w1) \<Rightarrow>
          if e = EINTR then sendmsg_loop data w1
          else if e = EAGAIN \<or> e = EWOULDBLOCK then (Inr 0, w1)
          else (Inl e, w1))"
  by pat_completeness auto
termination
  by (relation "measure (\<lambda>(_, w). length (net_sends w))")
     (auto dest!: sys_send_Inl(5) [OF sym] simp: EINTR_def EAGAIN_def)

declare sendmsg_loop.simps [simp del]

text \<open>The unsent tail of the parts of a frame after \<open>skip\<close> bytes.\<close>

fun tail_after :: "nat \<Rightarrow> bytes list \<Rightarrow> bytes" where
  "tail_after skip [] = []"
| "tail_after skip (p # ps) =
     (if skip \<ge> length p then tail_after (skip - length p) ps
      else drop skip p @ tail_after 0 ps)"

definition send_data ::
    "alloc \<Rightarrow> int \<Rightarrow> bytes \<Rightarrow> nat \<Rightarrow> nat \<Rightarrow> 'n conn \<times> net \<Rightarrow> int \<times> 'n conn \<times> net" where
  "send_data al stream_id framehd len padlen cw =
     (case cw of (c, w) \<Rightarrow>
        if conn_fd c < 0 \<or> out_pending c \<noteq> [] then (ERR_WOULDBLOCK, c, w)
        else if padlen \<noteq> 0 then (ERR_CALLBACK_FAILURE, c, w)
        else case find_stream c stream_id of
               None \<Rightarrow> (ERR_TEMPORAL_CALLBACK_FAILURE, c, w)
             | Some s \<Rightarrow>
                 let hdr9 = take 9 framehd; (a, b) = front_regions len (sc_out s)
                 in if length a + length b \<noteq> len then (ERR_TEMPORAL_CALLBACK_FAILURE, c, w)
                    else case sendmsg_loop (hdr9 @ a @ b) w of
                           (Inl _, w) \<Rightarrow> (ERR_CALLBACK_FAILURE, c, w)
                         | (Inr n, w) \<Rightarrow>
                             if n = 0 then (ERR_WOULDBLOCK, c, w)
                             else
                               let total = length hdr9 + len;
                                   stash = (if n < total
                                            then if \<not> al_bytes al (total - n) then Inl ()
                                                 else Inr (Some (tail_after n [hdr9, a, b]))
                                            else Inr None);
                                   c = upd_stream stream_id
                                         (\<lambda>s. s\<lparr>sc_out := consume_front len (sc_out s)\<rparr>) c;
                                   w = w\<lparr>net_emitted := net_emitted w @ hdr9 @ a @ b\<rparr>
                               in (case stash of
                                     Inr None \<Rightarrow> (0, c, w)
                                   | Inr (Some rest) \<Rightarrow> (ERR_PAUSE, c\<lparr>out_pending := rest\<rparr>, w)
                                   | Inl _ \<Rightarrow> (ERR_CALLBACK_FAILURE, c, w)))"

section \<open>Calls into nghttp2\<close>

fun run_cb :: "'n ng_ops \<Rightarrow> env \<Rightarrow> callback \<Rightarrow> 'n conn \<times> net \<Rightarrow> cb_ret \<times> 'n conn \<times> net" where
  "run_cb ops e (CbBeginHeaders fhd) (c, w) =
     (let (rc, c) = on_begin_headers (env_alloc e) fhd c in (CbRc rc, c, w))"
| "run_cb ops e (CbHeader i name value) (c, w) =
     (let (rc, c) = on_header e i name value c in (CbRc rc, c, w))"
| "run_cb ops e (CbFrameRecv fhd) (c, w) =
     (let (rc, c) = on_frame_recv fhd c in (CbRc rc, c, w))"
| "run_cb ops e (CbDataChunk i chunk) (c, w) =
     (let (rc, c) = on_data_chunk_recv (env_alloc e) i chunk c in (CbRc rc, c, w))"
| "run_cb ops e (CbStreamClose i err) (c, w) =
     (let (rc, c) = on_stream_close i err c in (CbRc rc, c, w))"
| "run_cb ops e (CbDataRead i len) (c, w) =
     (let (r, c) = data_provider_read ops i len c in (r, c, w))"
| "run_cb ops e (CbSendData i framehd len padlen) (c, w) =
     (let (rc, c, w) = send_data (env_alloc e) i framehd len padlen (c, w) in (CbRc rc, c, w))"

primrec run_ng :: "'n ng_ops \<Rightarrow> 'n ng_prog \<Rightarrow> 'n conn \<times> net \<Rightarrow> int \<times> bytes \<times> 'n conn \<times> net"
  where
  "run_ng ops (NgRet n rc out) = (\<lambda>(c, w). (rc, out, c\<lparr>session := n\<rparr>, w))"
| "run_ng ops (NgCall cb e n k) =
     (\<lambda>(c, w). let (r, c, w) = run_cb ops e cb (c\<lparr>session := n\<rparr>, w)
               in run_ng ops (k (session c) r) (c, w))"

definition recv :: "'n ng_ops \<Rightarrow> bytes \<Rightarrow> 'n conn \<times> net \<Rightarrow> (conn_error + nat) \<times> 'n conn \<times> net"
  where
  "recv ops data cw =
     (if data = [] then (Inr 0, cw)
      else let (rc, _, cw) = run_ng ops (ng_mem_recv ops (session (fst cw)) data) cw
           in if rc < 0 then (Inl (Nghttp2 rc), cw) else (Inr (nat rc), cw))"

text \<open>The chunk of a call that returned \<open>rc\<close> bytes is the first \<open>rc\<close> bytes at \<open>p\<close>.\<close>

definition pull_send :: "'n ng_ops \<Rightarrow> 'n conn \<times> net \<Rightarrow> (conn_error + bytes) \<times> 'n conn \<times> net"
  where
  "pull_send ops cw =
     (let (rc, p, cw) = run_ng ops (ng_mem_send ops (session (fst cw))) cw
      in if rc < 0
         then if rc = ERR_WOULDBLOCK then (Inr [], cw) else (Inl (Nghttp2 rc), cw)
         else if rc = 0 \<or> p = [] then (Inr [], cw)
         else (Inr (take (nat rc) p), cw))"

section \<open>The invariant\<close>

lemma conn_inv_session [simp]: "conn_inv (c\<lparr>session := n\<rparr>) = conn_inv c"
  by (simp add: conn_inv_def hook_inv_def)

lemma conn_inv_upd_stream:
  assumes "conn_inv c"
    and "\<And>s. find_stream c i = Some s \<Longrightarrow> stream_inv (max_message_len c) s
           \<Longrightarrow> stream_inv (max_message_len c) (f s)"
    and "\<And>s. sc_cancel_hook (f s) = sc_cancel_hook s"
  shows "conn_inv (upd_stream i f c)"
proof -
  have "list_all (stream_inv (max_message_len c)) (upd_first (\<lambda>s. sc_id s = i) f (streams c))"
    using assms(1,2) by (intro list_all_upd_found) (auto simp: conn_inv_def find_stream_def)
  moreover have "held (upd_first (\<lambda>s. sc_id s = i) f (streams c)) = held (streams c)"
    using assms(3) by (intro held_upd_first)
  ultimately show ?thesis
    using assms(1) by (simp add: conn_inv_def upd_stream_def hook_inv_def)
qed

lemma oq_new_inv [simp]: "queue_inv oq_new" "message_inv oq_new"
  by (simp_all add: oq_new_def queue_inv_def message_inv_def)

lemma on_begin_headers_inv: "conn_inv c \<Longrightarrow> conn_inv (snd (on_begin_headers al fhd c))"
  by (auto simp: on_begin_headers_def conn_inv_def hook_inv_def new_stream_def stream_inv_def)

lemma on_header_inv: "conn_inv c \<Longrightarrow> conn_inv (snd (on_header e i name value c))"
  by (auto simp: on_header_def stream_inv_def split: option.splits intro!: conn_inv_upd_stream)

lemma on_frame_recv_inv: "conn_inv c \<Longrightarrow> conn_inv (snd (on_frame_recv fhd c))"
  by (auto simp: on_frame_recv_def stream_inv_def split: option.splits intro!: conn_inv_upd_stream)

lemma u32_below_u64: "unat (w :: u32) < u64_max"
  using unsigned_less [of w, where ?'a = nat] by (simp add: u64_max_def)

lemma on_data_chunk_recv_inv: "conn_inv c \<Longrightarrow> conn_inv (snd (on_data_chunk_recv al i chunk c))"
  using u32_below_u64 [of "max_message_len c"]
  by (auto simp: on_data_chunk_recv_def stream_inv_def sat_add64_def not_less
      split: option.splits intro!: conn_inv_upd_stream)

lemma held_sum:
  "held ss = (\<Sum>s \<in># mset ss. case sc_cancel_hook s of None \<Rightarrow> {#} | Some h \<Rightarrow> {#h#})"
  by (induction ss) auto

lemma held_swap_remove:
  assumes "i < length ss"
  shows "held ss = held (swap_remove i ss)
    + (case sc_cancel_hook (ss ! i) of None \<Rightarrow> {#} | Some h \<Rightarrow> {#h#})"
  unfolding held_sum mset_swap_remove [OF assms, symmetric] by (simp add: add.commute)

lemma on_stream_close_inv:
  assumes "conn_inv c"
  shows "conn_inv (snd (on_stream_close i err c))"
proof (cases "position (\<lambda>s. sc_id s = i) (streams c)")
  case None
  with assms show ?thesis by (simp add: on_stream_close_def)
next
  case (Some k)
  then have k: "k < length (streams c)" by (auto dest: position_SomeD)
  have "list_all (stream_inv (max_message_len c)) (swap_remove k (streams c))"
    using assms k by (auto simp: conn_inv_def intro: list_all_swap_remove)
  moreover have "mset (fired c) + (held (swap_remove k (streams c))
      + (case sc_cancel_hook (streams c ! k) of None \<Rightarrow> {#} | Some h \<Rightarrow> {#h#}))
      \<subseteq># mset (installed c)"
    using assms held_swap_remove [OF k] by (simp add: conn_inv_def hook_inv_def)
  ultimately show ?thesis
    using Some by (auto simp: on_stream_close_def conn_inv_def hook_inv_def Let_def add.commute
        split: option.splits dest: mset_subset_eq_insertD intro: subset_mset.less_imp_le)
qed

lemma stream_inv_upd_queue:
  assumes "stream_inv m s" and "queue_inv q" and "final_message q = final_message (sc_out s)"
    and "finished q = finished (sc_out s)"
  shows "stream_inv m (s\<lparr>sc_out := q\<rparr>)"
  using assms by (simp add: stream_inv_def message_inv_def split: option.splits)

lemma data_provider_read_inv:
  assumes "conn_inv c"
  shows "conn_inv (snd (data_provider_read ops i len c))"
proof (cases "find_stream c i")
  case None
  with assms show ?thesis by (simp add: data_provider_read_def)
next
  case (Some s)
  then have s: "stream_inv (max_message_len c) s"
    using assms by (auto simp: conn_inv_def find_stream_def list_all_iff dest: find_Some_mem)
  then have q: "queue_inv (sc_out s)" by (simp add: stream_inv_def)
  obtain n qp where p: "promise_front len (sc_out s) = (n, qp)" by fastforce
  obtain out qd where d: "drain_into len (sc_out s) = (out, qd)" by fastforce
  have "final_message qp = final_message (sc_out s)" "finished qp = finished (sc_out s)"
    using p by (auto simp: promise_front_def Let_def split: if_splits)
  then have 1: "conn_inv (upd_stream i (\<lambda>s. s\<lparr>sc_out := qp\<rparr>) c)"
    using promise_front_spec(4) [OF p] q s Some assms
    by (intro conn_inv_upd_stream) (auto intro: stream_inv_upd_queue)
  have 2: "conn_inv (upd_stream i (\<lambda>s. s\<lparr>sc_out := qd\<rparr>) c)"
    using drain_into_spec(3) [OF q d] drain_into_frame [OF d] s Some assms
    by (intro conn_inv_upd_stream) (auto intro: stream_inv_upd_queue)
  show ?thesis using Some p d 1 2
    by (auto simp: data_provider_read_def Let_def split: prod.splits)
qed

lemma consume_front_keeps [queue_simps]:
  "final_message (consume_front n q) = final_message q"
  "finished (consume_front n q) = finished q"
  "final_status (consume_front n q) = final_status q"
  "response_started (consume_front n q) = response_started q"
  "oq_backpressure (consume_front n q) = oq_backpressure q"
  by (simp_all add: consume_front_def Let_def split: list.splits)

lemma send_data_inv:
  assumes "conn_inv c"
  shows "conn_inv (fst (snd (send_data al i framehd len padlen (c, w))))"
proof -
  have 1: "conn_inv (upd_stream i (\<lambda>s. s\<lparr>sc_out := consume_front len (sc_out s)\<rparr>) c)"
    using assms by (intro conn_inv_upd_stream stream_inv_upd_queue)
      (auto simp: stream_inv_def consume_front_spec queue_simps)
  then have "conn_inv (upd_stream i (\<lambda>s. s\<lparr>sc_out := consume_front len (sc_out s)\<rparr>) c
      \<lparr>out_pending := rest\<rparr>)" for rest
    by (simp add: conn_inv_def hook_inv_def)
  with 1 assms show ?thesis
    by (auto simp: send_data_def Let_def split: prod.splits option.splits sum.splits)
qed

lemma run_cb_inv:
  assumes "conn_inv c"
  shows "conn_inv (fst (snd (run_cb ops e cb (c, w))))"
  using on_begin_headers_inv [OF assms] on_header_inv [OF assms] on_frame_recv_inv [OF assms]
    on_data_chunk_recv_inv [OF assms] on_stream_close_inv [OF assms]
    data_provider_read_inv [OF assms] send_data_inv [OF assms]
  by (cases cb) (auto split: prod.splits, (metis fst_conv snd_conv)+)

lemma run_ng_inv:
  "conn_inv c \<Longrightarrow> run_ng ops t (c, w) = (rc, out, c', w') \<Longrightarrow> conn_inv c'"
proof (induction t arbitrary: c w)
  case (NgCall cb e n k)
  obtain r c1 w1 where cb: "run_cb ops e cb (c\<lparr>session := n\<rparr>, w) = (r, c1, w1)"
    by (metis prod_cases3)
  have "conn_inv c1"
    using run_cb_inv [of "c\<lparr>session := n\<rparr>" ops e cb w] cb NgCall.prems(1) by simp
  moreover have "run_ng ops (k (session c1) r) (c1, w1) = (rc, out, c', w')"
    using NgCall.prems(2) cb by simp
  ultimately show ?case using NgCall.IH by blast
qed auto

lemma recv_inv: "conn_inv (fst cw) \<Longrightarrow> conn_inv (fst (snd (recv ops data cw)))"
  by (cases cw) (auto simp: recv_def Let_def dest: run_ng_inv split: prod.splits)

lemma pull_send_inv: "conn_inv (fst cw) \<Longrightarrow> conn_inv (fst (snd (pull_send ops cw)))"
  by (cases cw) (auto simp: pull_send_def Let_def dest: run_ng_inv split: prod.splits)

section \<open>The order of bytes on the wire\<close>

text \<open>
  \<open>wire_inv\<close>: what the peer has received followed by the pending tail is what nghttp2 has
  emitted. \<open>mem_send_ok\<close> is the documented behaviour of \<open>nghttp2_session_mem_send\<close> around the
  \<open>send_data\<close> callback: a \<open>CALLBACK_FAILURE\<close> is returned at once, and after a \<open>PAUSE\<close> the call
  returns without further output.
\<close>

definition wire_inv :: "'n conn \<Rightarrow> net \<Rightarrow> bool" where
  "wire_inv c w \<longleftrightarrow> net_wire w @ out_pending c = net_emitted w"

fun is_send :: "callback \<Rightarrow> bool" where
  "is_send (CbSendData _ _ _ _) = True"
| "is_send _ = False"

primrec mem_send_ok :: "'n ng_prog \<Rightarrow> bool" where
  "mem_send_ok (NgRet n rc out) = True"
| "mem_send_ok (NgCall cb e n k) =
     (\<forall>n' r. if is_send cb \<and> r = CbRc ERR_CALLBACK_FAILURE
             then (\<exists>n''. k n' r = NgRet n'' ERR_CALLBACK_FAILURE [])
             else if is_send cb \<and> r = CbRc ERR_PAUSE then (\<exists>n''. k n' r = NgRet n'' 0 [])
             else mem_send_ok (k n' r))"

lemma run_cb_other:
  assumes "\<not> is_send cb" and "run_cb ops e cb (c, w) = (r, c', w')"
  shows "w' = w" and "out_pending c' = out_pending c" and "conn_fd c' = conn_fd c"
  using assms
  by (cases cb; auto simp: on_begin_headers_def on_header_def on_frame_recv_def Let_def
      on_data_chunk_recv_def on_stream_close_def data_provider_read_def
      split: prod.splits option.splits if_splits)+

lemma tail_after_concat: "tail_after n ps = drop n (concat ps)"
  by (induction n ps rule: tail_after.induct) auto

lemma sendmsg_loop_sent:
  assumes "sendmsg_loop data w = (r, w')"
  shows "case r of Inr n \<Rightarrow> sent data n w w' | Inl e \<Rightarrow> sent data 0 w w'"
  using assms
proof (induction data w arbitrary: r w' rule: sendmsg_loop.induct)
  case (1 data w)
  obtain a w1 where s: "sys_send data w = (a, w1)" by fastforce
  show ?case
  proof (cases a)
    case (Inl e)
    note s1 = sent_Inl [OF s [unfolded Inl]]
    show ?thesis
    proof (cases "e = EINTR")
      case True
      then have "sendmsg_loop data w1 = (r, w')"
        using "1.prems" s Inl by (simp add: sendmsg_loop.simps [of data w])
      from "1.IH" [OF s [symmetric] Inl True this] show ?thesis
        using sent_trans [OF s1] by (auto split: sum.splits)
    next
      case False
      with "1.prems" s Inl s1 show ?thesis
        by (auto simp: sendmsg_loop.simps [of data w] split: if_splits)
    qed
  next
    case (Inr n)
    with "1.prems" s have "r = Inr n" and "w' = w1" by (auto simp: sendmsg_loop.simps [of data w])
    with sent_Inr [OF s [unfolded Inr]] show ?thesis by simp
  qed
qed

lemma sent_wire_prefix:
  assumes "sent data n w w1" and "net_wire w = net_emitted w"
  shows "net_wire w1 @ drop n data = net_emitted w1 @ data"
    and "prefix (net_wire w1) (net_emitted w1 @ data)"
proof -
  have eq: "net_wire w1 = net_emitted w1 @ take n data"
    using assms by (simp add: sent_def)
  then show "net_wire w1 @ drop n data = net_emitted w1 @ data" by simp
  then show "prefix (net_wire w1) (net_emitted w1 @ data)" by (metis prefixI)
qed

text \<open>The four ways \<open>send_data\<close> ends.\<close>

lemma send_data_cases:
  assumes "send_data al i framehd len padlen (c, w) = (rc, c', w')"
  obtains (kept) w1 where "c' = c" "w' = w1" "sent [] 0 w w1" "rc \<noteq> ERR_PAUSE"
  | (went) data n w1 where "out_pending c = []" "0 \<le> conn_fd c" "sent data n w w1"
      "w' = w1\<lparr>net_emitted := net_emitted w1 @ data\<rparr>" "0 < n"
      "(rc = 0 \<and> n = length data \<and> out_pending c' = [])
       \<or> (rc = ERR_PAUSE \<and> out_pending c' = drop n data)
       \<or> (rc = ERR_CALLBACK_FAILURE \<and> out_pending c' = [])"
proof -
  note codes = ERR_WOULDBLOCK_def ERR_CALLBACK_FAILURE_def ERR_TEMPORAL_CALLBACK_FAILURE_def
    ERR_PAUSE_def
  have refl: "sent [] 0 w w" by (simp add: sent_def)
  have "?thesis" if "conn_fd c < 0 \<or> out_pending c \<noteq> [] \<or> padlen \<noteq> 0
      \<or> find_stream c i = None"
    using that assms refl by (intro kept [of w]) (auto simp: send_data_def codes split: if_splits)
  moreover have "?thesis" if g: "\<not> (conn_fd c < 0 \<or> out_pending c \<noteq> [] \<or> padlen \<noteq> 0)"
    and st: "find_stream c i = Some s" for s
  proof -
    obtain a b where reg: "front_regions len (sc_out s) = (a, b)" by fastforce
    let ?data = "take 9 framehd @ a @ b"
    obtain r w1 where run: "sendmsg_loop ?data w = (r, w1)" by fastforce
    note sent1 = sendmsg_loop_sent [OF run]
    consider "length a + length b \<noteq> len"
      | "length a + length b = len" "\<forall>n. r = Inr n \<longrightarrow> n = 0"
      | n where "length a + length b = len" "r = Inr n" "0 < n" by fastforce
    then show ?thesis
    proof cases
      case 1
      then show ?thesis using assms g st reg refl
        by (intro kept [of w]) (auto simp: send_data_def codes Let_def)
    next
      case 2
      have "sent [] 0 w w1" using sent1 2 by (auto simp: sent_def split: sum.splits)
      with 2 show ?thesis using assms g st reg run
        by (intro kept [of w1]) (auto simp: send_data_def codes Let_def split: sum.splits)
    next
      case (3 n)
      note len = 3(1) and r = 3(2) and n = 3(3)
      have tail: "tail_after n [take 9 framehd, a, b] = drop n ?data"
        by (simp add: tail_after_concat)
      have le: "n \<le> length ?data" and sn: "sent ?data n w w1"
        using sent1 r by (auto simp: sent_def)
      have le': "n \<le> length (take 9 framehd) + len" using le len by simp
      show ?thesis
        using assms g st reg run r n len tail le'
        by (intro went [of ?data n w1, OF _ _ sn])
           (auto simp: send_data_def codes Let_def not_less split: if_splits)
    qed
  qed
  ultimately show ?thesis by (cases "find_stream c i") auto
qed

lemma run_cb_net:
  assumes "run_cb ops e cb (c, w) = (r, c', w')"
  shows "net_reads w' = net_reads w" and "length (net_sends w') \<le> length (net_sends w)"
proof -
  have "net_reads w' = net_reads w \<and> length (net_sends w') \<le> length (net_sends w)"
  proof (cases "is_send cb")
    case False
    with run_cb_other(1) [OF False assms] show ?thesis by simp
  next
    case True
    then obtain i framehd len padlen where cb: "cb = CbSendData i framehd len padlen"
      by (cases cb) auto
    obtain rc where "send_data (env_alloc e) i framehd len padlen (c, w) = (rc, c', w')"
      using assms cb by (auto split: prod.splits)
    then show ?thesis by (cases rule: send_data_cases) (auto simp: sent_def)
  qed
  then show "net_reads w' = net_reads w" and "length (net_sends w') \<le> length (net_sends w)"
    by auto
qed

lemma run_ng_net:
  "run_ng ops t (c, w) = (rc, out, c', w') \<Longrightarrow>
     net_reads w' = net_reads w \<and> length (net_sends w') \<le> length (net_sends w)"
proof (induction t arbitrary: c w)
  case (NgCall cb e n k)
  obtain r c1 w1 where cb: "run_cb ops e cb (c\<lparr>session := n\<rparr>, w) = (r, c1, w1)"
    by (metis prod_cases3)
  then have "run_ng ops (k (session c1) r) (c1, w1) = (rc, out, c', w')"
    using NgCall.prems by simp
  from NgCall.IH [OF _ _ this] run_cb_net [OF cb] show ?case by (auto intro: order_trans)
qed auto

lemma run_send_wire:
  assumes "mem_send_ok t" and "wire_inv c w" and "out_pending c = []"
    and "run_ng ops t (c, w) = (rc, out, c', w')"
  shows "prefix (net_wire w') (net_emitted w') \<and> (rc \<noteq> ERR_CALLBACK_FAILURE \<longrightarrow> wire_inv c' w')
    \<and> (out \<noteq> [] \<longrightarrow> out_pending c' = [])"
  using assms
proof (induction t arbitrary: c w)
  case (NgRet n rc0 out0)
  then show ?case by (auto simp: wire_inv_def)
next
  case (NgCall cb e n k)
  obtain r c1 w1 where cb: "run_cb ops e cb (c\<lparr>session := n\<rparr>, w) = (r, c1, w1)"
    by (metis prod_cases3)
  then have run: "run_ng ops (k (session c1) r) (c1, w1) = (rc, out, c', w')"
    using NgCall.prems by simp
  note ng = NgCall.prems(1) [unfolded mem_send_ok.simps, THEN spec [of _ "session c1"],
      THEN spec [of _ r]]
  have step: ?case if "wire_inv c1 w1" "out_pending c1 = []"
    "\<not> is_send cb \<or> r \<noteq> CbRc ERR_CALLBACK_FAILURE \<and> r \<noteq> CbRc ERR_PAUSE"
  proof -
    have "mem_send_ok (k (session c1) r)" using ng that(3) by auto
    then show ?case using NgCall.IH [OF _ _ _ that(1,2) run] by auto
  qed
  show ?case
  proof (cases "is_send cb")
    case False
    with run_cb_other [OF False cb] NgCall.prems(2,3) show ?thesis
      by (intro step) (auto simp: wire_inv_def)
  next
    case True
    then obtain i framehd len padlen where cb': "cb = CbSendData i framehd len padlen"
      by (cases cb) auto
    obtain rc1 where sd: "send_data (env_alloc e) i framehd len padlen (c\<lparr>session := n\<rparr>, w)
        = (rc1, c1, w1)" and r: "r = CbRc rc1"
      using cb cb' by (auto split: prod.splits)
    have wire: "net_wire w = net_emitted w" using NgCall.prems(2,3) by (simp add: wire_inv_def)
    have fail: ?thesis if "rc1 = ERR_CALLBACK_FAILURE" "prefix (net_wire w1) (net_emitted w1)"
      using ng run that True r by auto
    from sd show ?thesis
    proof (cases rule: send_data_cases)
      case (kept w2)
      then have "wire_inv c1 w1" "out_pending c1 = []" "prefix (net_wire w1) (net_emitted w1)"
        using wire NgCall.prems(3) by (auto simp: sent_def wire_inv_def)
      with kept(4) fail step r show ?thesis by blast
    next
      case (went data m w2)
      note pre = sent_wire_prefix [OF went(3) wire]
      have "wire_inv c1 w1" if "rc1 \<noteq> ERR_CALLBACK_FAILURE"
        using that went pre(1) by (auto simp: wire_inv_def)
      moreover have "prefix (net_wire w1) (net_emitted w1)" using pre(2) went(4) by simp
      moreover have "rc1 = ERR_PAUSE \<Longrightarrow> \<exists>n''. k (session c1) r = NgRet n'' 0 []"
        using ng True r by (auto simp: ERR_PAUSE_def ERR_CALLBACK_FAILURE_def)
      ultimately show ?thesis
        using went(6) fail step r run
        by (auto simp: ERR_PAUSE_def ERR_CALLBACK_FAILURE_def wire_inv_def)
    qed
  qed
qed

section \<open>Properties\<close>

lemma qbytes_Nil_front:
  assumes "qbytes q = []" and "queue_inv q"
  shows "front_remaining q = 0"
  using front_remaining_le [OF assms(2)] assms(1) by simp


definition demo_queue :: out_queue where
  "demo_queue = oq_new\<lparr>messages := [\<lparr>om_hdr = [0, 0, 0, 0, 1], om_body = [42]\<rparr>],
                       response_started := True\<rparr>"


text \<open>
  Closing a stream removes exactly that stream, and its cancel hook fires exactly when the
  close carries an error: once, as the last hook so far; after a graceful close it is dropped
  unfired. With distinct ids the call can no longer be found.
\<close>

lemma stream_close_fires_once:
  assumes "find_stream c i = Some s" and "on_stream_close i err c = (rc, c')"
  shows "rc = 0 \<and> add_mset s (mset (streams c')) = mset (streams c)
    \<and> fired c' = fired c @ (if err \<noteq> 0 then (case sc_cancel_hook s of None \<Rightarrow> [] | Some h \<Rightarrow> [h]) else [])
    \<and> (distinct (map sc_id (streams c)) \<longrightarrow> find_stream c' i = None)"
proof -
  obtain k where k: "position (\<lambda>s. sc_id s = i) (streams c) = Some k" "streams c ! k = s"
    using position_find [OF assms(1) [unfolded find_stream_def]] by blast
  then have lt: "k < length (streams c)" and id: "sc_id s = i" by (auto dest: position_SomeD)
  have c': "streams c' = swap_remove k (streams c)" "rc = 0"
    "fired c' = fired c @ (if err \<noteq> 0 then (case sc_cancel_hook s of None \<Rightarrow> [] | Some h \<Rightarrow> [h]) else [])"
    using assms(2) k by (auto simp: on_stream_close_def Let_def split: option.splits if_splits)
  have "find_stream c' i = None" if "distinct (map sc_id (streams c))"
    using distinct_map_swap_remove(2) [OF that lt] c'(1) k(2) id
    by (fastforce simp: find_stream_def find_None_iff image_iff)
  moreover have "add_mset s (mset (streams c')) = mset (streams c)"
    using mset_swap_remove [OF lt] unfolding c'(1) k(2) by simp
  ultimately show ?thesis using c'(2,3) by blast
qed

end
