(* ===== verification/Dispatch.thy ===== *)
theory Dispatch
  imports Callbacks
begin

text \<open>
  Request dispatch, \<open>rust/grpcuds-core/src/conn/dispatch.rs\<close>. A handler is foreign code that
  runs inside \<open>dispatch\<close> with the connection in its hands: it is a program that calls the
  operations of \<open>conn/state.rs\<close>, sees their results and finally returns a status code. The
  parameter \<open>H\<close> maps the registered function pointer, its user data, the call id and the
  payload to that program. Handlers that re-enter \<open>recv\<close>, \<open>pull_send\<close> or \<open>dispatch\<close> are
  outside the model, as they are outside the contract of the code.
\<close>

section \<open>Handlers\<close>

datatype api_op =
    ApiWrite alloc int bytes
  | ApiWriteOwned alloc int bytes
  | ApiFinish int grpc_status
  | ApiFinishMsg int grpc_status bytes
  | ApiTimeRemaining nat int
  | ApiSetCancelHook int nat nat
  | ApiSetPolicy int backpressure

datatype api_res = ResUnit "conn_error + unit" | ResTime "conn_error + nat option"

fun run_api :: "'n ng_ops \<Rightarrow> api_op \<Rightarrow> 'n conn \<Rightarrow> api_res \<times> 'n conn" where
  "run_api ops (ApiWrite al i payload) c =
     (let (r, c) = write_call ops al i payload c in (ResUnit r, c))"
| "run_api ops (ApiWriteOwned al i payload) c =
     (let (r, c) = write_call_owned ops al i payload c in (ResUnit r, c))"
| "run_api ops (ApiFinish i status) c =
     (let (r, c) = finish_call ops i status c in (ResUnit r, c))"
| "run_api ops (ApiFinishMsg i status msg) c =
     (let (r, c) = finish_call_msg ops i status msg c in (ResUnit r, c))"
| "run_api ops (ApiTimeRemaining now i) c = (ResTime (call_time_remaining_ms now i c), c)"
| "run_api ops (ApiSetCancelHook i callback user_data) c =
     (let (r, c) = set_cancel_hook i callback user_data c in (ResUnit r, c))"
| "run_api ops (ApiSetPolicy i bp) c =
     (let (r, c) = set_stream_policy i bp c in (ResUnit r, c))"

datatype handler_prog = HRet int | HCall api_op "api_res \<Rightarrow> handler_prog"

primrec run_handler :: "'n ng_ops \<Rightarrow> handler_prog \<Rightarrow> 'n conn \<Rightarrow> int \<times> 'n conn" where
  "run_handler ops (HRet rc) = (\<lambda>c. (rc, c))"
| "run_handler ops (HCall op k) =
     (\<lambda>c. let (r, c) = run_api ops op c in run_handler ops (k r) c)"

type_synonym handlers = "nat \<Rightarrow> nat \<Rightarrow> int \<Rightarrow> bytes \<Rightarrow> handler_prog"

section \<open>Dispatch\<close>

text \<open>
  \<open>transmute::<u8, GrpcStatus>\<close> on a byte in range selects the status with that discriminant.
\<close>

definition transmute_status :: "nat \<Rightarrow> grpc_status" where
  "transmute_status d =
     [Ok, Cancelled, Unknown, InvalidArgument, DeadlineExceeded, NotFound, AlreadyExists,
      PermissionDenied, ResourceExhausted, FailedPrecondition, Aborted, OutOfRange,
      Unimplemented, Internal, Unavailable, DataLoss, Unauthenticated] ! d"

definition dispatch_status_from_i32 :: "int \<Rightarrow> grpc_status" where
  "dispatch_status_from_i32 rc =
     (if 0 \<le> rc \<and> rc \<le> 16 then transmute_status (nat rc) else Unknown)"

definition finalize_error :: "grpc_status \<Rightarrow> stream_ctx \<Rightarrow> stream_ctx" where
  "finalize_error status s =
     s\<lparr>sc_status := status,
       sc_out := (sc_out s)\<lparr>finished := True, final_status := status\<rparr>,
       sc_state := StDispatched\<rparr>"

definition upd_at :: "nat \<Rightarrow> (stream_ctx \<Rightarrow> stream_ctx) \<Rightarrow> 'n conn \<Rightarrow> 'n conn" where
  "upd_at i f c = c\<lparr>streams := (streams c)[i := f (streams c ! i)]\<rparr>"

text \<open>A stream that fails before its handler: stamp the status, submit, ignore the result.\<close>

definition reject_stream :: "'n ng_ops \<Rightarrow> grpc_status \<Rightarrow> nat \<Rightarrow> 'n conn \<Rightarrow> 'n conn" where
  "reject_stream ops status i c =
     (let c = upd_at i (finalize_error status) c
      in snd (submit_response_for ops (sc_id (streams c ! i)) c))"

text \<open>What \<open>dispatch\<close> does with one stream once its handler has returned \<open>rc\<close>.\<close>

definition after_handler :: "'n ng_ops \<Rightarrow> int \<Rightarrow> int \<Rightarrow> nat \<Rightarrow> 'n conn \<Rightarrow> 'n conn" where
  "after_handler ops rc call_id i c =
     (let c = upd_at i (\<lambda>s. s\<lparr>sc_state := StDispatched,
                 sc_out := (if rc \<noteq> 0 \<and> \<not> finished (sc_out s)
                            then (sc_out s)\<lparr>finished := True,
                                            final_status := dispatch_status_from_i32 rc\<rparr>
                            else sc_out s)\<rparr>) c
      in if \<not> response_started (sc_out (streams c ! i))
         then (case submit_response_for ops call_id c of
                 (Inl _, c) \<Rightarrow> upd_at i (\<lambda>s. s\<lparr>sc_state := StCancelled\<rparr>) c
               | (Inr _, c) \<Rightarrow> c)
         else c)"

definition find_method :: "bytes \<Rightarrow> 'n conn \<Rightarrow> method_entry option" where
  "find_method path c = find (\<lambda>e. me_path e = path) (methods c)"

definition dispatch_stream :: "'n ng_ops \<Rightarrow> handlers \<Rightarrow> nat \<Rightarrow> nat \<times> 'n conn \<Rightarrow> nat \<times> 'n conn"
  where
  "dispatch_stream ops H i nc =
     (case nc of (cnt, c) \<Rightarrow>
        let s = streams c ! i
        in if sc_state s \<noteq> StComplete then (cnt, c)
           else case decode_header (sc_request s) (max_message_len c) of
                  Inl _ \<Rightarrow> (cnt + 1, reject_stream ops Internal i c)
                | Inr header \<Rightarrow>
                    let payload_len = unat (fh_payload_len header)
                    in if length (sc_request s) < FRAME_HEADER_LEN + payload_len
                       then (cnt + 1, reject_stream ops Internal i c)
                       else case find_method (sc_path s) c of
                              None \<Rightarrow> (cnt + 1, reject_stream ops Unimplemented i c)
                            | Some m \<Rightarrow>
                                let c = (case me_backpressure m of
                                           None \<Rightarrow> c
                                         | Some bp \<Rightarrow> upd_at i (\<lambda>s. s\<lparr>sc_out :=
                                             (sc_out s)\<lparr>oq_backpressure := bp\<rparr>\<rparr>) c);
                                    call_id = sc_id (streams c ! i);
                                    payload = take payload_len
                                      (drop FRAME_HEADER_LEN (sc_request (streams c ! i)));
                                    (rc, c) = run_handler ops
                                      (H (me_handler m) (me_user_data m) call_id payload) c
                                in (cnt + 1, after_handler ops rc call_id i c))"

definition dispatch :: "'n ng_ops \<Rightarrow> handlers \<Rightarrow> 'n conn \<Rightarrow> nat \<times> 'n conn" where
  "dispatch ops H c = fold (dispatch_stream ops H) [0..<length (streams c)] (0, c)"

section \<open>Handlers are bounded\<close>

interpretation dispatch_status: status_codec status_code dispatch_status_from_i32 Unknown
proof (standard, goal_cases)
  case (1 s)
  then show ?case by (cases s) (simp_all add: dispatch_status_from_i32_def transmute_status_def)
next
  case (2 s)
  then show ?case by (cases s) simp_all
next
  case (3 c)
  from code_range_cases [OF this] show ?case
    by (auto simp: dispatch_status_from_i32_def transmute_status_def)
next
  case (4 c)
  then show ?case by (auto simp: dispatch_status_from_i32_def)
qed

lemma run_api_step: "conn_step c (snd (run_api ops op c))"
  by (cases op)
     (simp_all add: split_beta Let_def api_steps finish_call_def finish_call_msg_def)

lemma run_handler_step: "conn_step c (snd (run_handler ops h c))"
proof (induction h arbitrary: c)
  case (HCall op k)
  obtain r c1 where r: "run_api ops op c = (r, c1)" by fastforce
  then have "conn_step c c1" using run_api_step [of c ops op] by simp
  moreover have "conn_step c1 (snd (run_handler ops (k r) c1))" using HCall.IH by blast
  ultimately show ?case using r by (simp add: conn_step_trans)
qed simp

lemma conn_step_nth:
  assumes "conn_step c c'" and "i < length (streams c)"
  shows "stream_step (streams c ! i) (streams c' ! i)" and "length (streams c') = length (streams c)"
  using assms by (auto simp: conn_step_def list_all2_conv_all_nth)

section \<open>The invariant\<close>

lemma upd_at_fields [simp]:
  "session (upd_at i f c) = session c" "methods (upd_at i f c) = methods c"
  "max_message_len (upd_at i f c) = max_message_len c" "conn_fd (upd_at i f c) = conn_fd c"
  "out_pending (upd_at i f c) = out_pending c" "installed (upd_at i f c) = installed c"
  "fired (upd_at i f c) = fired c" "length (streams (upd_at i f c)) = length (streams c)"
  by (simp_all add: upd_at_def)

lemma upd_at_nth: "i < length (streams c) \<Longrightarrow> streams (upd_at i f c) ! i = f (streams c ! i)"
  by (simp add: upd_at_def)

lemma held_cong: "map sc_cancel_hook ss = map sc_cancel_hook ts \<Longrightarrow> held ss = held ts"
proof -
  have "List.map_filter sc_cancel_hook xs = List.map_filter id (map sc_cancel_hook xs)" for xs
    by (induction xs) (simp_all add: map_filter_simps split: option.splits)
  then show "map sc_cancel_hook ss = map sc_cancel_hook ts \<Longrightarrow> held ss = held ts"
    unfolding held_def by metis
qed

lemma conn_inv_upd_at:
  assumes "conn_inv c" and "i < length (streams c)"
    and "\<And>s. stream_inv (max_message_len c) s \<Longrightarrow> stream_inv (max_message_len c) (f s)"
    and "\<And>s. sc_cancel_hook (f s) = sc_cancel_hook s"
  shows "conn_inv (upd_at i f c)"
proof -
  have "list_all (stream_inv (max_message_len c)) (streams (upd_at i f c))"
    using assms(1-3) unfolding upd_at_def conn_inv_def
    by (auto simp: list_all_length nth_list_update)
  moreover have "held (streams (upd_at i f c)) = held (streams c)"
    using assms(2,4) by (intro held_cong) (simp add: upd_at_def map_update list_update_same_conv)
  ultimately show ?thesis using assms(1) by (simp add: conn_inv_def hook_inv_def)
qed

lemma submit_response_inv:
  assumes "conn_inv c"
  shows "conn_inv (snd (submit_response_for ops i c))"
proof -
  have "conn_inv (upd_stream i (\<lambda>s. s\<lparr>sc_out := (sc_out s)\<lparr>response_started := True\<rparr>\<rparr>)
      (c\<lparr>session := n\<rparr>))" for n
    using assms by (intro conn_inv_upd_stream)
      (auto simp: stream_inv_def message_inv_def queue_inv_def split: option.splits)
  with assms show ?thesis by (auto simp: submit_response_for_def Let_def split: prod.splits)
qed

lemma finalize_error_inv:
  "stream_inv m s \<Longrightarrow> stream_inv m (finalize_error status s)"
  by (auto simp: stream_inv_def message_inv_def queue_inv_def finalize_error_def
      split: option.splits)

lemma reject_stream_inv:
  assumes "conn_inv c" and "i < length (streams c)"
  shows "conn_inv (reject_stream ops status i c)"
proof -
  have "conn_inv (upd_at i (finalize_error status) c)"
    using assms by (intro conn_inv_upd_at finalize_error_inv) (simp_all add: finalize_error_def)
  then show ?thesis by (simp add: reject_stream_def submit_response_inv Let_def)
qed

lemma submit_response_length [simp]:
  "length (streams (snd (submit_response_for ops i c))) = length (streams c)"
  by (simp add: submit_response_for_def upd_stream_def split_beta Let_def)

lemma after_handler_inv:
  assumes "conn_inv c" and "i < length (streams c)"
  shows "conn_inv (after_handler ops rc call_id i c)"
proof -
  let ?f = "\<lambda>s. s\<lparr>sc_state := StDispatched,
      sc_out := (if rc \<noteq> 0 \<and> \<not> finished (sc_out s)
                 then (sc_out s)\<lparr>finished := True, final_status := dispatch_status_from_i32 rc\<rparr>
                 else sc_out s)\<rparr>"
  have 1: "conn_inv (upd_at i ?f c)"
    using assms by (intro conn_inv_upd_at)
      (auto simp: stream_inv_def message_inv_def queue_inv_def split: option.splits)
  then have 2: "conn_inv (snd (submit_response_for ops call_id (upd_at i ?f c)))"
    by (rule submit_response_inv)
  then have "conn_inv (upd_at i (\<lambda>s. s\<lparr>sc_state := StCancelled\<rparr>)
      (snd (submit_response_for ops call_id (upd_at i ?f c))))"
    using assms(2) by (intro conn_inv_upd_at) (auto simp: stream_inv_def)
  with 1 2 show ?thesis
    by (cases "submit_response_for ops call_id (upd_at i ?f c)")
       (auto simp: after_handler_def Let_def split: sum.splits)
qed

section \<open>The branches of dispatch\<close>

text \<open>
  The request as the protocol sees it: a whole frame with a payload within the limit, possibly
  followed by more bytes.
\<close>

definition request_payload :: "'n conn \<Rightarrow> bytes \<Rightarrow> bytes option" where
  "request_payload c req =
     (case decode_header req (max_message_len c) of
        Inl _ \<Rightarrow> None
      | Inr h \<Rightarrow> if length req < FRAME_HEADER_LEN + unat (fh_payload_len h) then None
                 else Some (take (unat (fh_payload_len h)) (drop FRAME_HEADER_LEN req)))"

definition with_backpressure :: "nat \<Rightarrow> method_entry \<Rightarrow> 'n conn \<Rightarrow> 'n conn" where
  "with_backpressure i m c =
     (case me_backpressure m of
        None \<Rightarrow> c
      | Some bp \<Rightarrow> upd_at i (\<lambda>s. s\<lparr>sc_out := (sc_out s)\<lparr>oq_backpressure := bp\<rparr>\<rparr>) c)"

lemma request_payload_frame:
  "request_payload c req = Some p \<longleftrightarrow>
     (\<exists>rest. req = frame p @ rest) \<and> length p \<le> unat (max_message_len c)"
proof
  assume l: "request_payload c req = Some p"
  then obtain h where d: "decode_header req (max_message_len c) = Inr h"
    and len: "FRAME_HEADER_LEN + unat (fh_payload_len h) \<le> length req"
    and p: "p = take (unat (fh_payload_len h)) (drop FRAME_HEADER_LEN req)"
    by (auto simp: request_payload_def split: sum.splits if_splits)
  from d obtain rest where req: "req = encode_header False (fh_payload_len h) @ rest"
    and max: "fh_payload_len h \<le> max_message_len c" by (rule decode_header_InrE)
  have lp: "length p = unat (fh_payload_len h)" using p len by simp
  then have "req = frame p @ drop (unat (fh_payload_len h)) rest"
    using req p by (simp add: frame_def)
  with lp max show "(\<exists>rest. req = frame p @ rest) \<and> length p \<le> unat (max_message_len c)"
    by (auto simp: word_le_nat_alt)
next
  assume r: "(\<exists>rest. req = frame p @ rest) \<and> length p \<le> unat (max_message_len c)"
  then obtain rest where req: "req = frame p @ rest" by blast
  note d = decode_frame [of p "max_message_len c" rest] and u = unat_of_nat_length [of p]
  show "request_payload c req = Some p"
    using r d u [of "max_message_len c"] req
    by (simp add: request_payload_def length_frame) (simp add: frame_def)
qed

lemma dispatch_stream_eq:
  assumes "i < length (streams c)"
  defines "s \<equiv> streams c ! i"
  shows "dispatch_stream ops H i (n, c) =
    (if sc_state s \<noteq> StComplete then (n, c)
     else case request_payload c (sc_request s) of
            None \<Rightarrow> (n + 1, reject_stream ops Internal i c)
          | Some p \<Rightarrow>
              (case find_method (sc_path s) c of
                 None \<Rightarrow> (n + 1, reject_stream ops Unimplemented i c)
               | Some m \<Rightarrow>
                   (case run_handler ops (H (me_handler m) (me_user_data m) (sc_id s) p)
                           (with_backpressure i m c) of
                      (rc, c2) \<Rightarrow> (n + 1, after_handler ops rc (sc_id s) i c2))))"
  using assms(1) unfolding s_def
  by (auto simp: dispatch_stream_def request_payload_def with_backpressure_def upd_at_nth Let_def
      split: sum.splits option.splits prod.splits)

lemma with_backpressure_step:
  assumes "i < length (streams c)"
  shows "conn_step c (with_backpressure i m c)"
proof -
  have "conn_step c (upd_at i (\<lambda>s. s\<lparr>sc_out := (sc_out s)\<lparr>oq_backpressure := bp\<rparr>\<rparr>) c)" for bp
  proof -
    let ?f = "\<lambda>s. s\<lparr>sc_out := (sc_out s)\<lparr>oq_backpressure := bp\<rparr>\<rparr>"
    have "held (streams (upd_at i ?f c)) = held (streams c)"
      using assms by (intro held_cong) (simp add: upd_at_def map_update list_update_same_conv)
    moreover have "list_all2 stream_step (streams c) (streams (upd_at i ?f c))"
      using assms by (auto simp: upd_at_def list_all2_conv_all_nth nth_list_update stream_step_def
          queue_step_def queue_inv_def message_inv_def split: option.splits)
    ultimately show ?thesis by (simp add: conn_step_def hook_inv_def)
  qed
  then show ?thesis by (simp add: with_backpressure_def split: option.splits)
qed

text \<open>The connection the handler leaves behind.\<close>

lemma handler_step:
  assumes "i < length (streams c)"
    and "run_handler ops h (with_backpressure i m c) = (rc, c2)"
  shows "conn_step c c2"
  using run_handler_step [of "with_backpressure i m c" ops h] assms
  by (auto intro: conn_step_trans [OF with_backpressure_step])

lemma dispatch_stream_inv:
  assumes "conn_inv c" and "i < length (streams c)"
  shows "conn_inv (snd (dispatch_stream ops H i (n, c)))"
proof -
  have "conn_inv (after_handler ops rc (sc_id (streams c ! i)) i c2)"
    if "run_handler ops h (with_backpressure i m c) = (rc, c2)" for h m rc c2
    using conn_step_inv [OF handler_step [OF assms(2) that] assms(1)]
      conn_step_nth(2) [OF handler_step [OF assms(2) that] assms(2)] assms(2)
    by (intro after_handler_inv) simp_all
  with assms show ?thesis
    by (auto simp: dispatch_stream_eq reject_stream_inv split: option.splits prod.splits)
qed

section \<open>Every complete request is answered\<close>

abbreviation states :: "'n conn \<Rightarrow> stream_state list" where
  "states c \<equiv> map sc_state (streams c)"

lemma submit_states: "states (snd (submit_response_for ops i c)) = states c"
  by (simp add: submit_response_for_def upd_stream_def split_beta Let_def map_upd_first)

lemma reject_states:
  "i < length (streams c) \<Longrightarrow> states (reject_stream ops st i c) = (states c)[i := StDispatched]"
  by (simp add: reject_stream_def Let_def submit_states)
     (simp add: upd_at_def map_update finalize_error_def)

lemma after_handler_states:
  assumes "i < length (streams c)"
  shows "\<exists>x. x \<noteq> StComplete \<and> states (after_handler ops rc call_id i c) = (states c)[i := x]"
proof -
  let ?f = "\<lambda>s. s\<lparr>sc_state := StDispatched,
      sc_out := (if rc \<noteq> 0 \<and> \<not> finished (sc_out s)
                 then (sc_out s)\<lparr>finished := True, final_status := dispatch_status_from_i32 rc\<rparr>
                 else sc_out s)\<rparr>"
  let ?c = "upd_at i ?f c"
  obtain r c3 where sub: "submit_response_for ops call_id ?c = (r, c3)" by fastforce
  have st: "states ?c = (states c)[i := StDispatched]" by (simp add: upd_at_def map_update)
  have c3: "states c3 = (states c)[i := StDispatched]" "length (streams c3) = length (streams c)"
    using submit_states [of ops call_id ?c] submit_response_length [of ops call_id ?c] sub st
    by simp_all
  then have "states (upd_at i (\<lambda>s. s\<lparr>sc_state := StCancelled\<rparr>) c3) = (states c)[i := StCancelled]"
    by (simp add: upd_at_def map_update)
  with sub st c3 show ?thesis
    by (auto simp: after_handler_def Let_def split: sum.splits)
qed

lemma conn_step_states: "conn_step c c' \<Longrightarrow> states c' = states c"
  by (auto simp: conn_step_def stream_step_def list_all2_conv_all_nth intro: nth_equalityI)

lemma dispatch_stream_states:
  assumes "i < length (streams c)" and "dispatch_stream ops H i (n, c) = (n', c')"
  shows "if states c ! i = StComplete
    then n' = n + 1 \<and> (\<exists>x. x \<noteq> StComplete \<and> states c' = (states c)[i := x])
    else n' = n \<and> states c' = states c"
proof -
  have run: "\<exists>x. x \<noteq> StComplete
      \<and> states (after_handler ops rc (sc_id (streams c ! i)) i c2) = (states c)[i := x]"
    if "run_handler ops h (with_backpressure i m c) = (rc, c2)" for h m rc c2
    using after_handler_states [of i c2 ops rc] conn_step_states [OF handler_step [OF assms(1) that]]
      conn_step_nth(2) [OF handler_step [OF assms(1) that] assms(1)] assms(1) by simp
  show ?thesis
    using assms run reject_states [OF assms(1), of ops]
    by (auto simp: dispatch_stream_eq split: option.splits prod.splits if_splits)
qed

lemma dispatch_prefix:
  assumes "k \<le> length (streams c)"
    and "fold (dispatch_stream ops H) [0..<k] (0, c) = (n, c')"
  shows "length (states c') = length (states c)
    \<and> n = length (filter (\<lambda>x. x = StComplete) (take k (states c)))
    \<and> (\<forall>j < length (states c). if j < k then states c' ! j \<noteq> StComplete
                              else states c' ! j = states c ! j)"
  using assms
proof (induction k arbitrary: n c')
  case (Suc k)
  obtain n1 c1 where pre: "fold (dispatch_stream ops H) [0..<k] (0, c) = (n1, c1)" by fastforce
  have "k \<le> length (streams c)" using Suc.prems(1) by simp
  note IH = Suc.IH [OF this pre]
  have at: "states c1 ! k = states c ! k"
    using IH [THEN conjunct2, THEN conjunct2, THEN spec, of k] Suc.prems(1) by simp
  have step: "dispatch_stream ops H k (n1, c1) = (n, c')"
    using Suc.prems(2) pre by (simp add: upt_Suc_append)
  have k: "k < length (streams c1)" using IH [THEN conjunct1] Suc.prems(1) by simp
  have tk: "take (Suc k) (states c) = take k (states c) @ [states c ! k]"
    using Suc.prems(1) by (simp add: take_Suc_conv_app_nth)
  show ?case
  proof (cases "states c ! k = StComplete")
    case True
    with dispatch_stream_states [OF k step] at
    obtain x where x: "x \<noteq> StComplete" "states c' = (states c1)[k := x]" "n = n1 + 1" by auto
    show ?thesis unfolding x(2,3) tk using IH True x(1) k
      by (auto simp: nth_list_update less_Suc_eq simp del: nth_map)
  next
    case False
    with dispatch_stream_states [OF k step] at
    have x: "states c' = states c1" "n = n1" by auto
    show ?thesis unfolding x tk using IH False at k
      by (auto simp: less_Suc_eq simp del: nth_map)
  qed
qed simp

lemma dispatch_inv:
  assumes "conn_inv c"
  shows "conn_inv (snd (dispatch ops H c))"
proof -
  have "k \<le> length (streams c) \<Longrightarrow>
      conn_inv (snd (fold (dispatch_stream ops H) [0..<k] (0, c)))" for k
  proof (induction k)
    case (Suc k)
    obtain n1 c1 where pre: "fold (dispatch_stream ops H) [0..<k] (0, c) = (n1, c1)" by fastforce
    have "k < length (streams c1)"
      using dispatch_prefix [OF _ pre] Suc.prems by simp
    then show ?case
      using dispatch_stream_inv [of c1 k] Suc pre by (simp add: upt_Suc_append)
  qed (simp add: assms)
  then show ?thesis by (simp add: dispatch_def)
qed

section \<open>What one dispatch does\<close>

lemma upd_at_ids:
  assumes "i < length (streams c)" and "\<And>s. sc_id (f s) = sc_id s"
  shows "map sc_id (streams (upd_at i f c)) = map sc_id (streams c)"
  using assms by (auto simp: upd_at_def nth_list_update intro: nth_equalityI)

lemma submit_at:
  assumes "distinct (map sc_id (streams c))" and "i < length (streams c)"
  shows "streams (snd (submit_response_for ops (sc_id (streams c ! i)) c)) =
    (if snd (ng_submit_response ops (session c) (sc_id (streams c ! i)) response_headers) \<noteq> 0
     then streams c
     else (streams c)[i := (streams c ! i)\<lparr>sc_out :=
            (sc_out (streams c ! i))\<lparr>response_started := True\<rparr>\<rparr>])"
  using upd_first_at [OF assms]
  by (simp add: submit_response_for_def upd_stream_def split_beta Let_def)

lemma reject_at:
  assumes "distinct (map sc_id (streams c))" and "i < length (streams c)"
  shows "\<exists>b. streams (reject_stream ops st i c) ! i =
    (let s = finalize_error st (streams c ! i)
     in s\<lparr>sc_out := (sc_out s)\<lparr>response_started := b\<rparr>\<rparr>)"
proof -
  let ?c = "upd_at i (finalize_error st) c"
  have d: "distinct (map sc_id (streams ?c))" and i: "i < length (streams ?c)"
    using assms by (simp_all add: upd_at_ids finalize_error_def)
  show ?thesis
    using submit_at [OF d i, of ops] assms(2)
    by (auto simp: reject_stream_def Let_def upd_at_nth intro: exI [of _ True]
        exI [of _ "response_started (sc_out (finalize_error st (streams c ! i)))"])
qed

lemma after_handler_at:
  assumes "distinct (map sc_id (streams c))" and "i < length (streams c)"
    and q_def: "q = sc_out (streams c ! i)"
    and q'_def: "q' = sc_out (streams (after_handler ops rc (sc_id (streams c ! i)) i c) ! i)"
  shows "messages q' = messages q \<and> (finished q' \<longleftrightarrow> finished q \<or> rc \<noteq> 0)
    \<and> final_status q' = (if finished q \<or> rc = 0 then final_status q
                         else dispatch_status_from_i32 rc)
    \<and> final_message q' = final_message q"
proof -
  let ?f = "\<lambda>s. s\<lparr>sc_state := StDispatched,
      sc_out := (if rc \<noteq> 0 \<and> \<not> finished (sc_out s)
                 then (sc_out s)\<lparr>finished := True, final_status := dispatch_status_from_i32 rc\<rparr>
                 else sc_out s)\<rparr>"
  let ?c = "upd_at i ?f c"
  have d: "distinct (map sc_id (streams ?c))" and i: "i < length (streams ?c)"
    using assms(1,2) by (simp_all add: upd_at_ids)
  have id: "sc_id (streams ?c ! i) = sc_id (streams c ! i)" using assms(2) by (simp add: upd_at_nth)
  obtain r c3 where sub: "submit_response_for ops (sc_id (streams c ! i)) ?c = (r, c3)"
    by fastforce
  have c3: "\<exists>b. sc_out (streams c3 ! i) = (sc_out (streams ?c ! i))\<lparr>response_started := b\<rparr>"
    "i < length (streams c3)"
    using submit_at [OF d i, of ops] sub assms(2) unfolding id
    by (auto split: if_splits intro: exI [of _ "response_started (sc_out (streams ?c ! i))"])
  have "\<exists>b. q' = (sc_out (?f (streams c ! i)))\<lparr>response_started := b\<rparr>"
    using c3 sub assms(2) unfolding q'_def
    by (auto simp: after_handler_def Let_def upd_at_nth split: sum.splits if_splits
        intro: exI [of _ "response_started (sc_out (streams c ! i))"])
  then show ?thesis by (auto simp: q_def)
qed

definition demo_request :: stream_ctx where
  "demo_request = (demo_stream 1 None)\<lparr>sc_state := StComplete, sc_path := ascii ''/x/Y'',
                     sc_request := [0, 0, 0, 0, 1, 9]\<rparr>"

definition demo_handlers :: handlers where
  "demo_handlers = (\<lambda>_ _ _ _. HRet 0)"

section \<open>Properties\<close>

text \<open>
  C26. One dispatch pass answers every request that is complete: whatever the handlers and
  nghttp2 do, afterwards no stream is left in the complete state, and the pass reports exactly
  the number of streams that were.
\<close>

theorem dispatch_answers_all:
  "fst (dispatch ops H c) = length (filter (\<lambda>s. sc_state s = StComplete) (streams c))
   \<and> list_all (\<lambda>s. sc_state s \<noteq> StComplete) (streams (snd (dispatch ops H c)))"
proof -
  obtain n c' where d: "fold (dispatch_stream ops H) [0..<length (streams c)] (0, c) = (n, c')"
    by fastforce
  note p = dispatch_prefix [OF order_refl d]
  have "n = length (filter (\<lambda>s. sc_state s = StComplete) (streams c))"
    using p by (simp add: filter_map o_def)
  moreover have "list_all (\<lambda>s. sc_state s \<noteq> StComplete) (streams c')"
    using p by (auto simp: list_all_length)
  ultimately show ?thesis using d by (simp add: dispatch_def)
qed

lemma verdict_malformed:
  assumes "distinct (map sc_id (streams c))" and "i < length (streams c)"
    and "s = streams c ! i" "sc_state s = StComplete"
    and "dispatch_stream ops H i (n, c) = (n', c')"
    and "\<nexists>p rest. sc_request s = frame p @ rest \<and> length p \<le> unat (max_message_len c)"
  shows "finished (sc_out (streams c' ! i)) \<and> final_status (sc_out (streams c' ! i)) = Internal
    \<and> messages (sc_out (streams c' ! i)) = messages (sc_out s)"
proof -
  have "\<forall>p. request_payload c (sc_request s) \<noteq> Some p"
    unfolding request_payload_frame using assms(6) by blast
  then have "c' = reject_stream ops Internal i c"
    using assms(2-5) by (simp add: dispatch_stream_eq)
  with reject_at [OF assms(1,2), of ops Internal] assms(3) show ?thesis
    by (auto simp: finalize_error_def Let_def)
qed

lemma verdict_unimplemented:
  assumes "distinct (map sc_id (streams c))" and "i < length (streams c)"
    and "s = streams c ! i" "sc_state s = StComplete"
    and "dispatch_stream ops H i (n, c) = (n', c')"
    and "sc_request s = frame p @ rest" "length p \<le> unat (max_message_len c)"
    and "find_method (sc_path s) c = None"
  shows "finished (sc_out (streams c' ! i))
    \<and> final_status (sc_out (streams c' ! i)) = Unimplemented
    \<and> messages (sc_out (streams c' ! i)) = messages (sc_out s)"
proof -
  have "request_payload c (sc_request s) = Some p" using assms(6,7) request_payload_frame by blast
  then have "c' = reject_stream ops Unimplemented i c"
    using assms(2-5,8) by (simp add: dispatch_stream_eq)
  with reject_at [OF assms(1,2), of ops Unimplemented] assms(3) show ?thesis
    by (auto simp: finalize_error_def Let_def)
qed

lemma verdict_handled:
  assumes "distinct (map sc_id (streams c))" and "i < length (streams c)"
    and "s = streams c ! i" "sc_state s = StComplete"
    and "dispatch_stream ops H i (n, c) = (n', c')"
    and "sc_request s = frame p @ rest" "length p \<le> unat (max_message_len c)"
    and "find_method (sc_path s) c = Some m"
    and run: "run_handler ops (H (me_handler m) (me_user_data m) (sc_id s) p)
               (with_backpressure i m c) = (rc, c2)"
  shows "messages (sc_out (streams c' ! i)) = messages (sc_out (streams c2 ! i))
    \<and> (finished (sc_out (streams c' ! i)) \<longleftrightarrow> finished (sc_out (streams c2 ! i)) \<or> rc \<noteq> 0)
    \<and> final_status (sc_out (streams c' ! i)) =
        (if finished (sc_out (streams c2 ! i)) \<or> rc = 0
         then final_status (sc_out (streams c2 ! i)) else dispatch_status_from_i32 rc)"
proof -
  have "request_payload c (sc_request s) = Some p" using assms(6,7) request_payload_frame by blast
  then have c': "c' = after_handler ops rc (sc_id s) i c2"
    using assms(2-5,8) run by (simp add: dispatch_stream_eq)
  have step: "conn_step c c2" by (rule handler_step [OF assms(2) run])
  then have "map sc_id (streams c2) = map sc_id (streams c)"
    by (auto simp: conn_step_def stream_step_def list_all2_conv_all_nth intro: nth_equalityI)
  then have d2: "distinct (map sc_id (streams c2))" and i2: "i < length (streams c2)"
    and id2: "sc_id (streams c2 ! i) = sc_id s"
    using assms(1-3) conn_step_nth [OF step assms(2)] by (auto simp: stream_step_def)
  from after_handler_at [OF d2 i2 refl refl, of ops rc] show ?thesis
    unfolding c' id2 by blast
qed

text \<open>
  C4. The verdict on one complete request. A request that does not start with a whole
  uncompressed frame within the size limit is answered \<open>INTERNAL\<close>, one for an unregistered
  path \<open>UNIMPLEMENTED\<close>, both without running a handler and without a message. Otherwise the
  first handler registered for the path runs on exactly the payload of the frame, and the
  call ends with the status the handler finished it with, or else with its non-zero return
  code; a handler that returns zero without finishing leaves the call open.
\<close>

theorem dispatch_verdict:
  assumes "distinct (map sc_id (streams c))" and "i < length (streams c)"
    and s: "s = streams c ! i" "sc_state s = StComplete"
    and run: "dispatch_stream ops H i (n, c) = (n', c')"
    and q: "q = sc_out (streams c' ! i)"
  shows "((\<nexists>p rest. sc_request s = frame p @ rest \<and> length p \<le> unat (max_message_len c)) \<longrightarrow>
      finished q \<and> final_status q = Internal \<and> messages q = messages (sc_out s))
    \<and> (\<forall>p rest. sc_request s = frame p @ rest \<longrightarrow> length p \<le> unat (max_message_len c) \<longrightarrow>
        find_method (sc_path s) c = None \<longrightarrow>
        finished q \<and> final_status q = Unimplemented \<and> messages q = messages (sc_out s))
    \<and> (\<forall>p rest m rc c2. sc_request s = frame p @ rest \<longrightarrow> length p \<le> unat (max_message_len c) \<longrightarrow>
        find_method (sc_path s) c = Some m \<longrightarrow>
        run_handler ops (H (me_handler m) (me_user_data m) (sc_id s) p) (with_backpressure i m c)
          = (rc, c2) \<longrightarrow>
        messages q = messages (sc_out (streams c2 ! i))
        \<and> (finished q \<longleftrightarrow> finished (sc_out (streams c2 ! i)) \<or> rc \<noteq> 0)
        \<and> final_status q = (if finished (sc_out (streams c2 ! i)) \<or> rc = 0
                            then final_status (sc_out (streams c2 ! i))
                            else dispatch_status_from_i32 rc))"
  using verdict_malformed [OF assms(1,2) s run] verdict_unimplemented [OF assms(1,2) s run]
    verdict_handled [OF assms(1,2) s run] unfolding q by blast

theorem dispatch_verdict_witness:
  "let c = demo_conn [demo_request];
       q = sc_out (streams (snd (dispatch_stream demo_ops demo_handlers 0 (0, c))) ! 0)
   in sc_request demo_request = frame [9] @ [] \<and> find_method (sc_path demo_request) c = None
      \<and> finished q \<and> final_status q = Unimplemented"
proof -
  let ?c = "demo_conn [demo_request]"
  have r: "sc_request demo_request = frame [9] @ []"
    by (simp add: demo_request_def frame_def encode_header_def to_be_bytes_def)
  have m: "find_method (sc_path demo_request) ?c = None"
    by (simp add: find_method_def demo_conn_def)
  have d: "dispatch_stream demo_ops demo_handlers 0 (0, ?c)
      = (fst (dispatch_stream demo_ops demo_handlers 0 (0, ?c)), snd (dispatch_stream demo_ops demo_handlers 0 (0, ?c)))"
    by simp
  have c: "distinct (map sc_id (streams ?c))" "0 < length (streams ?c)"
    "demo_request = streams ?c ! 0" "sc_state demo_request = StComplete"
    "length [9 :: byte] \<le> unat (max_message_len ?c)"
    by (simp_all add: demo_conn_def demo_request_def)
  show ?thesis
    using dispatch_verdict [OF c(1-4) d refl] r m c(5) unfolding Let_def by blast
qed

end
