(* ===== verification/Conn_Machine.thy ===== *)
theory Conn_Machine
  imports Dispatch
begin

text \<open>
  A server connection as a state machine: the states reachable from \<open>new_server\<close> by the public
  operations of \<open>Conn\<close>, in any order, with any handlers and with any behaviour of nghttp2 behind
  \<open>recv\<close> and \<open>pull_send\<close>. The invariant of the connection holds in all of them.
\<close>

inductive conn_reach :: "'n ng_ops \<Rightarrow> handlers \<Rightarrow> 'n conn \<times> net \<Rightarrow> bool"
  for ops :: "'n ng_ops" and H :: handlers where
  start: "new_server ops cbs opt sess = Inr c \<Longrightarrow> conn_reach ops H (c, w)"
| register: "conn_reach ops H (c, w) \<Longrightarrow>
    conn_reach ops H (snd (register_method_inner al path h ud bp c), w)"
| api: "conn_reach ops H (c, w) \<Longrightarrow> conn_reach ops H (snd (run_api ops op c), w)"
| expire: "conn_reach ops H (c, w) \<Longrightarrow> conn_reach ops H (expire_deadlines ops now c, w)"
| dispatch: "conn_reach ops H (c, w) \<Longrightarrow> conn_reach ops H (snd (dispatch ops H c), w)"
| recv: "conn_reach ops H cw \<Longrightarrow> conn_reach ops H (snd (recv ops data cw))"
| pull: "conn_reach ops H cw \<Longrightarrow> conn_reach ops H (snd (pull_send ops cw))"
| set_fd: "conn_reach ops H (c, w) \<Longrightarrow> conn_reach ops H (set_fd fd c, w)"
| consume: "conn_reach ops H (c, w) \<Longrightarrow> conn_reach ops H (consume_pending n c, w)"
| stash: "conn_reach ops H (c, w) \<Longrightarrow> conn_reach ops H (snd (stash_pending al bs c), w)"
| socket: "conn_reach ops H (c, w) \<Longrightarrow> conn_reach ops H (c, w')"

inductive_cases reach_elim: "conn_reach ops H (c, w)"

section \<open>The size limit never changes\<close>

lemma run_cb_max: "max_message_len (fst (snd (run_cb ops e cb (c, w)))) = max_message_len c"
  by (cases cb) (auto simp: on_begin_headers_def on_header_def on_frame_recv_def Let_def
      on_data_chunk_recv_def on_stream_close_def data_provider_read_def send_data_def
      split: prod.splits option.splits sum.splits)

lemma run_ng_max: "run_ng ops t (c, w) = (rc, out, c', w') \<Longrightarrow> max_message_len c' = max_message_len c"
proof (induction t arbitrary: c w)
  case (NgCall cb e n k)
  obtain r c1 w1 where cb: "run_cb ops e cb (c\<lparr>session := n\<rparr>, w) = (r, c1, w1)"
    by (metis prod_cases3)
  then have "run_ng ops (k (session c1) r) (c1, w1) = (rc, out, c', w')"
    using NgCall.prems by simp
  then have "max_message_len c' = max_message_len c1" using NgCall.IH by blast
  with run_cb_max [of ops e cb "c\<lparr>session := n\<rparr>" w] cb show ?case by simp
qed auto

lemma recv_max: "max_message_len (fst (snd (recv ops data cw))) = max_message_len (fst cw)"
  by (cases cw) (auto simp: recv_def Let_def dest: run_ng_max split: prod.splits)

lemma pull_send_max: "max_message_len (fst (snd (pull_send ops cw))) = max_message_len (fst cw)"
  by (cases cw) (auto simp: pull_send_def Let_def dest: run_ng_max split: prod.splits)

text \<open>What handlers, dispatch and expiry leave alone.\<close>

definition fixed :: "'n conn \<Rightarrow> method_entry list \<times> u32 \<times> int \<times> bytes" where
  "fixed c = (methods c, max_message_len c, conn_fd c, out_pending c)"

lemma conn_step_fixed: "conn_step c c' \<Longrightarrow> fixed c' = fixed c"
  by (simp add: conn_step_def fixed_def)

lemma upd_at_fixed [simp]: "fixed (upd_at i f c) = fixed c"
  by (simp add: fixed_def)

lemma submit_response_fixed: "fixed (snd (submit_response_for ops i c)) = fixed c"
  by (simp add: fixed_def submit_response_for_def split_beta Let_def)

lemma after_handler_fixed: "fixed (after_handler ops rc call_id i c) = fixed c"
proof -
  have "fixed c3 = fixed c0" if "submit_response_for ops call_id c0 = (r, c3)"
    for c0 c3 :: "'a conn" and r
    using submit_response_fixed [of ops call_id c0] that by simp
  then show ?thesis
    by (auto simp: after_handler_def Let_def split: sum.splits prod.splits)
qed

lemma dispatch_stream_fixed:
  assumes "i < length (streams c)"
  shows "fixed (snd (dispatch_stream ops H i (n, c))) = fixed c"
  using assms
  by (auto simp: dispatch_stream_eq reject_stream_def submit_response_fixed after_handler_fixed
      Let_def split: option.splits prod.splits dest!: conn_step_fixed [OF handler_step [OF assms]])

lemma dispatch_fixed: "fixed (snd (dispatch ops H c)) = fixed c"
proof -
  have "k \<le> length (streams c) \<Longrightarrow>
      fixed (snd (fold (dispatch_stream ops H) [0..<k] (0, c))) = fixed c" for k
  proof (induction k)
    case (Suc k)
    obtain n1 c1 where pre: "fold (dispatch_stream ops H) [0..<k] (0, c) = (n1, c1)" by fastforce
    have "k < length (streams c1)"
      using dispatch_prefix [OF _ pre] Suc.prems by simp
    then show ?case
      using dispatch_stream_fixed [of k c1 ops H n1] Suc pre by (simp add: upt_Suc_append)
  qed simp
  then show ?thesis by (simp add: dispatch_def)
qed

lemma expire_fixed: "fixed (expire_deadlines ops now c) = fixed c"
  unfolding expire_deadlines_def split_beta Let_def
  by (subst conn_step_fixed [OF conn_step_fold_finish]) (simp add: fixed_def)

lemma dispatch_max: "max_message_len (snd (dispatch ops H c)) = max_message_len c"
  and dispatch_pending: "out_pending (snd (dispatch ops H c)) = out_pending c"
  using dispatch_fixed [of ops H c] by (simp_all add: fixed_def)

lemma expire_max: "max_message_len (expire_deadlines ops now c) = max_message_len c"
  and expire_pending: "out_pending (expire_deadlines ops now c) = out_pending c"
  using expire_fixed [of ops now c] by (simp_all add: fixed_def)

lemmas max_simps = recv_max pull_send_max dispatch_max expire_max

section \<open>The invariant of all reachable connections\<close>

lemma conn_inv_frame:
  assumes "conn_inv c"
  shows "conn_inv (c\<lparr>methods := ms\<rparr>)" and "conn_inv (c\<lparr>conn_fd := fd\<rparr>)"
    and "conn_inv (c\<lparr>out_pending := bs\<rparr>)"
  using assms by (simp_all add: conn_inv_def hook_inv_def)

lemma new_server_inv:
  assumes "new_server ops cbs opt sess = Inr c"
  shows "conn_inv c \<and> max_message_len c = DEFAULT_MAX_MESSAGE_LEN"
  using assms by (auto simp: new_server_def submit_initial_settings_def conn_inv_def hook_inv_def
      Let_def split: sum.splits prod.splits if_splits)

lemma reach_inv:
  "conn_reach ops H cw \<Longrightarrow>
     conn_inv (fst cw) \<and> max_message_len (fst cw) = DEFAULT_MAX_MESSAGE_LEN"
proof (induction rule: conn_reach.induct)
  case (start cbs opt sess c w)
  then show ?case using new_server_inv [OF start] by simp
next
  case (register c w al path h ud bp)
  then show ?case by (auto simp: register_method_inner_def conn_inv_frame)
next
  case (api c w op)
  then show ?case
    using conn_step_inv [OF run_api_step [of c ops op]] conn_step_fixed [OF run_api_step [of c ops op]]
    by (simp add: fixed_def)
qed (auto simp: max_simps expire_deadlines_inv dispatch_inv recv_inv pull_send_inv set_fd_def
    consume_pending_def stash_pending_def conn_inv_frame)

section \<open>Properties\<close>

text \<open>
  C1. In every reachable state of a server connection, for arbitrary handlers and arbitrary
  behaviour of nghttp2: each stream's outgoing queue is well-formed, no stream has buffered
  more request bytes than the 16 MiB limit, a stored \<open>grpc-message\<close> belongs to a finished call
  and is printable, and the cancel hooks that have fired, with those that still can, are among
  the ones installed, each at most as often as it was installed.
\<close>

theorem reachable_invariant:
  assumes "conn_reach ops H (c, w)"
  shows "list_all (\<lambda>s. queue_inv (sc_out s) \<and> message_inv (sc_out s)
           \<and> length (sc_request s) \<le> 16 * 1024 * 1024) (streams c)
    \<and> mset (fired c) + held (streams c) \<subseteq># mset (installed c)"
proof -
  have inv: "conn_inv c" and max: "max_message_len c = DEFAULT_MAX_MESSAGE_LEN"
    using reach_inv [OF assms] by auto
  have "unat DEFAULT_MAX_MESSAGE_LEN = 16 * 1024 * 1024" by (simp add: DEFAULT_MAX_MESSAGE_LEN_def)
  with inv max show ?thesis
    by (auto simp: conn_inv_def stream_inv_def hook_inv_def list_all_iff)
qed

definition demo_net :: net where
  "demo_net = \<lparr>net_sends = [], net_reads = [], net_wire = [], net_emitted = []\<rparr>"

theorem reachable_invariant_witness:
  "let c = expire_deadlines demo_ops 5 (demo_conn []\<lparr>max_message_len := DEFAULT_MAX_MESSAGE_LEN\<rparr>)
   in conn_reach demo_ops demo_handlers (c, demo_net)
      \<and> mset (fired c) + held (streams c) \<subseteq># mset (installed c)"
proof -
  let ?c0 = "demo_conn []\<lparr>max_message_len := DEFAULT_MAX_MESSAGE_LEN\<rparr>"
  have "new_server demo_ops (0, Some ()) (0, Some ()) (0, Some ()) = Inr ?c0"
    by (simp add: new_server_def callbacks_new_def session_new_server_def demo_ops_def
        submit_initial_settings_def demo_conn_def)
  then have "conn_reach demo_ops demo_handlers (expire_deadlines demo_ops 5 ?c0, demo_net)"
    by (intro conn_reach.expire conn_reach.start)
  with reachable_invariant [OF this] show ?thesis by (simp add: Let_def)
qed

lemma conn_step_find:
  assumes "conn_step c c'" and "find_stream c i = Some s"
  shows "\<exists>s'. find_stream c' i = Some s' \<and> stream_step s s'"
proof -
  have "list_all2 stream_step (streams c) (streams c')" using assms(1) by (simp add: conn_step_def)
  then show ?thesis using assms(2) unfolding find_stream_def
    by (induction rule: list_all2_induct) (auto simp: stream_step_def split: if_splits)
qed

text \<open>
  C7. The first finish of a call is final: once a call is finished, no program of operations a
  handler or producer can run on the connection, whatever their order, arguments and results,
  changes its queued messages, its status or its status message.
\<close>

theorem finish_is_final:
  assumes "find_stream c i = Some s" and "finished (sc_out s)"
  shows "\<exists>s'. find_stream (snd (run_handler ops h c)) i = Some s' \<and> finished (sc_out s')
    \<and> messages (sc_out s') = messages (sc_out s)
    \<and> final_status (sc_out s') = final_status (sc_out s)
    \<and> final_message (sc_out s') = final_message (sc_out s)"
  using conn_step_find [OF run_handler_step [of c ops h] assms(1)] assms(2)
  by (auto simp: stream_step_def queue_step_def)

theorem finish_is_final_witness:
  "let s = (demo_stream 1 None)\<lparr>sc_out := oq_new\<lparr>finished := True, final_status := NotFound\<rparr>\<rparr>;
       h = HCall (ApiFinish 1 Ok) (\<lambda>_. HRet 0)
   in \<exists>s'. find_stream (snd (run_handler demo_ops h (demo_conn [s]))) 1 = Some s'
        \<and> final_status (sc_out s') = NotFound"
  using finish_is_final [of "demo_conn [(demo_stream 1 None)\<lparr>sc_out :=
      oq_new\<lparr>finished := True, final_status := NotFound\<rparr>\<rparr>]" 1
      "(demo_stream 1 None)\<lparr>sc_out := oq_new\<lparr>finished := True, final_status := NotFound\<rparr>\<rparr>"
      demo_ops "HCall (ApiFinish 1 Ok) (\<lambda>_. HRet 0)"]
  by (auto simp: find_stream_def demo_conn_def demo_stream_def Let_def)

end
