(* ===== verification/Session_Life.thy ===== *)
theory Session_Life
  imports Conn_State "HOL-Library.Multiset"
begin

text \<open>
  Who owns the nghttp2 objects (\<open>grpcuds-core/src/session.rs\<close>): the wrappers \<open>Callbacks\<close> and
  \<open>Session\<close> with their \<open>Drop\<close>, the option object \<open>Session::new_server\<close> makes for itself, and the
  order in which \<open>Conn::new_server\<close> creates and drops them. The library is the multiset of the
  objects it has handed out and not got back.
\<close>

section \<open>The library\<close>

text \<open>
  The option object and a session made with it carry whether closed streams are forgotten
  (\<open>no_closed_streams\<close>).
\<close>

datatype ng_object = CallbacksObj | OptionObj bool | SessionObj bool

type_synonym ng_live = "ng_object multiset"

text \<open>
  An allocation function of nghttp2 answers an error code and a pointer. As documented, it hands out
  an object exactly when the code is 0, with a pointer that is not null. The code is an argument.
\<close>

definition ng_alloc :: "ng_object \<Rightarrow> int \<Rightarrow> ng_live \<Rightarrow> (int \<times> ng_object option) \<times> ng_live" where
  "ng_alloc ob rc live =
     (if rc = 0 then ((0, Some ob), add_mset ob live) else ((rc, None), live))"

definition ng_del :: "ng_object \<Rightarrow> ng_live \<Rightarrow> ng_live" where
  "ng_del ob live = live - {#ob#}"

definition ng_option_set_no_closed_streams :: "bool \<Rightarrow> ng_object \<Rightarrow> ng_live \<Rightarrow> ng_object \<times> ng_live" where
  "ng_option_set_no_closed_streams b opt live =
     (OptionObj b, add_mset (OptionObj b) (live - {#opt#}))"

section \<open>The wrappers\<close>

text \<open>A wrapper is the pointer it owns; \<open>drop\<close> frees it unless it is null.\<close>

definition callbacks_drop :: "ng_object option \<Rightarrow> ng_live \<Rightarrow> ng_live" where
  "callbacks_drop ptr live = (case ptr of Some p \<Rightarrow> ng_del p live | None \<Rightarrow> live)"

definition session_drop :: "ng_object option \<Rightarrow> ng_live \<Rightarrow> ng_live" where
  "session_drop ptr live = (case ptr of Some p \<Rightarrow> ng_del p live | None \<Rightarrow> live)"

text \<open>\<open>Session::new_server\<close>, with the codes the library answers for the option and for the session.\<close>

definition new_server_objects :: "int \<Rightarrow> int \<Rightarrow> ng_live \<Rightarrow> (session_error + ng_object) \<times> ng_live" where
  "new_server_objects rc_opt rc_sess live =
     (case ng_alloc (OptionObj False) rc_opt live of
        ((rc, p), live) \<Rightarrow>
          (case p of
             None \<Rightarrow> (Inl SessionAlloc, live)
           | Some opt \<Rightarrow>
               if rc \<noteq> 0 then (Inl SessionAlloc, live)
               else (case ng_option_set_no_closed_streams True opt live of
                       (opt, live) \<Rightarrow>
                         (case ng_alloc (SessionObj (opt = OptionObj True)) rc_sess live of
                            (sess, live) \<Rightarrow> (session_new_server (rc, p) sess, ng_del opt live)))))"

text \<open>
  \<open>Conn::new_server\<close>: the callbacks are dropped when the function returns, on every path; the
  session is dropped with the half-made connection if the settings cannot be submitted.
\<close>

definition conn_objects ::
  "int \<Rightarrow> int \<Rightarrow> int \<Rightarrow> int \<Rightarrow> ng_live \<Rightarrow> (conn_error + ng_object) \<times> ng_live" where
  "conn_objects rc_cbs rc_opt rc_sess rc_settings live =
     (case ng_alloc CallbacksObj rc_cbs live of
        (cbs, live) \<Rightarrow>
          (case callbacks_new cbs of
             Inl e \<Rightarrow> (Inl (Session e), live)
           | Inr ptr \<Rightarrow>
               (case new_server_objects rc_opt rc_sess live of
                  (Inl e, live) \<Rightarrow> (Inl (Session e), callbacks_drop (Some ptr) live)
                | (Inr sess, live) \<Rightarrow>
                    if rc_settings = 0 then (Inr sess, callbacks_drop (Some ptr) live)
                    else (Inl (Nghttp2 rc_settings),
                          callbacks_drop (Some ptr) (session_drop (Some sess) live)))))"

section \<open>Nothing is leaked or freed twice\<close>

text \<open>
  Whatever the library answers, making a connection leaves exactly one more object when it succeeds,
  a session that forgets closed streams, and none when it fails; dropping the connection gives the
  session back.
\<close>

lemma conn_objects_exact:
  "case conn_objects rc_cbs rc_opt rc_sess rc_settings live of
     (Inl _, live') \<Rightarrow> live' = live
   | (Inr sess, live') \<Rightarrow> sess = SessionObj True \<and> live' = add_mset sess live
       \<and> session_drop (Some sess) live' = live"
  by (auto simp: conn_objects_def new_server_objects_def ng_alloc_def ng_del_def callbacks_drop_def
      session_drop_def callbacks_new_def session_new_server_def ng_option_set_no_closed_streams_def
      add_mset_commute)

end
