(* ===== verification/Wakeup.thy ===== *)
theory Wakeup
  imports Prelude
begin

text \<open>
  The promise both outbound mailboxes make (\<open>grpcuds-ffi-impl/src/mailbox.rs\<close> and \<open>Mailbox\<close> in
  \<open>grpcuds/src/server.rs\<close>), as an abstract transition system. Any thread appends to a queue and
  then signals an \<open>eventfd\<close>; one I/O thread polls that descriptor, clears it, and takes the
  whole queue. Appending and signalling are separate steps, so other threads may run in
  between; \<open>wk_owed\<close> counts the signals that are still to be sent. \<open>wk_busy\<close> holds while the
  I/O thread is awake and has yet to take the queue.

  A producer may leave out its signal when the queue was not empty, or when the I/O thread is
  awake. The two mailboxes are shown to be instances in their own theories.
\<close>

record 'i wake =
  wk_queue :: "'i list"
  wk_pushed :: "'i list"
  wk_taken :: "'i list"
  wk_signal :: nat
  wk_owed :: nat
  wk_busy :: bool

definition wake_init :: "'i wake" where
  "wake_init = \<lparr>wk_queue = [], wk_pushed = [], wk_taken = [], wk_signal = 0, wk_owed = 0,
     wk_busy = False\<rparr>"

inductive wake_step :: "'i wake \<Rightarrow> 'i wake \<Rightarrow> bool" where
  push: "owe \<or> wk_queue w \<noteq> [] \<or> wk_busy w \<Longrightarrow>
     wake_step w (w\<lparr>wk_queue := wk_queue w @ [i], wk_pushed := wk_pushed w @ [i],
                   wk_owed := wk_owed w + (if owe then 1 else 0)\<rparr>)"
| signal: "0 < wk_owed w \<Longrightarrow> 0 < n \<Longrightarrow>
     wake_step w (w\<lparr>wk_signal := n, wk_owed := wk_owed w - 1\<rparr>)"
| wake: "wake_step w (w\<lparr>wk_busy := True\<rparr>)"
| clear: "wk_busy w \<Longrightarrow> wake_step w (w\<lparr>wk_signal := 0\<rparr>)"
| takes: "wk_busy w \<Longrightarrow>
     wake_step w (w\<lparr>wk_queue := [], wk_taken := wk_taken w @ wk_queue w, wk_busy := False\<rparr>)"
| stutter: "wake_step w w"

definition wake_inv :: "'i wake \<Rightarrow> bool" where
  "wake_inv w \<longleftrightarrow>
     (wk_queue w \<noteq> [] \<longrightarrow> 0 < wk_signal w \<or> 0 < wk_owed w \<or> wk_busy w)
     \<and> wk_pushed w = wk_taken w @ wk_queue w"

lemma wake_init_inv: "wake_inv wake_init"
  by (simp add: wake_inv_def wake_init_def)

lemma wake_step_inv: "wake_step w w' \<Longrightarrow> wake_inv w \<Longrightarrow> wake_inv w'"
  by (induction rule: wake_step.induct) (auto simp: wake_inv_def)

text \<open>
  A system implements the promise when each of its steps is, seen through \<open>view\<close>, one step or
  a run of steps of the abstract system.
\<close>

locale wakeup_queue =
  fixes view :: "'s \<Rightarrow> 'i wake" and sys_step :: "'s \<Rightarrow> 's \<Rightarrow> bool" and sys_inv :: "'s \<Rightarrow> bool"
  assumes simulates: "sys_step s s' \<Longrightarrow> sys_inv s \<Longrightarrow> wake_step\<^sup>*\<^sup>* (view s) (view s')"
    and keeps: "sys_step s s' \<Longrightarrow> sys_inv s \<Longrightarrow> sys_inv s'"
begin

lemma run_inv:
  assumes "sys_step\<^sup>*\<^sup>* s s'" and "sys_inv s" and "wake_inv (view s)"
  shows "sys_inv s' \<and> wake_inv (view s')"
  using assms
proof (induction rule: rtranclp_induct)
  case (step s1 s2)
  have "wake_step\<^sup>*\<^sup>* w w' \<Longrightarrow> wake_inv w \<Longrightarrow> wake_inv w'" for w w' :: "'b wake"
    by (induction rule: rtranclp_induct) (auto intro: wake_step_inv)
  with step simulates keeps show ?case by blast
qed simp

lemma no_lost_wakeup:
  assumes "sys_step\<^sup>*\<^sup>* s s'" and "sys_inv s" and "wake_inv (view s)"
    and "wk_queue (view s') \<noteq> []" and "\<not> wk_busy (view s')" and "wk_owed (view s') = 0"
  shows "0 < wk_signal (view s')"
  using run_inv [OF assms(1-3)] assms(4-6) by (simp add: wake_inv_def)

lemma fifo:
  assumes "sys_step\<^sup>*\<^sup>* s s'" and "sys_inv s" and "wake_inv (view s)"
  shows "wk_pushed (view s') = wk_taken (view s') @ wk_queue (view s')"
  using run_inv [OF assms] by (simp add: wake_inv_def)

end

end
