(* ===== verification/Uds.thy ===== *)
theory Uds
  imports Conn_Machine
begin

text \<open>
  The transport, \<open>rust/grpcuds-core/src/uds.rs\<close>: binding and accepting on a Unix domain socket,
  and the read and write phases of a connection's tick. The kernel's answers to \<open>socket\<close>,
  \<open>bind\<close>, \<open>listen\<close> and \<open>accept4\<close> are arguments (\<open>Inl errno\<close> or \<open>Inr fd\<close>); \<open>k_open\<close> lists the
  descriptors the process holds and \<open>k_unlinked\<close> the paths it unlinked.

  Both loops end because each round consumes an answer of the kernel: \<open>flush_writes\<close> one of the
  answers to \<open>send\<close>, \<open>drain_reads\<close> one of the answers to \<open>read\<close>.
\<close>

section \<open>Errors and helpers\<close>

datatype io_error = Errno int | InvalidPath | Conn conn_error

datatype tick_status = Live | Closed

definition write_some :: "bytes \<Rightarrow> net \<Rightarrow> (io_error + nat) \<times> net" where
  "write_some data w =
     (case send_rest (\<lambda>e. e = EINTR) would_block data 0 w of
        (Inl e, w) \<Rightarrow> (Inl (Errno e), w)
      | (Inr n, w) \<Rightarrow> (Inr n, w))"

section \<open>Listener\<close>

record kernel =
  k_open :: "int list"
  k_unlinked :: "bytes list"

record listener =
  ls_fd :: int
  ls_addr :: bytes

definition SUN_PATH_LEN :: nat where
  "SUN_PATH_LEN = 108"

definition trim_nul :: "bytes \<Rightarrow> bytes" where
  "trim_nul path = (if path \<noteq> [] \<and> last path = 0 then butlast path else path)"

definition close_fd :: "int \<Rightarrow> kernel \<Rightarrow> kernel" where
  "close_fd fd k = k\<lparr>k_open := remove1 fd (k_open k)\<rparr>"

definition unlink :: "bytes \<Rightarrow> kernel \<Rightarrow> kernel" where
  "unlink path k = k\<lparr>k_unlinked := k_unlinked k @ [path]\<rparr>"

definition listener_bind ::
    "int + int \<Rightarrow> int + unit \<Rightarrow> int + unit \<Rightarrow> bytes \<Rightarrow> kernel \<Rightarrow> (io_error + listener) \<times> kernel"
  where
  "listener_bind sock bnd lst path k =
     (let trimmed = trim_nul path
      in if trimmed = [] \<or> length trimmed > SUN_PATH_LEN - 1 then (Inl InvalidPath, k)
         else let k = unlink trimmed k
              in (case sock of
                    Inl e \<Rightarrow> (Inl (Errno e), k)
                  | Inr fd \<Rightarrow>
                      let k = k\<lparr>k_open := fd # k_open k\<rparr>
                      in (case bnd of
                            Inl e \<Rightarrow> (Inl (Errno e), close_fd fd k)
                          | Inr _ \<Rightarrow>
                              (case lst of
                                 Inl e \<Rightarrow> (Inl (Errno e), close_fd fd k)
                               | Inr _ \<Rightarrow> (Inr \<lparr>ls_fd = fd, ls_addr = trimmed\<rparr>, k)))))"

record 'n connection =
  cn_fd :: int
  cn_conn :: "'n conn"

text \<open>\<open>created\<close> is what \<open>Conn::new_server\<close> returns for the accepted socket.\<close>

definition listener_accept ::
    "int + int \<Rightarrow> conn_error + 'n conn \<Rightarrow> kernel \<Rightarrow> (io_error + 'n connection option) \<times> kernel"
  where
  "listener_accept acc created k =
     (case acc of
        Inl e \<Rightarrow> if would_block e then (Inr None, k) else (Inl (Errno e), k)
      | Inr fd \<Rightarrow>
          let k = k\<lparr>k_open := fd # k_open k\<rparr>
          in (case created of
                Inl e \<Rightarrow> (Inl (Conn e), k)
              | Inr c \<Rightarrow> (Inr (Some \<lparr>cn_fd = fd, cn_conn = set_fd fd c\<rparr>), k)))"

definition listener_drop :: "listener \<Rightarrow> kernel \<Rightarrow> kernel" where
  "listener_drop l k = unlink (ls_addr l) (close_fd (ls_fd l) k)"

definition connection_drop :: "'n connection \<Rightarrow> kernel \<Rightarrow> kernel" where
  "connection_drop c k = close_fd (cn_fd c) k"

section \<open>Connection\<close>

definition wants_read :: "'n ng_ops \<Rightarrow> 'n connection \<Rightarrow> bool" where
  "wants_read ops c \<longleftrightarrow> conn_wants_read ops (cn_conn c)"

definition wants_write :: "'n ng_ops \<Rightarrow> 'n connection \<Rightarrow> bool" where
  "wants_write ops c \<longleftrightarrow> has_pending (cn_conn c) \<or> conn_wants_write ops (cn_conn c)"

definition connection_next_deadline_ms :: "nat \<Rightarrow> 'n connection \<Rightarrow> nat option" where
  "connection_next_deadline_ms now c = next_deadline_ms now (cn_conn c)"

lemma write_some_sent:
  assumes "write_some data w = (r, w')"
  shows "\<exists>k. sent data k w w' \<and> (\<forall>n. r = Inr n \<longrightarrow> n = k)"
proof -
  obtain a where a: "send_rest (\<lambda>e. e = EINTR) would_block data 0 w = (a, w')"
    and r: "r = (case a of Inl e \<Rightarrow> Inl (Errno e) | Inr n \<Rightarrow> Inr n)"
    using assms by (auto simp: write_some_def split: prod.splits sum.splits)
  from send_rest_sent [OF a] r show ?thesis by (fastforce split: sum.splits)
qed

lemma write_some_net:
  assumes "write_some data w = (r, w')"
  shows "length (net_sends w') \<le> length (net_sends w)"
    and "r = Inr n \<Longrightarrow> 0 < n \<Longrightarrow> length (net_sends w') < length (net_sends w)"
  using write_some_sent [OF assms] by (auto simp: sent_def)

text \<open>
  The inner loop of \<open>flush_writes\<close>: write the pending tail; \<open>Inr False\<close> when the socket is full.
\<close>

function flush_pending :: "'n conn \<Rightarrow> net \<Rightarrow> (io_error + bool) \<times> 'n conn \<times> net" where
  "flush_pending c w =
     (if has_pending c
      then case write_some (pending_bytes c) w of
             (Inl e, w1) \<Rightarrow> (Inl e, c, w1)
           | (Inr n, w1) \<Rightarrow>
               if n = 0 then (Inr False, c, w1) else flush_pending (consume_pending n c) w1
      else (Inr True, c, w))"
  by pat_completeness auto
termination
  by (relation "measure (\<lambda>(_, w). length (net_sends w))")
     (auto dest: write_some_net(2) [OF sym])

declare flush_pending.simps [simp del]

lemma flush_pending_sends:
  "flush_pending c w = (r, c', w') \<Longrightarrow> length (net_sends w') \<le> length (net_sends w)"
proof (induction c w arbitrary: r c' w' rule: flush_pending.induct)
  case (1 c w)
  obtain a w1 where a: "write_some (pending_bytes c) w = (a, w1)" by fastforce
  note le = write_some_net(1) [OF a]
  show ?case
  proof (cases "has_pending c \<and> (\<exists>n. a = Inr n \<and> n \<noteq> 0)")
    case True
    then obtain n where n: "a = Inr n" "n \<noteq> 0" by blast
    have "flush_pending (consume_pending n c) w1 = (r, c', w')"
      using "1.prems" a True n by (simp add: flush_pending.simps [of c w])
    from "1.IH" [OF _ a [symmetric] n(1) n(2) this] True le show ?thesis by simp
  next
    case False
    with "1.prems" a le show ?thesis
      by (auto simp: flush_pending.simps [of c w] split: sum.splits if_splits)
  qed
qed

lemma pull_send_sends:
  "pull_send ops (c, w) = (r, c', w') \<Longrightarrow> length (net_sends w') \<le> length (net_sends w)"
  by (auto simp: pull_send_def Let_def dest!: run_ng_net split: prod.splits if_splits)

text \<open>
  The outer loop. The result is \<open>Inr True\<close> when nghttp2 has nothing more to send and
  \<open>Inr False\<close> when the socket is full.
\<close>

function flush_loop ::
    "'n ng_ops \<Rightarrow> alloc \<Rightarrow> 'n conn \<Rightarrow> net \<Rightarrow> (io_error + bool) \<times> 'n conn \<times> net" where
  "flush_loop ops al c w =
     (case flush_pending c w of
        (Inl e, c1, w1) \<Rightarrow> (Inl e, c1, w1)
      | (Inr False, c1, w1) \<Rightarrow> (Inr False, c1, w1)
      | (Inr True, c1, w1) \<Rightarrow>
          (case pull_send ops (c1, w1) of
             (Inl e, c2, w2) \<Rightarrow> (Inl (Conn e), c2, w2)
           | (Inr chunk, c2, w2) \<Rightarrow>
               if chunk = [] then (Inr True, c2, w2)
               else (case write_some chunk (w2\<lparr>net_emitted := net_emitted w2 @ chunk\<rparr>) of
                       (Inl e, w3) \<Rightarrow> (Inl e, c2, w3)
                     | (Inr written, w3) \<Rightarrow>
                         if written < length chunk
                         then if \<not> al_bytes al (length chunk - written)
                              then (Inl (Conn OutOfMemory), c2, w3)
                              else (case stash_pending al (drop written chunk) c2 of
                                      (Inl e, c3) \<Rightarrow> (Inl (Conn e), c3, w3)
                                    | (Inr _, c3) \<Rightarrow> (Inr False, c3, w3))
                         else flush_loop ops al c2 w3)))"
  by pat_completeness auto
termination
  by (relation "measure (\<lambda>(_, _, _, w). length (net_sends w))")
     (auto dest!: flush_pending_sends [OF sym] pull_send_sends [OF sym]
        write_some_net(2) [OF sym, OF _ refl], metis length_greater_0_conv neq0_conv)

declare flush_loop.simps [simp del]

definition flush_writes ::
    "'n ng_ops \<Rightarrow> alloc \<Rightarrow> 'n conn \<Rightarrow> net \<Rightarrow> (io_error + tick_status) \<times> 'n conn \<times> net" where
  "flush_writes ops al c w =
     (case flush_loop ops al c w of
        (Inl e, c, w) \<Rightarrow> (Inl e, c, w)
      | (Inr False, c, w) \<Rightarrow> (Inr Live, c, w)
      | (Inr True, c, w) \<Rightarrow>
          if conn_wants_read ops c \<or> conn_wants_write ops c \<or> has_pending c
          then (Inr Live, c, w) else (Inr Closed, c, w))"

text \<open>\<open>Inr (Some Closed)\<close> on end of file, \<open>Inr None\<close> when the socket would block.\<close>

lemma recv_reads: "recv ops data (c, w) = (r, c', w') \<Longrightarrow> net_reads w' = net_reads w"
  by (auto simp: recv_def Let_def dest!: run_ng_net split: prod.splits if_splits)

function drain_reads ::
    "'n ng_ops \<Rightarrow> 'n conn \<Rightarrow> net \<Rightarrow> (io_error + tick_status option) \<times> 'n conn \<times> net" where
  "drain_reads ops c w =
     (case sys_read 4096 w of
        (Inl e, w1) \<Rightarrow>
          if would_block e then (Inr None, c, w1)
          else if e = EINTR then drain_reads ops c w1
          else (Inl (Errno e), c, w1)
      | (Inr buf, w1) \<Rightarrow>
          if buf = [] then (Inr (Some Closed), c, w1)
          else (case recv ops buf (c, w1) of
                  (Inl e, c2, w2) \<Rightarrow> (Inl (Conn e), c2, w2)
                | (Inr _, c2, w2) \<Rightarrow> drain_reads ops c2 w2))"
  by pat_completeness auto
termination
  by (relation "measure (\<lambda>(_, _, w). length (net_reads w))")
     (auto dest!: sys_read_reads(4) [OF sym] recv_reads [OF sym] simp: EINTR_def EAGAIN_def)

declare drain_reads.simps [simp del]

definition tick_read ::
    "'n ng_ops \<Rightarrow> handlers \<Rightarrow> env \<Rightarrow> 'n connection \<Rightarrow> net
       \<Rightarrow> (io_error + tick_status) \<times> 'n connection \<times> net" where
  "tick_read ops H e cn w =
     (let c = expire_deadlines ops (env_now e) (cn_conn cn)
      in case drain_reads ops c w of
           (Inl err, c, w) \<Rightarrow> (Inl err, cn\<lparr>cn_conn := c\<rparr>, w)
         | (Inr (Some status), c, w) \<Rightarrow> (Inr status, cn\<lparr>cn_conn := c\<rparr>, w)
         | (Inr None, c, w) \<Rightarrow>
             let c = snd (dispatch ops H c); (r, c, w) = flush_writes ops (env_alloc e) c w
             in (r, cn\<lparr>cn_conn := c\<rparr>, w))"

definition tick_write ::
    "'n ng_ops \<Rightarrow> env \<Rightarrow> 'n connection \<Rightarrow> net \<Rightarrow> (io_error + tick_status) \<times> 'n connection \<times> net"
  where
  "tick_write ops e cn w =
     (let c = expire_deadlines ops (env_now e) (cn_conn cn);
          (r, c, w) = flush_writes ops (env_alloc e) c w
      in (r, cn\<lparr>cn_conn := c\<rparr>, w))"

definition tick ::
    "'n ng_ops \<Rightarrow> handlers \<Rightarrow> env \<Rightarrow> 'n connection \<Rightarrow> net
       \<Rightarrow> (io_error + tick_status) \<times> 'n connection \<times> net" where
  "tick ops H e cn w = tick_read ops H e cn w"

section \<open>The order of bytes on the wire\<close>

lemma flush_pending_wire:
  assumes "flush_pending c w = (r, c', w')" and "wire_inv c w"
  shows "prefix (net_wire w') (net_emitted w') \<and> (\<forall>b. r = Inr b \<longrightarrow> wire_inv c' w')
    \<and> (r = Inr True \<longrightarrow> out_pending c' = [])"
  using assms
proof (induction c w arbitrary: r c' w' rule: flush_pending.induct)
  case (1 c w)
  note unf = flush_pending.simps [of c w]
  show ?case
  proof (cases "has_pending c")
    case False
    with "1.prems" show ?thesis by (auto simp: unf has_pending_def wire_inv_def)
  next
    case True
    obtain a w1 where a: "write_some (pending_bytes c) w = (a, w1)" by fastforce
    from write_some_sent [OF a]
    obtain k where k: "sent (pending_bytes c) k w w1" "\<forall>n. a = Inr n \<longrightarrow> n = k" by blast
    have w: "net_wire w @ out_pending c = net_emitted w" using "1.prems"(2) by (simp add: wire_inv_def)
    have w1: "net_wire w1 @ drop k (out_pending c) = net_emitted w1"
      using k(1) w by (simp add: sent_def pending_bytes_def)
    then have pre: "prefix (net_wire w1) (net_emitted w1)" by (metis prefixI)
    consider e where "a = Inl e" | "a = Inr 0" | n where "a = Inr n" "n \<noteq> 0"
      by (cases a) auto
    then show ?thesis
    proof cases
      case 1
      with "1.prems"(1) True a pre show ?thesis by (auto simp: unf)
    next
      case 2
      with "1.prems"(1) True a pre w1 k(2) show ?thesis by (auto simp: unf wire_inv_def)
    next
      case (3 n)
      have "flush_pending (consume_pending n c) w1 = (r, c', w')"
        using "1.prems"(1) a True 3 by (simp add: unf)
      moreover have "wire_inv (consume_pending n c) w1"
        using w1 k(2) 3(1) by (simp add: wire_inv_def consume_pending_pending)
      ultimately show ?thesis using "1.IH" [OF True a [symmetric] 3(1) 3(2)] by blast
    qed
  qed
qed

lemma pull_send_wire:
  assumes "mem_send_ok (ng_mem_send ops (session c))" and "wire_inv c w" and "out_pending c = []"
    and "pull_send ops (c, w) = (r, c', w')"
  shows "prefix (net_wire w') (net_emitted w') \<and> (\<forall>chunk. r = Inr chunk \<longrightarrow> wire_inv c' w')
    \<and> (\<forall>chunk. r = Inr chunk \<longrightarrow> chunk \<noteq> [] \<longrightarrow> out_pending c' = [])"
proof -
  obtain rc p c1 w1 where run: "run_ng ops (ng_mem_send ops (session c)) (c, w) = (rc, p, c1, w1)"
    by (metis prod_cases4)
  note inv = run_send_wire [OF assms(1-3) run]
  show ?thesis using assms(4) run inv
    by (auto simp: pull_send_def Let_def ERR_WOULDBLOCK_def ERR_CALLBACK_FAILURE_def
        split: if_splits)
qed

lemma chunk_wire:
  assumes "wire_inv c w" and "out_pending c = []"
    and "sent chunk k (w\<lparr>net_emitted := net_emitted w @ chunk\<rparr>) w'"
  shows "net_wire w' @ drop k chunk = net_emitted w'"
  using assms by (simp add: sent_def wire_inv_def)

lemma flush_loop_wire:
  assumes "\<forall>n. mem_send_ok (ng_mem_send ops n)"
    and "flush_loop ops al c w = (r, c', w')" and "wire_inv c w"
  shows "prefix (net_wire w') (net_emitted w') \<and> (\<forall>b. r = Inr b \<longrightarrow> wire_inv c' w')"
  using assms
proof (induction ops al c w arbitrary: r c' w' rule: flush_loop.induct)
  case (1 ops al c w)
  note unf = flush_loop.simps [of ops al c w]
  obtain a c1 w1 where fp: "flush_pending c w = (a, c1, w1)" by (metis prod_cases3)
  note f1 = flush_pending_wire [OF fp "1.prems"(3)]
  obtain b c2 w2 where ps: "pull_send ops (c1, w1) = (b, c2, w2)" by (metis prod_cases3)
  consider "a \<noteq> Inr True" | "a = Inr True" "(\<exists>e. b = Inl e) \<or> b = Inr []"
    | chunk where "a = Inr True" "b = Inr chunk" "chunk \<noteq> []" by (cases b) auto
  then show ?case
  proof cases
    case 1
    with "1.prems"(2) fp f1 show ?thesis by (auto simp: unf split: sum.splits bool.splits)
  next
    case 2
    then have p1: "wire_inv c1 w1" "out_pending c1 = []" using f1 by auto
    from pull_send_wire [OF _ p1 ps] "1.prems"(1,2) 2 fp ps show ?thesis
      by (auto simp: unf)
  next
    case (3 chunk)
    then have p1: "wire_inv c1 w1" "out_pending c1 = []" using f1 by auto
    have p2: "wire_inv c2 w2" "out_pending c2 = []"
      using pull_send_wire [OF _ p1 ps] "1.prems"(1) 3 by auto
    let ?w2 = "w2\<lparr>net_emitted := net_emitted w2 @ chunk\<rparr>"
    obtain d w3 where ws: "write_some chunk ?w2 = (d, w3)" by fastforce
    from write_some_sent [OF ws]
    obtain k where k: "sent chunk k ?w2 w3" "\<forall>n. d = Inr n \<longrightarrow> n = k" by blast
    note cw = chunk_wire [OF p2 k(1)]
    then have pre: "prefix (net_wire w3) (net_emitted w3)" by (metis prefixI)
    show ?thesis
    proof (cases "\<exists>n. d = Inr n \<and> \<not> n < length chunk")
      case True
      then obtain n where n: "d = Inr n" "\<not> n < length chunk" by blast
      have run: "flush_loop ops al c2 w3 = (r, c', w')"
        using "1.prems"(2) fp ps ws 3 n by (simp add: unf)
      have "wire_inv c2 w3" using cw k(2) n p2(2) by (simp add: wire_inv_def)
      with "1.IH" [OF fp [symmetric] 3(1) refl refl ps [symmetric] 3(2) refl 3(3)
          ws [symmetric] n] run "1.prems"(1) show ?thesis by blast
    next
      case False
      with "1.prems"(2) fp ps ws 3 pre cw k(2) p2(2) show ?thesis
        by (auto simp: unf stash_pending_def wire_inv_def split: sum.splits if_splits)
    qed
  qed
qed

lemma flush_writes_wire:
  assumes "\<forall>n. mem_send_ok (ng_mem_send ops n)" and "wire_inv c w"
    and "flush_writes ops al c w = (r, c', w')"
  shows "prefix (net_wire w') (net_emitted w') \<and> (\<forall>st. r = Inr st \<longrightarrow> wire_inv c' w')"
proof -
  obtain a c1 w1 where fl: "flush_loop ops al c w = (a, c1, w1)" by (metis prod_cases3)
  from flush_loop_wire [OF assms(1) fl assms(2)] assms(3) fl show ?thesis
    by (auto simp: flush_writes_def split: sum.splits bool.splits if_splits)
qed

text \<open>
  \<open>nghttp2_session_mem_recv\<close> never calls back for output: \<open>no_send\<close> is that documented fact.
\<close>

primrec no_send :: "'n ng_prog \<Rightarrow> bool" where
  "no_send (NgRet n rc out) = True"
| "no_send (NgCall cb e n k) = (\<not> is_send cb \<and> (\<forall>n' r. no_send (k n' r)))"

lemma run_recv_wire:
  assumes "no_send t" and "run_ng ops t (c, w) = (rc, out, c', w')"
  shows "w' = w" and "out_pending c' = out_pending c"
proof -
  have "w' = w \<and> out_pending c' = out_pending c"
    using assms
  proof (induction t arbitrary: c w)
    case (NgCall cb e n k)
    obtain r c1 w1 where cb: "run_cb ops e cb (c\<lparr>session := n\<rparr>, w) = (r, c1, w1)"
      by (metis prod_cases3)
    then have "run_ng ops (k (session c1) r) (c1, w1) = (rc, out, c', w')"
      using NgCall.prems by simp
    moreover have "no_send (k (session c1) r)" using NgCall.prems(1) by simp
    ultimately have "w' = w1 \<and> out_pending c' = out_pending c1" using NgCall.IH by blast
    with run_cb_other [OF _ cb] NgCall.prems(1) show ?case by simp
  qed auto
  then show "w' = w" and "out_pending c' = out_pending c" by auto
qed

lemma recv_wire:
  assumes "no_send (ng_mem_recv ops (session c) data)" and "recv ops data (c, w) = (r, c', w')"
  shows "w' = w" and "out_pending c' = out_pending c"
  using assms run_recv_wire [OF assms(1)]
  by (auto simp: recv_def Let_def split: if_splits prod.splits)

lemma drain_reads_wire:
  assumes "\<forall>n data. no_send (ng_mem_recv ops n data)"
    and "drain_reads ops c w = (r, c', w')" and "wire_inv c w"
  shows "wire_inv c' w'"
  using assms
proof (induction ops c w arbitrary: r c' w' rule: drain_reads.induct)
  case (1 ops c w)
  note unf = drain_reads.simps [of ops c w]
  obtain a w1 where a: "sys_read 4096 w = (a, w1)" by fastforce
  have w1: "wire_inv c w1"
    using sys_read_reads(1,2) [OF a] "1.prems"(3) by (simp add: wire_inv_def)
  show ?case
  proof (cases a)
    case (Inl e)
    show ?thesis
    proof (cases "e = EINTR \<and> \<not> would_block e")
      case True
      then have "drain_reads ops c w1 = (r, c', w')" using "1.prems"(2) a Inl by (auto simp: unf)
      with "1.IH"(1) [OF a [symmetric] Inl] True "1.prems"(1) w1 show ?thesis by blast
    next
      case False
      with "1.prems"(2) a Inl w1 show ?thesis by (auto simp: unf split: if_splits)
    qed
  next
    case (Inr buf)
    obtain b c2 w2 where rv: "recv ops buf (c, w1) = (b, c2, w2)" by (metis prod_cases3)
    have w2: "wire_inv c2 w2"
      using recv_wire [OF _ rv] "1.prems"(1) w1 by (simp add: wire_inv_def)
    show ?thesis
    proof (cases "buf \<noteq> [] \<and> (\<exists>n. b = Inr n)")
      case True
      then obtain n where n: "b = Inr n" by blast
      then have "drain_reads ops c2 w2 = (r, c', w')"
        using "1.prems"(2) a Inr rv True by (simp add: unf)
      with "1.IH"(2) [OF a [symmetric] Inr _ rv [symmetric] n refl] True "1.prems"(1) w2
      show ?thesis by blast
    next
      case False
      with "1.prems"(2) a Inr rv w1 w2 show ?thesis
        by (cases b) (auto simp: unf split: if_splits)
    qed
  qed
qed

section \<open>Properties\<close>

text \<open>
  C10. Frames reach the peer in the order nghttp2 emitted them, through any sequence of partial
  writes, \<open>EAGAIN\<close>s and switches between the copying and the \<open>NO_COPY\<close> path: if before a tick
  the bytes received by the peer followed by the pending tail are the bytes emitted, the same
  holds after the tick, and even after a tick that failed the peer has received a prefix.
\<close>

theorem tick_wire_order:
  assumes "\<forall>n. mem_send_ok (ng_mem_send ops n)" and "\<forall>n data. no_send (ng_mem_recv ops n data)"
    and "wire_inv (cn_conn cn) w" and "tick_read ops H e cn w = (r, cn', w')"
  shows "prefix (net_wire w') (net_emitted w')
    \<and> (\<forall>st. r = Inr st \<longrightarrow> net_wire w' @ out_pending (cn_conn cn') = net_emitted w')"
proof -
  let ?c = "expire_deadlines ops (env_now e) (cn_conn cn)"
  have w0: "wire_inv ?c w" using assms(3) by (simp add: wire_inv_def expire_pending)
  obtain a c1 w1 where dr: "drain_reads ops ?c w = (a, c1, w1)" by (metis prod_cases3)
  have w1: "wire_inv c1 w1" by (rule drain_reads_wire [OF assms(2) dr w0])
  then have pre: "prefix (net_wire w1) (net_emitted w1)" by (metis prefixI wire_inv_def)
  let ?c1 = "snd (dispatch ops H c1)"
  obtain b c2 w2 where fl: "flush_writes ops (env_alloc e) ?c1 w1 = (b, c2, w2)"
    by (metis prod_cases3)
  have "wire_inv ?c1 w1" using w1 by (simp add: wire_inv_def dispatch_pending)
  note fin = flush_writes_wire [OF assms(1) this fl]
  show ?thesis
    using assms(4) dr fl w1 pre fin
    by (auto simp: tick_read_def Let_def wire_inv_def split: sum.splits option.splits)
qed

theorem tick_wire_order_witness:
  "let cn = \<lparr>cn_fd = 4, cn_conn = demo_conn []\<lparr>conn_fd := 4, out_pending := [1, 2]\<rparr>\<rparr>;
       w = demo_net\<lparr>net_sends := [SysOk 1], net_wire := [0], net_emitted := [0, 1, 2]\<rparr>;
       e = \<lparr>env_now = 0, env_alloc = \<lparr>al_bytes = \<lambda>_. True, al_slot = True\<rparr>\<rparr>
   in prefix (net_wire (snd (snd (tick_read demo_ops demo_handlers e cn w))))
        (net_emitted (snd (snd (tick_read demo_ops demo_handlers e cn w))))"
proof -
  let ?cn = "\<lparr>cn_fd = 4, cn_conn = demo_conn []\<lparr>conn_fd := 4, out_pending := [1, 2]\<rparr>\<rparr>"
  let ?w = "demo_net\<lparr>net_sends := [SysOk 1], net_wire := [0], net_emitted := [0, 1, 2]\<rparr>"
  let ?e = "\<lparr>env_now = 0, env_alloc = \<lparr>al_bytes = \<lambda>_. True, al_slot = True\<rparr>\<rparr>"
  have ok: "\<forall>n. mem_send_ok (ng_mem_send demo_ops n)"
    "\<forall>n data. no_send (ng_mem_recv demo_ops n data)" by (simp_all add: demo_ops_def)
  have w: "wire_inv (cn_conn ?cn) ?w" by (simp add: wire_inv_def demo_conn_def demo_net_def)
  obtain r cn' w' where t: "tick_read demo_ops demo_handlers ?e ?cn ?w = (r, cn', w')"
    by (metis prod_cases3)
  from tick_wire_order [OF ok w t] t show ?thesis by (simp add: Let_def)
qed

text \<open>
  Binding keeps the descriptor table exact: a path that is empty or does not fit
  \<open>sun_path\<close> is refused before any system call, every failure leaves the open descriptors as
  they were, and a success adds exactly the listener's, which dropping the listener closes
  again, removing the socket file.
\<close>

lemma listener_bind_exact:
  assumes "listener_bind sock bnd lst path k = (r, k')"
  shows "(\<forall>e. r = Inl e \<longrightarrow> k_open k' = k_open k)
    \<and> ((trim_nul path = [] \<or> SUN_PATH_LEN \<le> length (trim_nul path)) \<longleftrightarrow> r = Inl InvalidPath)
    \<and> (r = Inl InvalidPath \<longrightarrow> k' = k)
    \<and> (\<forall>l. r = Inr l \<longrightarrow> k_open k' = ls_fd l # k_open k
        \<and> k_open (listener_drop l k') = k_open k
        \<and> last (k_unlinked (listener_drop l k')) = trim_nul path)"
  using assms
  by (auto simp: listener_bind_def listener_drop_def close_fd_def unlink_def SUN_PATH_LEN_def
      Let_def split: sum.splits if_splits)

text \<open>
  Accepting does not keep the table exact: when the session for an accepted socket cannot
  be created, the error is returned and the descriptor of the socket stays open although no
  connection owns it; every other outcome is balanced.
\<close>

lemma accept_failure_keeps_descriptor:
  "(\<forall>fd e. listener_accept (Inr fd) (Inl e :: conn_error + 'n conn) k
      = (Inl (Conn e), k\<lparr>k_open := fd # k_open k\<rparr>))
   \<and> (\<forall>e. k_open (snd (listener_accept (Inl e) (created :: conn_error + 'n conn) k)) = k_open k)
   \<and> (\<forall>fd c. \<exists>cn. listener_accept (Inr fd) (Inr (c :: 'n conn)) k
        = (Inr (Some cn), k\<lparr>k_open := fd # k_open k\<rparr>)
        \<and> k_open (connection_drop cn (k\<lparr>k_open := fd # k_open k\<rparr>)) = k_open k
        \<and> conn_fd (cn_conn cn) = fd)"
  by (simp add: listener_accept_def connection_drop_def close_fd_def set_fd_def Let_def)

end
