(* ===== verification/Ffi_Mailbox.thy ===== *)
theory Ffi_Mailbox
  imports Wakeup Uds
begin

text \<open>
  The outbound mailbox of the C ABI, \<open>rust/grpcuds-ffi-impl/src/mailbox.rs\<close>. A \<open>call\<close> handle is
  the address of a \<open>Conn\<close>, which lives inside a \<open>Connection\<close>; the address space is a map from
  such addresses to connections, and address 0 is the null pointer. Replaying an operation dereferences its handle, so the
  model of \<open>drain\<close> yields \<open>None\<close> when the handle of an operation it applies is not mapped: in
  the source this is a use after free.

  The mutex makes the body of each operation one step. \<open>push\<close> releases it before \<open>poke\<close>, and
  \<open>drain\<close> clears the \<open>eventfd\<close> before it takes the lock, so these are separate steps.
\<close>

section \<open>State\<close>

record item =
  it_call :: nat
  it_call_id :: int
  it_payload :: bytes
  it_finish :: bool
  it_status :: grpc_status

record mailbox =
  mb_queue :: "item list"
  mb_dead :: "nat list"
  mb_wakeup :: int
  mb_io_registered :: bool
  mb_io_thread :: nat

definition mailbox_new :: mailbox where
  "mailbox_new =
     \<lparr>mb_queue = [], mb_dead = [], mb_wakeup = - 1, mb_io_registered = False, mb_io_thread = 0\<rparr>"

definition on_io_thread :: "nat \<Rightarrow> mailbox \<Rightarrow> bool" where
  "on_io_thread me mb \<longleftrightarrow> (if \<not> mb_io_registered mb then True else mb_io_thread mb = me)"

text \<open>\<open>newfd\<close> is what \<open>eventfd\<close> answers should the descriptor have to be created.\<close>

definition ensure_wakeup :: "int \<Rightarrow> mailbox \<Rightarrow> int \<times> mailbox" where
  "ensure_wakeup newfd mb =
     (if mb_wakeup mb \<ge> 0 then (mb_wakeup mb, mb) else (newfd, mb\<lparr>mb_wakeup := newfd\<rparr>))"

definition wakeup_fd :: "int \<Rightarrow> mailbox \<Rightarrow> int \<times> mailbox" where
  "wakeup_fd newfd mb = ensure_wakeup newfd mb"

definition register_io_thread :: "int \<Rightarrow> nat \<Rightarrow> mailbox \<Rightarrow> mailbox" where
  "register_io_thread newfd me mb =
     (let mb = snd (ensure_wakeup newfd mb) in mb\<lparr>mb_io_thread := me, mb_io_registered := True\<rparr>)"

section \<open>Operations\<close>

definition EVENTFD_MAX :: nat where
  "EVENTFD_MAX = 2 ^ 64 - 2"

text \<open>The counter of the \<open>eventfd\<close> after \<open>poke\<close>; a write that would overflow it is refused.\<close>

definition poke :: "mailbox \<Rightarrow> nat \<Rightarrow> nat" where
  "poke mb n = (if mb_wakeup mb < 0 then n else if n + 1 > EVENTFD_MAX then n else n + 1)"

definition push_locked :: "alloc \<Rightarrow> item \<Rightarrow> mailbox \<Rightarrow> (unit + unit) \<times> mailbox" where
  "push_locked al it mb =
     (if \<not> al_slot al then (Inl (), mb) else (Inr (), mb\<lparr>mb_queue := mb_queue mb @ [it]\<rparr>))"

definition enqueue_write :: "alloc \<Rightarrow> nat \<Rightarrow> int \<Rightarrow> bytes \<Rightarrow> mailbox \<Rightarrow> (unit + unit) \<times> mailbox" where
  "enqueue_write al call call_id data mb =
     (if \<not> al_bytes al (length data) then (Inl (), mb)
      else push_locked al \<lparr>it_call = call, it_call_id = call_id, it_payload = data,
                           it_finish = False, it_status = Ok\<rparr> mb)"

definition enqueue_finish ::
    "alloc \<Rightarrow> nat \<Rightarrow> int \<Rightarrow> grpc_status \<Rightarrow> bytes \<Rightarrow> mailbox \<Rightarrow> (unit + unit) \<times> mailbox" where
  "enqueue_finish al call call_id status msg mb =
     (if \<not> al_bytes al (length msg) then (Inl (), mb)
      else push_locked al \<lparr>it_call = call, it_call_id = call_id, it_payload = msg,
                           it_finish = True, it_status = status\<rparr> mb)"

type_synonym 'n heap = "nat \<rightharpoonup> 'n connection"

definition replay_item :: "'n ng_ops \<Rightarrow> alloc \<Rightarrow> item \<Rightarrow> 'n connection \<Rightarrow> 'n connection" where
  "replay_item ops al it cn =
     cn\<lparr>cn_conn :=
       (if it_finish it
        then snd (finish_call_msg ops (it_call_id it) (it_status it) (it_payload it) (cn_conn cn))
        else snd (write_call ops al (it_call_id it) (it_payload it) (cn_conn cn)))\<rparr>"

primrec drain_replay ::
    "'n ng_ops \<Rightarrow> alloc \<Rightarrow> nat list \<Rightarrow> item list \<Rightarrow> 'n heap \<Rightarrow> 'n heap option" where
  "drain_replay ops al dead [] h = Some h"
| "drain_replay ops al dead (it # items) h =
     (if it_call it = 0 \<or> it_call it \<in> set dead then drain_replay ops al dead items h
      else case h (it_call it) of
             None \<Rightarrow> None
           | Some c \<Rightarrow> drain_replay ops al dead items (h(it_call it \<mapsto> replay_item ops al it c)))"

text \<open>
  \<open>drain\<close>: the counter it leaves, the emptied mailbox and the heap after the replay. The
  counter is cleared in \<open>drain_clear\<close> and the queue taken in \<open>drain_take\<close>.
\<close>

definition drain_clear :: "mailbox \<Rightarrow> nat \<Rightarrow> nat" where
  "drain_clear mb n = (if mb_wakeup mb \<ge> 0 then 0 else n)"

definition drain_take :: "mailbox \<Rightarrow> item list \<times> mailbox" where
  "drain_take mb = (mb_queue mb, mb\<lparr>mb_queue := []\<rparr>)"

definition drain ::
    "'n ng_ops \<Rightarrow> alloc \<Rightarrow> mailbox \<times> nat \<Rightarrow> 'n heap \<Rightarrow> ((mailbox \<times> nat) \<times> 'n heap) option" where
  "drain ops al box h =
     (case box of (mb, n) \<Rightarrow>
        let n = drain_clear mb n;
            (items, mb) = drain_take mb
        in map_option (\<lambda>h. ((mb, n), h)) (drain_replay ops al (mb_dead mb) items h))"

definition register_call :: "nat \<Rightarrow> mailbox \<Rightarrow> mailbox" where
  "register_call call mb =
     (case position (\<lambda>k. k = call) (mb_dead mb) of
        None \<Rightarrow> mb
      | Some pos \<Rightarrow> mb\<lparr>mb_dead := swap_remove pos (mb_dead mb)\<rparr>)"

definition scrub :: "nat \<Rightarrow> item \<Rightarrow> item" where
  "scrub call it = (if it_call it = call then it\<lparr>it_call := 0\<rparr> else it)"

definition unregister_call :: "alloc \<Rightarrow> nat \<Rightarrow> mailbox \<Rightarrow> mailbox" where
  "unregister_call al call mb =
     (let mb = mb\<lparr>mb_queue := map (scrub call) (mb_queue mb)\<rparr>
      in if call \<notin> set (mb_dead mb) \<and> al_slot al then mb\<lparr>mb_dead := mb_dead mb @ [call]\<rparr> else mb)"


section \<open>The system of producers and one I/O thread\<close>

text \<open>
  \<open>ffi_step\<close> interleaves what the threads do once an I/O thread is registered. Producers hold
  handles that \<open>grpcuds_server_accept\<close> gave out, of live or of freed connections; accepting,
  freeing, handling calls directly and draining are for the I/O thread, so none of them runs
  inside a \<open>drain\<close>. The \<open>f_pushed\<close> and \<open>f_taken\<close> fields record history and \<open>f_owed\<close> the
  producers between \<open>push\<close> and \<open>poke\<close>.
\<close>

record 'n abi =
  f_box :: mailbox
  f_heap :: "'n heap"
  f_signal :: nat

record 'n ffi = "'n abi" +
  f_owed :: nat
  f_draining :: bool
  f_pushed :: "item list"
  f_taken :: "item list"

definition ffi_init :: "int \<Rightarrow> nat \<Rightarrow> 'n ffi" where
  "ffi_init fd me =
     \<lparr>f_box = register_io_thread fd me mailbox_new, f_heap = Map.empty, f_signal = 0, f_owed = 0,
      f_draining = False, f_pushed = [], f_taken = []\<rparr>"

inductive ffi_step :: "'n ng_ops \<Rightarrow> 'n ffi \<Rightarrow> 'n ffi \<Rightarrow> bool" for ops where
  accept: "\<not> f_draining s \<Longrightarrow> a \<noteq> 0 \<Longrightarrow> f_heap s a = None \<Longrightarrow>
    ffi_step ops s (s\<lparr>f_box := register_call a (f_box s), f_heap := (f_heap s)(a \<mapsto> c)\<rparr>)"
| free: "\<not> f_draining s \<Longrightarrow> f_heap s a \<noteq> None \<Longrightarrow> al_slot al \<Longrightarrow>
    ffi_step ops s (s\<lparr>f_box := unregister_call al a (f_box s), f_heap := (f_heap s)(a := None)\<rparr>)"
| direct: "\<not> f_draining s \<Longrightarrow> f_heap s a \<noteq> None \<Longrightarrow>
    ffi_step ops s (s\<lparr>f_heap := (f_heap s)(a \<mapsto> c)\<rparr>)"
| enqueue: "f_heap s a \<noteq> None \<or> a \<in> set (mb_dead (f_box s)) \<Longrightarrow>
    enqueue_write al a i data (f_box s) = (Inr (), mb)
      \<or> enqueue_finish al a i st data (f_box s) = (Inr (), mb) \<Longrightarrow>
    ffi_step ops s (s\<lparr>f_box := mb, f_owed := f_owed s + 1,
                      f_pushed := f_pushed s @ [last (mb_queue mb)]\<rparr>)"
| enqueue_fails: "enqueue_write al a i data (f_box s) = (Inl (), mb)
      \<or> enqueue_finish al a i st data (f_box s) = (Inl (), mb) \<Longrightarrow>
    ffi_step ops s (s\<lparr>f_box := mb\<rparr>)"
| poke: "0 < f_owed s \<Longrightarrow>
    ffi_step ops s (s\<lparr>f_signal := poke (f_box s) (f_signal s), f_owed := f_owed s - 1\<rparr>)"
| clear: "\<not> f_draining s \<Longrightarrow>
    ffi_step ops s (s\<lparr>f_signal := drain_clear (f_box s) (f_signal s), f_draining := True\<rparr>)"
| takes: "f_draining s \<Longrightarrow> drain_take (f_box s) = (items, mb) \<Longrightarrow>
    drain_replay ops al (mb_dead mb) items (f_heap s) = Some h \<Longrightarrow>
    ffi_step ops s (s\<lparr>f_box := mb, f_heap := h, f_draining := False, f_taken := f_taken s @ items\<rparr>)"

inductive_cases ffi_stepE: "ffi_step ops s s'"

definition handle_ok :: "mailbox \<Rightarrow> 'n heap \<Rightarrow> item \<Rightarrow> bool" where
  "handle_ok mb h it \<longleftrightarrow> it_call it = 0 \<or> h (it_call it) \<noteq> None \<or> it_call it \<in> set (mb_dead mb)"

definition ffi_inv :: "'n ffi \<Rightarrow> bool" where
  "ffi_inv s \<longleftrightarrow> mb_wakeup (f_box s) \<ge> 0 \<and> distinct (mb_dead (f_box s))
     \<and> list_all (handle_ok (f_box s) (f_heap s)) (mb_queue (f_box s))"

text \<open>What the abstract mailbox sees of an item: \<open>unregister_call\<close> rewrites handles in place.\<close>

definition item_op :: "item \<Rightarrow> int \<times> bytes \<times> bool \<times> grpc_status" where
  "item_op it = (it_call_id it, it_payload it, it_finish it, it_status it)"

definition ffi_view :: "'n ffi \<Rightarrow> (int \<times> bytes \<times> bool \<times> grpc_status) wake" where
  "ffi_view s =
     \<lparr>wk_queue = map item_op (mb_queue (f_box s)), wk_pushed = map item_op (f_pushed s),
      wk_taken = map item_op (f_taken s), wk_signal = f_signal s, wk_owed = f_owed s,
      wk_busy = f_draining s\<rparr>"

section \<open>Lemmas\<close>

lemma replay_safe:
  "list_all (handle_ok mb h) items \<Longrightarrow> \<exists>h'. drain_replay ops al (mb_dead mb) items h = Some h'
     \<and> dom h' = dom h"
proof (induction items arbitrary: h)
  case (Cons it items)
  show ?case
  proof (cases "it_call it = 0 \<or> it_call it \<in> set (mb_dead mb)")
    case True
    with Cons show ?thesis by simp
  next
    case False
    with Cons.prems obtain c where c: "h (it_call it) = Some c" by (auto simp: handle_ok_def)
    let ?h = "h(it_call it \<mapsto> replay_item ops al it c)"
    have "list_all (handle_ok mb ?h) items"
      using Cons.prems by (auto simp: handle_ok_def list_all_iff)
    with Cons.IH obtain h' where "drain_replay ops al (mb_dead mb) items ?h = Some h'"
      and "dom h' = dom ?h" by blast
    moreover have "dom ?h = dom h" using c by auto
    ultimately show ?thesis using False c by simp
  qed
qed simp

lemma replay_keeps_inv:
  assumes "drain_replay ops al dead items h = Some h'" and "\<forall>c \<in> ran h. conn_inv (cn_conn c)"
  shows "\<forall>c \<in> ran h'. conn_inv (cn_conn c)"
  using assms
proof (induction items arbitrary: h)
  case (Cons it items)
  have inv: "conn_inv (cn_conn (replay_item ops al it c))" if "conn_inv (cn_conn c)" for c :: "'a connection"
    using conn_step_inv [OF write_call_step that] conn_step_inv [OF finish_call_inner_step that]
    by (simp add: replay_item_def finish_call_msg_def)
  show ?case
  proof (cases "it_call it = 0 \<or> it_call it \<in> set dead")
    case True
    with Cons.prems have "drain_replay ops al dead items h = Some h'" by simp
    from Cons.IH [OF this Cons.prems(2)] show ?thesis .
  next
    case False
    with Cons.prems(1) obtain c where c: "h (it_call it) = Some c"
      and r: "drain_replay ops al dead items (h(it_call it \<mapsto> replay_item ops al it c)) = Some h'"
      by (auto split: option.splits)
    have "conn_inv (cn_conn (replay_item ops al it c))" using c Cons.prems(2) by (intro inv) (auto simp: ran_def)
    then have "\<forall>c \<in> ran (h(it_call it \<mapsto> replay_item ops al it c)). conn_inv (cn_conn c)"
      using Cons.prems(2) by (auto simp: ran_def)
    from Cons.IH [OF r this] show ?thesis .
  qed
qed simp

lemma enqueue_cases:
  assumes "enqueue_write al a i data mb = (Inr (), mb') \<or> enqueue_finish al a i st data mb = (Inr (), mb')"
  shows "\<exists>it. mb' = mb\<lparr>mb_queue := mb_queue mb @ [it]\<rparr> \<and> it_call it = a"
  using assms by (auto simp: enqueue_write_def enqueue_finish_def push_locked_def split: if_splits)

lemma enqueue_fails_same:
  assumes "enqueue_write al a i data mb = (Inl (), mb') \<or> enqueue_finish al a i st data mb = (Inl (), mb')"
  shows "mb' = mb"
  using assms by (auto simp: enqueue_write_def enqueue_finish_def push_locked_def split: if_splits)

lemma register_call_set:
  assumes "distinct (mb_dead mb)"
  shows "set (mb_dead (register_call a mb)) = set (mb_dead mb) - {a} \<and> distinct (mb_dead (register_call a mb))"
proof (cases "position (\<lambda>k. k = a) (mb_dead mb)")
  case None
  then have "a \<notin> set (mb_dead mb)" by (auto simp: position_None_iff find_None_iff)
  with None assms show ?thesis by (auto simp: register_call_def)
next
  case (Some pos)
  from position_SomeD [OF this] have p: "pos < length (mb_dead mb)" "mb_dead mb ! pos = a" by auto
  have "distinct (swap_remove pos (mb_dead mb))" "a \<notin> set (swap_remove pos (mb_dead mb))"
    using distinct_map_swap_remove [of id "mb_dead mb" pos] assms p by auto
  moreover have "insert a (set (swap_remove pos (mb_dead mb))) = set (mb_dead mb)"
    using arg_cong [OF mset_swap_remove [OF p(1)], of set_mset] p(2) by simp
  ultimately show ?thesis using Some by (auto simp: register_call_def)
qed

lemma register_call_rest [simp]:
  "mb_queue (register_call a mb) = mb_queue mb" "mb_wakeup (register_call a mb) = mb_wakeup mb"
  by (auto simp: register_call_def split: option.splits)

lemma unregister_call_sel:
  assumes "al_slot al"
  shows "mb_queue (unregister_call al a mb) = map (scrub a) (mb_queue mb)"
    and "set (mb_dead (unregister_call al a mb)) = insert a (set (mb_dead mb))"
    and "mb_wakeup (unregister_call al a mb) = mb_wakeup mb"
    and "distinct (mb_dead mb) \<Longrightarrow> distinct (mb_dead (unregister_call al a mb))"
  using assms by (auto simp: unregister_call_def Let_def)

lemma item_op_scrub [simp]: "item_op (scrub a it) = item_op it"
  by (simp add: item_op_def scrub_def)

lemma ffi_step_inv:
  assumes "ffi_step ops s s'" and "ffi_inv s"
  shows "ffi_inv s'"
  using assms(1)
proof (cases rule: ffi_step.cases)
  case (accept a c)
  then show ?thesis
    using assms(2) register_call_set [where mb = "f_box s" and a = a]
    by (auto simp: ffi_inv_def handle_ok_def list_all_iff)
next
  case (free a al)
  then show ?thesis
    using assms(2) unregister_call_sel [where al = al and a = a and mb = "f_box s"]
    by (auto simp: ffi_inv_def handle_ok_def list_all_iff scrub_def)
next
  case (direct a c)
  then show ?thesis using assms(2) by (auto simp: ffi_inv_def handle_ok_def list_all_iff)
next
  case (enqueue a al i data mb st)
  then obtain it where "mb = (f_box s)\<lparr>mb_queue := mb_queue (f_box s) @ [it]\<rparr>" "it_call it = a"
    using enqueue_cases by blast
  with enqueue assms(2) show ?thesis by (auto simp: ffi_inv_def handle_ok_def list_all_iff)
next
  case (enqueue_fails al a i data mb st)
  from enqueue_fails_same [OF this(2)] enqueue_fails assms(2) show ?thesis by simp
next
  case (takes items mb al h)
  then show ?thesis using assms(2) by (auto simp: ffi_inv_def drain_take_def)
qed (use assms(2) in \<open>auto simp: ffi_inv_def\<close>)

lemma ffi_step_view:
  assumes "ffi_step ops s s'" and "ffi_inv s"
  shows "wake_step\<^sup>*\<^sup>* (ffi_view s) (ffi_view s')"
  using assms(1)
proof (cases rule: ffi_step.cases)
  case (free a al)
  then have "ffi_view s' = ffi_view s"
    using unregister_call_sel(1) [of al a "f_box s"] by (simp add: ffi_view_def)
  then show ?thesis by simp
next
  case (enqueue a al i data mb st)
  then obtain it where "mb = (f_box s)\<lparr>mb_queue := mb_queue (f_box s) @ [it]\<rparr>"
    using enqueue_cases by blast
  with enqueue show ?thesis
    using wake_step.push [of True "ffi_view s" "item_op it"] by (auto simp: ffi_view_def)
next
  case (enqueue_fails al a i data mb st)
  from enqueue_fails_same [OF this(2)] enqueue_fails show ?thesis by (simp add: ffi_view_def)
next
  case poke
  then have "0 < poke (f_box s) (f_signal s)"
    using assms(2) by (auto simp: ffi_inv_def poke_def EVENTFD_MAX_def)
  with poke show ?thesis
    using wake_step.signal [of "ffi_view s" "poke (f_box s) (f_signal s)"] by (auto simp: ffi_view_def)
next
  case clear
  let ?w = "(ffi_view s)\<lparr>wk_busy := True\<rparr>"
  have "wake_step (ffi_view s) ?w" by (rule wake_step.wake)
  moreover have "wake_step ?w (?w\<lparr>wk_signal := 0\<rparr>)" by (rule wake_step.clear) simp
  moreover have "ffi_view s' = ?w\<lparr>wk_signal := 0\<rparr>"
    using clear assms(2) by (simp add: ffi_view_def drain_clear_def ffi_inv_def)
  ultimately show ?thesis by (metis converse_rtranclp_into_rtranclp rtranclp.rtrancl_refl)
next
  case (takes items mb al h)
  then show ?thesis
    using wake_step.takes [of "ffi_view s"] by (auto simp: ffi_view_def drain_take_def)
qed (auto simp: ffi_view_def)

interpretation ffi_wakeup: wakeup_queue ffi_view "ffi_step ops" ffi_inv for ops :: "'n ng_ops"
  by unfold_locales (auto intro: ffi_step_view ffi_step_inv)

lemma ffi_init_inv:
  assumes "0 \<le> fd"
  shows "ffi_inv (ffi_init fd me)" and "wake_inv (ffi_view (ffi_init fd me))"
  using assms
  by (simp_all add: ffi_inv_def ffi_init_def register_io_thread_def ensure_wakeup_def
      mailbox_new_def ffi_view_def wake_inv_def)


definition demo_open :: "unit connection" where
  "demo_open = \<lparr>cn_fd = 9, cn_conn = demo_conn [demo_stream 1 None]\<rparr>"

text \<open>A connection at address 100, a write queued for it from another thread, and the poke.\<close>

definition demo_accepted :: "unit ffi" where
  "demo_accepted =
     (ffi_init 3 1)\<lparr>f_box := register_call 100 (register_io_thread 3 1 mailbox_new),
                     f_heap := [100 \<mapsto> demo_open]\<rparr>"

definition demo_queued :: "unit ffi" where
  "demo_queued =
     (let mb = snd (enqueue_write al_all 100 1 [42] (f_box demo_accepted))
      in demo_accepted\<lparr>f_box := mb, f_owed := 1, f_pushed := [last (mb_queue mb)]\<rparr>)"

definition demo_poked :: "unit ffi" where
  "demo_poked = demo_queued\<lparr>f_signal := poke (f_box demo_queued) 0, f_owed := 0\<rparr>"

lemmas mailbox_eval = register_io_thread_def ensure_wakeup_def mailbox_new_def register_call_def
  unregister_call_def enqueue_write_def push_locked_def al_all_def swap_remove_def

lemma demo_reach: "(ffi_step demo_ops)\<^sup>*\<^sup>* (ffi_init 3 1) demo_poked"
proof -
  have "ffi_step demo_ops (ffi_init 3 1) demo_accepted"
    using ffi_step.accept [of "ffi_init 3 1" 100 demo_ops demo_open]
    by (simp add: demo_accepted_def ffi_init_def)
  moreover have "ffi_step demo_ops demo_accepted demo_queued"
    using ffi_step.enqueue [of demo_accepted 100 al_all 1 "[42]"
        "snd (enqueue_write al_all 100 1 [42] (f_box demo_accepted))" Ok demo_ops]
    by (simp add: demo_accepted_def ffi_init_def demo_queued_def mailbox_eval)
  moreover have "ffi_step demo_ops demo_queued demo_poked"
    using ffi_step.poke [of demo_queued demo_ops]
    by (simp add: demo_poked_def demo_queued_def demo_accepted_def ffi_init_def Let_def)
  ultimately show ?thesis by (meson converse_rtranclp_into_rtranclp rtranclp.rtrancl_refl)
qed

section \<open>Properties\<close>

text \<open>
  C5. Draining never touches a freed connection: in every interleaving of producers, accepts,
  frees and drains, including producers that keep using a freed handle, the replay of the
  queued operations finds each handle it dereferences mapped, and it neither maps nor unmaps
  any; connections that satisfied their invariant still do. (A free is taken to have had memory
  for its tombstone.)
\<close>

theorem mailbox_never_dangles:
  assumes "0 \<le> fd" and "(ffi_step ops)\<^sup>*\<^sup>* (ffi_init fd me) s"
  shows "\<exists>h. drain ops al (f_box s, f_signal s) (f_heap s)
        = Some (((f_box s)\<lparr>mb_queue := []\<rparr>, 0), h)
      \<and> dom h = dom (f_heap s)
      \<and> ((\<forall>c \<in> ran (f_heap s). conn_inv (cn_conn c)) \<longrightarrow> (\<forall>c \<in> ran h. conn_inv (cn_conn c)))"
proof -
  have inv: "ffi_inv s"
    using ffi_wakeup.run_inv [OF assms(2)] ffi_init_inv [OF assms(1)] by blast
  then obtain h where h: "drain_replay ops al (mb_dead (f_box s)) (mb_queue (f_box s)) (f_heap s) = Some h"
    and "dom h = dom (f_heap s)"
    using replay_safe [of "f_box s" "f_heap s" "mb_queue (f_box s)" ops al] by (auto simp: ffi_inv_def)
  moreover have "(\<forall>c \<in> ran (f_heap s). conn_inv (cn_conn c)) \<longrightarrow> (\<forall>c \<in> ran h. conn_inv (cn_conn c))"
    using replay_keeps_inv [OF h] by blast
  ultimately show ?thesis
    using inv by (simp add: drain_def drain_take_def drain_clear_def ffi_inv_def)
qed

theorem mailbox_never_dangles_witness:
  "\<exists>h. drain demo_ops al_all (f_box demo_poked, f_signal demo_poked) (f_heap demo_poked)
       = Some (((f_box demo_poked)\<lparr>mb_queue := []\<rparr>, 0), h)
     \<and> dom h = {100}"
proof -
  have "dom (f_heap demo_poked) = {100}"
    by (simp add: demo_poked_def demo_queued_def demo_accepted_def ffi_init_def Let_def)
  with mailbox_never_dangles [OF _ demo_reach, of al_all] show ?thesis by auto
qed

text \<open>
  C15. No wakeup is lost and order is kept: in every reachable state, operations still queued
  while no producer is between its push and its poke and no drain is under way have the
  \<open>eventfd\<close> readable, so the I/O thread's poll returns; and what has been pushed is what has been
  taken followed by what is queued, in order.
\<close>

theorem ffi_no_lost_wakeup:
  assumes "0 \<le> fd" and "(ffi_step ops)\<^sup>*\<^sup>* (ffi_init fd me) s"
  shows "(mb_queue (f_box s) \<noteq> [] \<and> f_owed s = 0 \<and> \<not> f_draining s \<longrightarrow> 0 < f_signal s)
    \<and> map item_op (f_pushed s) = map item_op (f_taken s @ mb_queue (f_box s))"
  using ffi_wakeup.no_lost_wakeup [OF assms(2) ffi_init_inv [OF assms(1)]]
    ffi_wakeup.fifo [OF assms(2) ffi_init_inv [OF assms(1)]]
  by (simp add: ffi_view_def)

theorem ffi_no_lost_wakeup_witness:
  "mb_queue (f_box demo_poked) \<noteq> [] \<and> 0 < f_signal demo_poked"
proof -
  have "mb_queue (f_box demo_poked) \<noteq> []" and "f_owed demo_poked = 0" and "\<not> f_draining demo_poked"
    by (simp_all add: demo_poked_def demo_queued_def demo_accepted_def ffi_init_def mailbox_eval)
  with ffi_no_lost_wakeup [OF _ demo_reach] show ?thesis by simp
qed


end
