(* ===== verification/Ffi_Server.thy ===== *)
theory Ffi_Server
  imports Ffi_Mailbox
begin

text \<open>
  The server half of the C ABI, \<open>rust/grpcuds-ffi-impl/src/server.rs\<close>: its error codes, server
  and connection handles, and the call operations with their two routes, directly into the core
  on the I/O thread and through the mailbox elsewhere. A pointer argument that may be null is an
  option, except that a call or connection handle is an address and null is 0. An operation
  that dereferences a handle yields \<open>None\<close> when nothing is mapped there, which in the source is
  undefined behaviour; operations that refuse null first never yield it for null.
\<close>

section \<open>Codes\<close>

definition ERR_NOENT :: int where "ERR_NOENT = - 2"
definition ERR_AGAIN :: int where "ERR_AGAIN = - 11"
definition ERR_NOMEM :: int where "ERR_NOMEM = - 12"
definition ERR_INVAL :: int where "ERR_INVAL = - 22"
definition ERR_PIPE :: int where "ERR_PIPE = - 32"

lemmas err_codes = ERR_NOENT_def ERR_AGAIN_def ERR_NOMEM_def ERR_INVAL_def ERR_PIPE_def

fun conn_err_to_c :: "conn_error \<Rightarrow> int" where
  "conn_err_to_c OutOfMemory = ERR_NOMEM"
| "conn_err_to_c StreamNotFound = ERR_NOENT"
| "conn_err_to_c StreamFinished = ERR_PIPE"
| "conn_err_to_c QueueFull = ERR_AGAIN"
| "conn_err_to_c (Nghttp2 rc) = rc"
| "conn_err_to_c (Session _) = - 1"

fun io_err_to_c :: "io_error \<Rightarrow> int" where
  "io_err_to_c (Errno n) = (if n > 0 then - n else - 1)"
| "io_err_to_c InvalidPath = ERR_INVAL"
| "io_err_to_c (Conn ce) = conn_err_to_c ce"

definition status_from_c :: "int \<Rightarrow> grpc_status" where
  "status_from_c status = (if 0 \<le> status \<and> status \<le> 16 then transmute_status (nat status) else Unknown)"

interpretation c_status: status_codec status_code status_from_c Unknown
proof -
  have "status_from_c = dispatch_status_from_i32"
    by (simp add: fun_eq_iff status_from_c_def dispatch_status_from_i32_def)
  with dispatch_status.status_codec_axioms show "status_codec status_code status_from_c Unknown"
    by simp
qed

definition unit_to_c :: "conn_error + unit \<Rightarrow> int" where
  "unit_to_c r = (case r of Inl e \<Rightarrow> conn_err_to_c e | Inr _ \<Rightarrow> 0)"

section \<open>Server handle\<close>

record c_method_entry =
  cm_path :: bytes
  cm_handler :: nat
  cm_user_data :: nat

record ffi_server =
  fs_listener :: "listener option"
  fs_methods :: "c_method_entry list"

definition server_new :: ffi_server where
  "server_new = \<lparr>fs_listener = None, fs_methods = []\<rparr>"

definition drop_listener :: "listener option \<Rightarrow> kernel \<Rightarrow> kernel" where
  "drop_listener l k = (case l of None \<Rightarrow> k | Some l \<Rightarrow> listener_drop l k)"

definition server_free :: "ffi_server option \<Rightarrow> kernel \<Rightarrow> kernel" where
  "server_free s k = (case s of None \<Rightarrow> k | Some srv \<Rightarrow> drop_listener (fs_listener srv) k)"

text \<open>Assigning the new listener drops the one the handle held.\<close>

definition server_bind_uds ::
    "int + int \<Rightarrow> int + unit \<Rightarrow> int + unit \<Rightarrow> ffi_server option \<Rightarrow> bytes option \<Rightarrow> kernel
       \<Rightarrow> int \<times> ffi_server option \<times> kernel" where
  "server_bind_uds sock bnd lst s path k =
     (case (s, path) of
        (Some srv, Some bs) \<Rightarrow>
          (case listener_bind sock bnd lst bs k of
             (Inr l, k) \<Rightarrow> (0, Some (srv\<lparr>fs_listener := Some l\<rparr>), drop_listener (fs_listener srv) k)
           | (Inl e, k) \<Rightarrow> (io_err_to_c e, s, k))
      | _ \<Rightarrow> (ERR_INVAL, s, k))"

definition server_listener_fd :: "ffi_server option \<Rightarrow> int" where
  "server_listener_fd s =
     (case s of None \<Rightarrow> ERR_INVAL
      | Some srv \<Rightarrow> (case fs_listener srv of None \<Rightarrow> - 1 | Some l \<Rightarrow> ls_fd l))"

definition server_register_method ::
    "alloc \<Rightarrow> ffi_server option \<Rightarrow> bytes option \<Rightarrow> nat option \<Rightarrow> nat \<Rightarrow> int \<times> ffi_server option" where
  "server_register_method al s path handler user_data =
     (case (s, path) of
        (Some srv, Some bs) \<Rightarrow>
          (case handler of
             None \<Rightarrow> (ERR_INVAL, s)
           | Some h \<Rightarrow>
               if \<not> al_bytes al (length bs) then (ERR_NOMEM, s)
               else if \<not> al_slot al then (ERR_NOMEM, s)
               else (0, Some (srv\<lparr>fs_methods := fs_methods srv
                       @ [\<lparr>cm_path = bs, cm_handler = h, cm_user_data = user_data\<rparr>]\<rparr>)))
      | _ \<Rightarrow> (ERR_INVAL, s))"

text \<open>
  Every method is registered with the core under the trampoline; its \<open>user_data\<close> is the address
  of the method's entry, here its index. \<open>c_handlers\<close> is the trampoline: it looks the entry up
  and runs the user's handler with the user's data.
\<close>

definition C_TRAMPOLINE :: nat where "C_TRAMPOLINE = 1"

definition c_handlers :: "ffi_server \<Rightarrow> handlers \<Rightarrow> handlers" where
  "c_handlers srv H handler user_data call_id req =
     (let entry = fs_methods srv ! user_data
      in H (cm_handler entry) (cm_user_data entry) call_id req)"

fun register_all ::
    "alloc \<Rightarrow> nat \<Rightarrow> c_method_entry list \<Rightarrow> 'n conn \<Rightarrow> (conn_error + unit) \<times> 'n conn" where
  "register_all al i [] c = (Inr (), c)"
| "register_all al i (e # es) c =
     (case register_method al (cm_path e) C_TRAMPOLINE i c of
        (Inl err, c) \<Rightarrow> (Inl err, c)
      | (Inr _, c) \<Rightarrow> register_all al (Suc i) es c)"

text \<open>\<open>addr\<close> is where the new connection is allocated; 0 is returned for no connection.\<close>

definition server_accept ::
    "alloc \<Rightarrow> nat \<Rightarrow> int + int \<Rightarrow> conn_error + 'n conn \<Rightarrow> ffi_server option \<Rightarrow> kernel \<Rightarrow> 'n abi
       \<Rightarrow> nat \<times> kernel \<times> 'n abi" where
  "server_accept al addr acc created s k w =
     (case s of
        None \<Rightarrow> (0, k, w)
      | Some srv \<Rightarrow>
          (case fs_listener srv of
             None \<Rightarrow> (0, k, w)
           | Some _ \<Rightarrow>
               (case listener_accept acc created k of
                  (Inl _, k) \<Rightarrow> (0, k, w)
                | (Inr None, k) \<Rightarrow> (0, k, w)
                | (Inr (Some cn), k) \<Rightarrow>
                    (case register_all al 0 (fs_methods srv) (cn_conn cn) of
                       (Inl _, _) \<Rightarrow> (0, connection_drop cn k, w)
                     | (Inr _, c) \<Rightarrow>
                         (addr, k, w\<lparr>f_box := register_call addr (f_box w),
                                     f_heap := (f_heap w)(addr \<mapsto> cn\<lparr>cn_conn := c\<rparr>)\<rparr>)))))"

section \<open>Connection handle\<close>

definition conn_free :: "alloc \<Rightarrow> nat \<Rightarrow> kernel \<Rightarrow> 'n abi \<Rightarrow> (kernel \<times> 'n abi) option" where
  "conn_free al a k w =
     (if a = 0 then Some (k, w)
      else case f_heap w a of
             None \<Rightarrow> None
           | Some cn \<Rightarrow>
               Some (connection_drop cn k,
                     w\<lparr>f_box := unregister_call al a (f_box w), f_heap := (f_heap w)(a := None)\<rparr>))"

definition conn_call_handle :: "nat \<Rightarrow> nat" where
  "conn_call_handle a = (if a = 0 then 0 else a)"

definition conn_fd_of :: "nat \<Rightarrow> 'n abi \<Rightarrow> int option" where
  "conn_fd_of a w = (if a = 0 then Some ERR_INVAL else map_option cn_fd (f_heap w a))"

definition tick_to_c :: "io_error + tick_status \<Rightarrow> int" where
  "tick_to_c r = (case r of Inr Live \<Rightarrow> 0 | Inr Closed \<Rightarrow> 1 | Inl e \<Rightarrow> io_err_to_c e)"

definition conn_tick_read ::
    "'n ng_ops \<Rightarrow> handlers \<Rightarrow> env \<Rightarrow> nat \<Rightarrow> 'n abi \<Rightarrow> net \<Rightarrow> (int \<times> 'n abi \<times> net) option" where
  "conn_tick_read ops H e a w net =
     (if a = 0 then Some (ERR_INVAL, w, net)
      else case f_heap w a of
             None \<Rightarrow> None
           | Some cn \<Rightarrow>
               (case tick_read ops H e cn net of
                  (r, cn, net) \<Rightarrow> Some (tick_to_c r, w\<lparr>f_heap := (f_heap w)(a \<mapsto> cn)\<rparr>, net)))"

definition conn_tick ::
    "'n ng_ops \<Rightarrow> handlers \<Rightarrow> env \<Rightarrow> nat \<Rightarrow> 'n abi \<Rightarrow> net \<Rightarrow> (int \<times> 'n abi \<times> net) option" where
  "conn_tick ops H e a w net = conn_tick_read ops H e a w net"

definition conn_tick_write ::
    "'n ng_ops \<Rightarrow> env \<Rightarrow> nat \<Rightarrow> 'n abi \<Rightarrow> net \<Rightarrow> (int \<times> 'n abi \<times> net) option" where
  "conn_tick_write ops e a w net =
     (if a = 0 then Some (ERR_INVAL, w, net)
      else case f_heap w a of
             None \<Rightarrow> None
           | Some cn \<Rightarrow>
               (case tick_write ops e cn net of
                  (r, cn, net) \<Rightarrow> Some (tick_to_c r, w\<lparr>f_heap := (f_heap w)(a \<mapsto> cn)\<rparr>, net)))"

definition i64_max :: nat where "i64_max = 2 ^ 63 - 1"

definition ms_to_c :: "nat option \<Rightarrow> int" where
  "ms_to_c r = (case r of Some ms \<Rightarrow> int (min ms i64_max) | None \<Rightarrow> - 1)"

definition conn_next_deadline_ms :: "nat \<Rightarrow> nat \<Rightarrow> 'n abi \<Rightarrow> int option" where
  "conn_next_deadline_ms now a w =
     (if a = 0 then Some ERR_INVAL
      else map_option (\<lambda>cn. ms_to_c (connection_next_deadline_ms now cn)) (f_heap w a))"

definition conn_wants_write_c :: "'n ng_ops \<Rightarrow> nat \<Rightarrow> 'n abi \<Rightarrow> int option" where
  "conn_wants_write_c ops a w =
     (if a = 0 then Some ERR_INVAL
      else map_option (\<lambda>cn. if wants_write ops cn then 1 else 0) (f_heap w a))"


section \<open>Calls\<close>

text \<open>The two routes of a call operation: into the connection, or into the mailbox.\<close>

definition with_conn ::
    "nat \<Rightarrow> ('n conn \<Rightarrow> (conn_error + unit) \<times> 'n conn) \<Rightarrow> 'n abi \<Rightarrow> (int \<times> 'n abi) option" where
  "with_conn a f w =
     (case f_heap w a of
        None \<Rightarrow> None
      | Some cn \<Rightarrow>
          let (r, c) = f (cn_conn cn)
          in Some (unit_to_c r, w\<lparr>f_heap := (f_heap w)(a \<mapsto> cn\<lparr>cn_conn := c\<rparr>)\<rparr>))"

definition with_mailbox ::
    "(mailbox \<Rightarrow> (unit + unit) \<times> mailbox) \<Rightarrow> 'n abi \<Rightarrow> int \<times> 'n abi" where
  "with_mailbox f w =
     (case f (f_box w) of
        (Inl _, mb) \<Rightarrow> (ERR_NOMEM, w\<lparr>f_box := mb\<rparr>)
      | (Inr _, mb) \<Rightarrow> (0, w\<lparr>f_box := mb, f_signal := poke mb (f_signal w)\<rparr>))"

definition c_slice :: "bytes option \<Rightarrow> nat \<Rightarrow> bytes" where
  "c_slice p len = (case p of None \<Rightarrow> [] | Some d \<Rightarrow> take len d)"

definition call_write ::
    "'n ng_ops \<Rightarrow> alloc \<Rightarrow> nat \<Rightarrow> nat \<Rightarrow> int \<Rightarrow> bytes option \<Rightarrow> nat \<Rightarrow> 'n abi \<Rightarrow> (int \<times> 'n abi) option"
  where
  "call_write ops al me call call_id data len w =
     (if call = 0 \<or> (data = None \<and> len > 0) then Some (ERR_INVAL, w)
      else let slice = (if len = 0 then [] else c_slice data len)
           in if on_io_thread me (f_box w)
              then with_conn call (write_call ops al call_id slice) w
              else Some (with_mailbox (enqueue_write al call call_id slice) w))"

definition call_finish ::
    "'n ng_ops \<Rightarrow> alloc \<Rightarrow> nat \<Rightarrow> nat \<Rightarrow> int \<Rightarrow> int \<Rightarrow> 'n abi \<Rightarrow> (int \<times> 'n abi) option" where
  "call_finish ops al me call call_id status w =
     (if call = 0 then Some (ERR_INVAL, w)
      else let st = status_from_c status
           in if on_io_thread me (f_box w)
              then with_conn call (finish_call ops call_id st) w
              else Some (with_mailbox (enqueue_finish al call call_id st []) w))"

definition call_finish_msg ::
    "'n ng_ops \<Rightarrow> alloc \<Rightarrow> nat \<Rightarrow> nat \<Rightarrow> int \<Rightarrow> int \<Rightarrow> bytes option \<Rightarrow> nat \<Rightarrow> 'n abi
       \<Rightarrow> (int \<times> 'n abi) option" where
  "call_finish_msg ops al me call call_id status msg msg_len w =
     (if call = 0 then Some (ERR_INVAL, w)
      else let bs = (if msg = None \<or> msg_len = 0 then [] else c_slice msg msg_len);
               st = status_from_c status
           in if on_io_thread me (f_box w)
              then with_conn call (finish_call_msg ops call_id st bs) w
              else Some (with_mailbox (enqueue_finish al call call_id st bs) w))"

definition call_time_remaining_ms_c :: "nat \<Rightarrow> nat \<Rightarrow> int \<Rightarrow> 'n abi \<Rightarrow> int option" where
  "call_time_remaining_ms_c now call call_id w =
     (if call = 0 then Some ERR_INVAL
      else map_option (\<lambda>cn. case call_time_remaining_ms now call_id (cn_conn cn) of
                              Inr r \<Rightarrow> ms_to_c r | Inl _ \<Rightarrow> ERR_NOENT) (f_heap w call))"

definition call_set_cancel_hook ::
    "nat \<Rightarrow> int \<Rightarrow> nat option \<Rightarrow> nat \<Rightarrow> 'n abi \<Rightarrow> (int \<times> 'n abi) option" where
  "call_set_cancel_hook call call_id callback user_data w =
     (if call = 0 then Some (ERR_INVAL, w)
      else case callback of
             None \<Rightarrow> Some (ERR_INVAL, w)
           | Some cb \<Rightarrow> with_conn call (set_cancel_hook call_id cb user_data) w)"

definition call_set_backpressure_unbounded ::
    "nat \<Rightarrow> int \<Rightarrow> 'n abi \<Rightarrow> (int \<times> 'n abi) option" where
  "call_set_backpressure_unbounded call call_id w =
     (if call = 0 then Some (ERR_INVAL, w) else with_conn call (set_stream_policy call_id Unbounded) w)"

definition policy_from_c :: "int \<Rightarrow> overflow_policy option" where
  "policy_from_c kind = (if kind = 0 then Some Reject else if kind = 1 then Some DropOldest else None)"

definition call_set_backpressure_bounded ::
    "nat \<Rightarrow> int \<Rightarrow> nat \<Rightarrow> int \<Rightarrow> 'n abi \<Rightarrow> (int \<times> 'n abi) option" where
  "call_set_backpressure_bounded call call_id capacity policy_kind w =
     (if call = 0 then Some (ERR_INVAL, w)
      else if capacity = 0 then Some (ERR_INVAL, w)
      else case policy_from_c policy_kind of
             None \<Rightarrow> Some (ERR_INVAL, w)
           | Some policy \<Rightarrow> with_conn call (set_stream_policy call_id (Bounded capacity policy)) w)"

definition mailbox_wakeup_fd :: "int \<Rightarrow> 'n abi \<Rightarrow> int \<times> 'n abi" where
  "mailbox_wakeup_fd newfd w =
     (let (fd, mb) = wakeup_fd newfd (f_box w) in (fd, w\<lparr>f_box := mb\<rparr>))"

definition mailbox_register_io_thread :: "int \<Rightarrow> nat \<Rightarrow> 'n abi \<Rightarrow> 'n abi" where
  "mailbox_register_io_thread newfd me w = w\<lparr>f_box := register_io_thread newfd me (f_box w)\<rparr>"

definition mailbox_drain :: "'n ng_ops \<Rightarrow> alloc \<Rightarrow> 'n abi \<Rightarrow> 'n abi option" where
  "mailbox_drain ops al w =
     map_option (\<lambda>((mb, n), h). w\<lparr>f_box := mb, f_heap := h, f_signal := n\<rparr>)
       (drain ops al (f_box w, f_signal w) (f_heap w))"


section \<open>Sequences of call operations\<close>

datatype c_op =
    OpWrite (op_call: nat) int bytes
  | OpFinish (op_call: nat) int int
  | OpFinishMsg (op_call: nat) int int bytes

fun run_c_op :: "'n ng_ops \<Rightarrow> nat \<Rightarrow> c_op \<Rightarrow> 'n abi \<Rightarrow> (int \<times> 'n abi) option" where
  "run_c_op ops me (OpWrite a i data) w = call_write ops al_all me a i (Some data) (length data) w"
| "run_c_op ops me (OpFinish a i status) w = call_finish ops al_all me a i status w"
| "run_c_op ops me (OpFinishMsg a i status msg) w =
     call_finish_msg ops al_all me a i status (Some msg) (length msg) w"

primrec run_c_ops :: "'n ng_ops \<Rightarrow> nat \<Rightarrow> c_op list \<Rightarrow> 'n abi \<Rightarrow> 'n abi option" where
  "run_c_ops ops me [] w = Some w"
| "run_c_ops ops me (x # xs) w =
     (case run_c_op ops me x w of None \<Rightarrow> None | Some (_, w) \<Rightarrow> run_c_ops ops me xs w)"

fun op_item :: "c_op \<Rightarrow> item" where
  "op_item (OpWrite a i data) =
     \<lparr>it_call = a, it_call_id = i, it_payload = data, it_finish = False, it_status = Ok\<rparr>"
| "op_item (OpFinish a i status) =
     \<lparr>it_call = a, it_call_id = i, it_payload = [], it_finish = True, it_status = status_from_c status\<rparr>"
| "op_item (OpFinishMsg a i status msg) =
     \<lparr>it_call = a, it_call_id = i, it_payload = msg, it_finish = True, it_status = status_from_c status\<rparr>"

lemma op_item_call [simp]: "it_call (op_item x) = op_call x"
  by (cases x) simp_all

lemma finish_call_empty: "finish_call_msg ops i st [] c = finish_call ops i st c"
proof -
  have "finish_queue st (Some []) = finish_queue st None"
    by (simp add: finish_queue_def fun_eq_iff)
  then show ?thesis unfolding finish_call_msg_def finish_call_def finish_call_inner_def by metis
qed

lemma direct_op:
  assumes "mb_io_registered (f_box w)" and "mb_io_thread (f_box w) = me" and "op_call x \<noteq> 0"
    and "f_heap w (op_call x) = Some cn"
  shows "\<exists>rc. run_c_op ops me x w
    = Some (rc, w\<lparr>f_heap := (f_heap w)(op_call x \<mapsto> replay_item ops al_all (op_item x) cn)\<rparr>)"
  using assms
  by (cases x) (auto simp: call_write_def call_finish_def call_finish_msg_def on_io_thread_def
      with_conn_def c_slice_def replay_item_def finish_call_empty Let_def split: prod.splits)

lemma queued_op:
  assumes "mb_io_registered (f_box w)" and "mb_io_thread (f_box w) \<noteq> me" and "op_call x \<noteq> 0"
  shows "run_c_op ops me x w
    = Some (0, w\<lparr>f_box := (f_box w)\<lparr>mb_queue := mb_queue (f_box w) @ [op_item x]\<rparr>,
                 f_signal := poke (f_box w) (f_signal w)\<rparr>)"
  using assms
  by (cases x) (auto simp: call_write_def call_finish_def call_finish_msg_def on_io_thread_def
      with_mailbox_def enqueue_write_def enqueue_finish_def push_locked_def al_all_def c_slice_def
      poke_def)

lemma direct_ops:
  assumes "mb_io_registered (f_box w)" and "mb_io_thread (f_box w) = me"
    and "\<forall>x \<in> set xs. op_call x \<noteq> 0 \<and> f_heap w (op_call x) \<noteq> None \<and> op_call x \<notin> set dead"
  shows "\<exists>h. run_c_ops ops me xs w = Some (w\<lparr>f_heap := h\<rparr>)
    \<and> drain_replay ops al_all dead (map op_item xs) (f_heap w) = Some h"
  using assms
proof (induction xs arbitrary: w)
  case (Cons x xs)
  from Cons.prems(3) obtain cn where cn: "f_heap w (op_call x) = Some cn" and "op_call x \<noteq> 0"
    and "op_call x \<notin> set dead" by auto
  let ?w = "w\<lparr>f_heap := (f_heap w)(op_call x \<mapsto> replay_item ops al_all (op_item x) cn)\<rparr>"
  obtain rc where x: "run_c_op ops me x w = Some (rc, ?w)"
    using direct_op [OF Cons.prems(1,2) \<open>op_call x \<noteq> 0\<close> cn] by blast
  have live: "\<forall>y \<in> set xs. op_call y \<noteq> 0 \<and> f_heap ?w (op_call y) \<noteq> None \<and> op_call y \<notin> set dead"
    using Cons.prems(3) by auto
  have "mb_io_registered (f_box ?w)" and "mb_io_thread (f_box ?w) = me" using Cons.prems by simp_all
  from Cons.IH [OF this live] obtain h where "run_c_ops ops me xs ?w = Some (?w\<lparr>f_heap := h\<rparr>)"
    and "drain_replay ops al_all dead (map op_item xs) (f_heap ?w) = Some h" by blast
  with x cn \<open>op_call x \<noteq> 0\<close> \<open>op_call x \<notin> set dead\<close> show ?case by simp
qed simp

lemma queued_ops:
  assumes "mb_io_registered (f_box w)" and "mb_io_thread (f_box w) \<noteq> me"
    and "\<forall>x \<in> set xs. op_call x \<noteq> 0"
  shows "\<exists>n. run_c_ops ops me xs w
    = Some (w\<lparr>f_box := (f_box w)\<lparr>mb_queue := mb_queue (f_box w) @ map op_item xs\<rparr>, f_signal := n\<rparr>)"
  using assms
proof (induction xs arbitrary: w)
  case Nil
  then show ?case by (intro exI [of _ "f_signal w"]) simp
next
  case (Cons x xs)
  let ?w = "w\<lparr>f_box := (f_box w)\<lparr>mb_queue := mb_queue (f_box w) @ [op_item x]\<rparr>,
              f_signal := poke (f_box w) (f_signal w)\<rparr>"
  have "run_c_op ops me x w = Some (0, ?w)" using Cons.prems by (intro queued_op) auto
  with Cons.IH [of ?w] Cons.prems show ?case by simp
qed

definition demo_abi :: "unit abi" where
  "demo_abi = \<lparr>f_box = register_io_thread 3 1 mailbox_new, f_heap = [100 \<mapsto> demo_open], f_signal = 0\<rparr>"

lemma register_all_methods:
  "register_all al i es c = (Inr (), c') \<Longrightarrow>
     methods c' = methods c @ map (\<lambda>(j, e). \<lparr>me_path = cm_path e, me_handler = C_TRAMPOLINE,
         me_user_data = j, me_backpressure = None\<rparr>) (enumerate i es)"
proof (induction es arbitrary: i c)
  case (Cons e es)
  then show ?case
    by (auto simp: register_method_def register_method_inner_def split: if_splits)
qed simp

lemma find_enumerate:
  "find (\<lambda>m. me_path m = path) (map (\<lambda>(j, e). \<lparr>me_path = cm_path e, me_handler = h,
       me_user_data = j, me_backpressure = bp\<rparr>) (enumerate i es))
   = map_option (\<lambda>n. \<lparr>me_path = path, me_handler = h, me_user_data = i + n,
       me_backpressure = bp\<rparr>) (position (\<lambda>e. cm_path e = path) es)"
proof (induction es arbitrary: i)
  case (Cons e es)
  then show ?case by (simp add: option.map_comp comp_def)
qed simp

text \<open>
  Binding a server a second time to its own path leaves it without a socket file: the new
  listener unlinks and recreates the file, and dropping the old listener then unlinks it again.
\<close>

lemma rebind_removes_socket:
  assumes "trim_nul path \<noteq> []" and "length (trim_nul path) < SUN_PATH_LEN"
    and "fs_listener srv = Some \<lparr>ls_fd = fd, ls_addr = trim_nul path\<rparr>"
  shows "\<exists>srv' k'. server_bind_uds (Inr fd') (Inr ()) (Inr ()) (Some srv) (Some path) k = (0, Some srv', k')
    \<and> map_option ls_addr (fs_listener srv') = Some (trim_nul path)
    \<and> k_unlinked k' = k_unlinked k @ [trim_nul path, trim_nul path]"
  using assms
  by (simp add: server_bind_uds_def listener_bind_def drop_listener_def listener_drop_def
      close_fd_def unlink_def SUN_PATH_LEN_def Let_def)

section \<open>Properties\<close>

text \<open>
  C17. The mailbox changes where an operation runs and not what it does: a sequence of writes
  and finishes on live calls, issued from another thread and then drained, leaves every
  connection exactly as the same sequence issued on the I/O thread, and touches no connection
  before the drain.
\<close>

theorem mailbox_route_equivalent:
  fixes w :: "'n abi"
  assumes "mb_io_registered (f_box w)" and "mb_io_thread (f_box w) = io" and "me \<noteq> io"
    and "mb_queue (f_box w) = []"
    and "\<forall>x \<in> set xs. op_call x \<noteq> 0 \<and> f_heap w (op_call x) \<noteq> None
           \<and> op_call x \<notin> set (mb_dead (f_box w))"
  shows "\<exists>direct queued drained. run_c_ops ops io xs w = Some direct
    \<and> run_c_ops ops me xs w = Some queued \<and> f_heap queued = f_heap w
    \<and> mailbox_drain ops al_all queued = Some drained \<and> f_heap drained = f_heap direct
    \<and> mb_queue (f_box drained) = []"
proof -
  obtain h where d: "run_c_ops ops io xs w = Some (w\<lparr>f_heap := h\<rparr>)"
    "drain_replay ops al_all (mb_dead (f_box w)) (map op_item xs) (f_heap w) = Some h"
    using direct_ops [OF assms(1,2,5)] by blast
  obtain n where q: "run_c_ops ops me xs w
      = Some (w\<lparr>f_box := (f_box w)\<lparr>mb_queue := map op_item xs\<rparr>, f_signal := n\<rparr>)"
    using queued_ops [of w me xs ops] assms by auto
  show ?thesis using d q by (simp add: mailbox_drain_def drain_def drain_take_def Let_def)
qed

theorem mailbox_route_equivalent_witness:
  "\<exists>direct queued drained.
      run_c_ops demo_ops 1 [OpWrite 100 1 [7], OpFinish 100 1 0] demo_abi = Some direct
    \<and> run_c_ops demo_ops 2 [OpWrite 100 1 [7], OpFinish 100 1 0] demo_abi = Some queued
    \<and> f_heap queued = f_heap demo_abi
    \<and> mailbox_drain demo_ops al_all queued = Some drained \<and> f_heap drained = f_heap direct"
proof -
  have "mb_io_registered (f_box demo_abi)" "mb_io_thread (f_box demo_abi) = 1" "2 \<noteq> (1 :: nat)"
    "mb_queue (f_box demo_abi) = []"
    "\<forall>x \<in> set [OpWrite 100 1 [7], OpFinish 100 1 0].
       op_call x \<noteq> 0 \<and> f_heap demo_abi (op_call x) \<noteq> None \<and> op_call x \<notin> set (mb_dead (f_box demo_abi))"
    by (simp_all add: demo_abi_def mailbox_eval)
  from mailbox_route_equivalent [OF this, of demo_ops] show ?thesis by blast
qed

text \<open>
  What \<open>grpcuds_call_write\<close> answers for a live connection on the I/O thread: 0, or exactly
  one of the documented codes: no such stream, stream already finished, queue full under the
  rejecting policy (or a message whose length does not fit the frame header), out of memory.
\<close>

lemma call_write_codes:
  assumes "call \<noteq> 0" and "f_heap w call = Some cn" and "on_io_thread me (f_box w)"
  shows "\<exists>rc w'. call_write ops al me call i (Some data) (length data) w = Some (rc, w')
    \<and> rc \<in> {0, ERR_NOENT, ERR_PIPE, ERR_AGAIN, ERR_NOMEM}
    \<and> (rc = ERR_NOENT \<longleftrightarrow> find_stream (cn_conn cn) i = None)
    \<and> (rc = ERR_PIPE \<longleftrightarrow> (\<exists>s. find_stream (cn_conn cn) i = Some s \<and> finished (sc_out s)))
    \<and> (al = al_all \<longrightarrow> (rc = ERR_AGAIN \<longleftrightarrow> (\<exists>s. find_stream (cn_conn cn) i = Some s
          \<and> \<not> finished (sc_out s)
          \<and> (2 ^ 32 - 1 < length data \<or> overflow (sc_out s) = Some Reject))) \<and> rc \<noteq> ERR_NOMEM)"
proof -
  obtain r c where r: "write_call ops al i data (cn_conn cn) = (r, c)" by fastforce
  then have w: "call_write ops al me call i (Some data) (length data) w
      = Some (unit_to_c r, w\<lparr>f_heap := (f_heap w)(call \<mapsto> cn\<lparr>cn_conn := c\<rparr>)\<rparr>)"
    using assms by (auto simp: call_write_def with_conn_def c_slice_def Let_def)
  show ?thesis
    unfolding w using r
    by (auto simp: write_call_def write_call_with_def enqueue_framed_def enqueue_owned_def
        unit_to_c_def err_codes al_all_def Let_def split: option.splits if_splits prod.splits)
qed


text \<open>
  Calls reach the C handler they were registered for: on a connection accepted by the C
  server, the method the dispatcher finds for a path is the first entry registered for it, and
  running it through the trampoline runs that entry's handler with that entry's user data.
\<close>

lemma accepted_methods_route:
  assumes "server_accept al addr acc created (Some srv) k w = (a, k', w')" and "a \<noteq> 0"
    and "created = Inr c0" and "methods c0 = []"
  shows "\<exists>cn. f_heap w' a = Some cn
    \<and> (case position (\<lambda>e. cm_path e = path) (fs_methods srv) of
         None \<Rightarrow> find_method path (cn_conn cn) = None
       | Some n \<Rightarrow> (\<exists>m. find_method path (cn_conn cn) = Some m
           \<and> c_handlers srv H (me_handler m) (me_user_data m)
             = H (cm_handler (fs_methods srv ! n)) (cm_user_data (fs_methods srv ! n))))"
proof -
  obtain fd c where cn: "f_heap w' a = Some \<lparr>cn_fd = fd, cn_conn = c\<rparr>"
    and r: "register_all al 0 (fs_methods srv) (set_fd fd c0) = (Inr (), c)"
    using assms by (auto simp: server_accept_def listener_accept_def set_fd_def Let_def
        split: option.splits sum.splits prod.splits if_splits)
  show ?thesis
    using cn register_all_methods [OF r] assms(4) find_enumerate [of path C_TRAMPOLINE None 0 "fs_methods srv"]
    by (auto simp: find_method_def c_handlers_def fun_eq_iff set_fd_def Let_def split: option.splits)
qed

end
