(* ===== verification/Ffi_Health.thy ===== *)
theory Ffi_Health
  imports Ffi_Server
begin

unbundle bit_operations_syntax

text \<open>
  The health service of the C ABI, \<open>rust/grpcuds-ffi-impl/src/health.rs\<close>: the two hand-written
  protobuf codecs, the registry of statuses and watchers, the \<open>Check\<close> and \<open>Watch\<close> handlers and
  the operations that register the service and change a status. A handler is a program of core
  calls, as in \<open>Dispatch\<close>; \<open>Watch\<close> also changes the registry. The reads of a request at index
  \<open>i\<close> are modelled on the bytes from \<open>i\<close> on.
\<close>

section \<open>Wire helpers\<close>

definition H_UNKNOWN :: int where "H_UNKNOWN = 0"
definition H_SERVING :: int where "H_SERVING = 1"
definition H_SERVICE_UNKNOWN :: int where "H_SERVICE_UNKNOWN = 3"

definition encode_response :: "alloc \<Rightarrow> int \<Rightarrow> bytes" where
  "encode_response al status =
     (if status = H_UNKNOWN then []
      else if \<not> al_bytes al 2 then []
      else [0x08, word_of_int status])"

fun read_varint :: "bytes \<Rightarrow> 64 word \<Rightarrow> nat \<Rightarrow> (64 word \<times> bytes) option" where
  "read_varint [] len shift = None"
| "read_varint (b # rest) len shift =
     (if shift \<ge> 64 then None
      else let len = len OR push_bit shift (ucast (b AND 0x7F))
           in if b AND 0x80 = 0 then Some (len, rest) else read_varint rest len (shift + 7))"

lemma read_varint_shorter: "read_varint d len shift = Some (n, rest) \<Longrightarrow> length rest < length d"
  by (induction d len shift rule: read_varint.induct) (auto simp: Let_def split: if_splits)

function decode_fields :: "bytes \<Rightarrow> bytes \<Rightarrow> bytes option" where
  "decode_fields [] service = Some service"
| "decode_fields (tag # d) service =
     (if tag \<noteq> 0x0A then None
      else case read_varint d 0 0 of
             None \<Rightarrow> None
           | Some (len, rest) \<Rightarrow>
               if unat len > length rest then None
               else decode_fields (drop (unat len) rest) (take (unat len) rest))"
  by pat_completeness auto
termination
  by (relation "measure (length \<circ> fst)") (auto dest!: read_varint_shorter)

definition decode_check_request :: "bytes \<Rightarrow> bytes option" where
  "decode_check_request d = decode_fields d []"

section \<open>Registry\<close>

record watcher =
  wt_addr :: nat
  wt_call :: nat
  wt_call_id :: int
  wt_service :: bytes
  wt_live :: bool

record health =
  hs_statuses :: "(bytes \<times> int) list"
  hs_watchers :: "watcher list"
  hs_seeded :: bool

definition health_new :: health where
  "health_new = \<lparr>hs_statuses = [], hs_watchers = [], hs_seeded = False\<rparr>"

definition health_find :: "health \<Rightarrow> bytes \<Rightarrow> int option" where
  "health_find hs service = map_option snd (find (\<lambda>e. fst e = service) (hs_statuses hs))"

definition health_set :: "alloc \<Rightarrow> bytes \<Rightarrow> int \<Rightarrow> health \<Rightarrow> health" where
  "health_set al service status hs =
     (if find (\<lambda>e. fst e = service) (hs_statuses hs) \<noteq> None
      then hs\<lparr>hs_statuses := upd_first (\<lambda>e. fst e = service) (\<lambda>e. (fst e, status)) (hs_statuses hs)\<rparr>
      else if \<not> al_bytes al (length service) \<or> \<not> al_slot al then hs
      else hs\<lparr>hs_statuses := hs_statuses hs @ [(service, status)]\<rparr>)"

section \<open>Handlers\<close>

definition MALFORMED :: bytes where "MALFORMED = ascii ''malformed HealthCheckRequest''"

definition check_tr :: "alloc \<Rightarrow> health \<Rightarrow> int \<Rightarrow> bytes \<Rightarrow> handler_prog" where
  "check_tr al hs call_id req =
     (case decode_check_request req of
        None \<Rightarrow> HCall (ApiFinishMsg call_id InvalidArgument MALFORMED) (\<lambda>_. HRet 0)
      | Some service \<Rightarrow>
          (case health_find hs service of
             None \<Rightarrow> HCall (ApiFinishMsg call_id NotFound (ascii ''unknown service'')) (\<lambda>_. HRet 0)
           | Some s \<Rightarrow>
               HCall (ApiWrite al call_id (encode_response al s))
                 (\<lambda>_. HCall (ApiFinishMsg call_id Ok []) (\<lambda>_. HRet 0))))"

definition ON_CANCEL :: nat where "ON_CANCEL = 2"

text \<open>\<open>addr\<close> is the address of the watcher's box, the cancel hook's \<open>user_data\<close>.\<close>

definition watch_tr ::
    "alloc \<Rightarrow> nat \<Rightarrow> nat \<Rightarrow> int \<Rightarrow> bytes \<Rightarrow> health \<Rightarrow> handler_prog \<times> health" where
  "watch_tr al addr call call_id req hs =
     (case decode_check_request req of
        None \<Rightarrow> (HCall (ApiFinishMsg call_id InvalidArgument MALFORMED) (\<lambda>_. HRet 0), hs)
      | Some service \<Rightarrow>
          if \<not> al_bytes al (length service)
          then (HCall (ApiFinishMsg call_id Internal []) (\<lambda>_. HRet 0), hs)
          else
            let current = (case health_find hs service of None \<Rightarrow> H_SERVICE_UNKNOWN | Some s \<Rightarrow> s);
                hs = hs\<lparr>hs_watchers := filter wt_live (hs_watchers hs)\<rparr>;
                answer = HCall (ApiWrite al call_id (encode_response al current)) (\<lambda>_. HRet 0)
            in if \<not> al_slot al then (answer, hs)
               else (HCall (ApiSetCancelHook call_id ON_CANCEL addr) (\<lambda>_. answer),
                     hs\<lparr>hs_watchers := hs_watchers hs
                       @ [\<lparr>wt_addr = addr, wt_call = call, wt_call_id = call_id,
                           wt_service = service, wt_live = True\<rparr>]\<rparr>))"

definition on_cancel :: "nat \<Rightarrow> health \<Rightarrow> health" where
  "on_cancel user_data hs =
     (if user_data = 0 then hs
      else hs\<lparr>hs_watchers := upd_first (\<lambda>w. wt_addr w = user_data) (\<lambda>w. w\<lparr>wt_live := False\<rparr>)
                               (hs_watchers hs)\<rparr>)"

section \<open>The C entry points\<close>

definition CHECK_TR :: nat where "CHECK_TR = 3"
definition WATCH_TR :: nat where "WATCH_TR = 4"

definition health_register ::
    "alloc \<Rightarrow> ffi_server option \<Rightarrow> health \<Rightarrow> int \<times> ffi_server option \<times> health" where
  "health_register al s hs =
     (if s = None then (ERR_INVAL, s, hs)
      else let hs = (if \<not> hs_seeded hs then (health_set al [] H_SERVING hs)\<lparr>hs_seeded := True\<rparr> else hs);
               (rc, s) = server_register_method al s (Some (ascii ''/grpc.health.v1.Health/Check''))
                           (Some CHECK_TR) 0
           in if rc \<noteq> 0 then (rc, s, hs)
              else let (rc, s) = server_register_method al s
                                   (Some (ascii ''/grpc.health.v1.Health/Watch'')) (Some WATCH_TR) 0
                   in (rc, s, hs))"

text \<open>
  \<open>grpcuds_health_set_status\<close> in its two parts: under the lock, the new status and the snapshot
  of the watchers (cut short when the target list cannot grow); afterwards the writes.
\<close>

definition set_status_locked ::
    "alloc \<Rightarrow> bytes option \<Rightarrow> int \<Rightarrow> health \<Rightarrow> (nat \<times> int) list \<times> health" where
  "set_status_locked al service status hs =
     (let name = (case service of None \<Rightarrow> [] | Some s \<Rightarrow> s);
          hs = health_set al name status hs;
          matching = filter (\<lambda>w. wt_live w \<and> wt_service w = name) (hs_watchers hs)
      in (if al_slot al then map (\<lambda>w. (wt_call w, wt_call_id w)) matching else [], hs))"

fun notify ::
    "'n ng_ops \<Rightarrow> alloc \<Rightarrow> nat \<Rightarrow> bytes \<Rightarrow> (nat \<times> int) list \<Rightarrow> 'n abi \<Rightarrow> 'n abi option" where
  "notify ops al me msg [] w = Some w"
| "notify ops al me msg ((call, call_id) # targets) w =
     (case call_write ops al me call call_id (Some msg) (length msg) w of
        None \<Rightarrow> None
      | Some (_, w) \<Rightarrow> notify ops al me msg targets w)"

definition health_set_status ::
    "'n ng_ops \<Rightarrow> alloc \<Rightarrow> nat \<Rightarrow> bytes option \<Rightarrow> int \<Rightarrow> health \<Rightarrow> 'n abi \<Rightarrow> (health \<times> 'n abi) option"
  where
  "health_set_status ops al me service status hs w =
     (let (targets, hs) = set_status_locked al service status hs
      in map_option (Pair hs) (notify ops al me (encode_response al status) targets w))"


section \<open>Lemmas\<close>

subsection \<open>Varints\<close>

text \<open>The protobuf encoding of a length, as its specification has it.\<close>

fun varint :: "nat \<Rightarrow> bytes" where
  "varint n = (if n < 128 then [of_nat n] else of_nat (n mod 128 + 128) # varint (n div 128))"

declare varint.simps [simp del]

definition check_request :: "bytes \<Rightarrow> bytes" where
  "check_request service = (if service = [] then [] else 0x0A # varint (length service) @ service)"

lemma varint_byte:
  assumes "m < 128"
  shows "(of_nat m :: byte) AND 0x80 = 0" and "(of_nat (m + 128) :: byte) AND 0x80 \<noteq> 0"
    and "(ucast ((of_nat m :: byte) AND 0x7F) :: 64 word) = of_nat m"
    and "(ucast ((of_nat (m + 128) :: byte) AND 0x7F) :: 64 word) = of_nat m"
proof -
  have low: "x AND 0x7F = take_bit 7 x" for x :: byte
    by (simp add: take_bit_eq_mask mask_eq_exp_minus_1)
  have top: "x AND 0x80 = 0 \<longleftrightarrow> \<not> bit x 7" for x :: byte
    using and_exp_eq_0_iff_not_bit [of x 7] by simp
  have "(m + 128) div 128 = 1" using assms by simp
  then have m: "take_bit 7 m = m" "take_bit 7 (m + 128) = m" "\<not> bit m 7" "bit (m + 128) 7"
    using assms by (simp_all add: take_bit_eq_mod bit_iff_odd)
  show "(of_nat m :: byte) AND 0x80 = 0" "(of_nat (m + 128) :: byte) AND 0x80 \<noteq> 0"
    unfolding top bit_of_nat_iff using m by (simp_all add: possible_bit_word)
  show "(ucast ((of_nat m :: byte) AND 0x7F) :: 64 word) = of_nat m"
    "(ucast ((of_nat (m + 128) :: byte) AND 0x7F) :: 64 word) = of_nat m"
    unfolding low take_bit_of_nat m using assms
    by (simp_all add: unsigned_of_nat take_bit_nat_eq_self)
qed

lemma groups_join:
  "(of_nat (n mod 128) :: 64 word) OR push_bit 7 (of_nat (n div 128)) = of_nat n"
proof -
  have "n mod 128 = take_bit 7 n" and "n div 128 = drop_bit 7 n"
    by (simp_all add: take_bit_eq_mod drop_bit_eq_div)
  then show ?thesis by (auto intro!: bit_word_eqI simp: bit_simps)
qed

lemma read_varint_encoded:
  "n * 2 ^ shift < 2 ^ 64 \<Longrightarrow> 0 < n \<or> shift = 0 \<Longrightarrow>
     read_varint (varint n @ rest) acc shift = Some (acc OR push_bit shift (of_nat n), rest)"
proof (induction n arbitrary: acc shift rule: varint.induct)
  case (1 n)
  have sh: "shift < 64"
  proof (rule ccontr)
    assume "\<not> shift < 64"
    then have "(2 :: nat) ^ 64 \<le> 2 ^ shift" by (intro power_increasing) auto
    moreover have "0 < n" using \<open>\<not> shift < 64\<close> "1.prems"(2) by auto
    ultimately have "1 * 2 ^ 64 \<le> n * 2 ^ shift" by (intro mult_le_mono) auto
    with "1.prems"(1) show False by (simp only: mult_1 not_le [symmetric])
  qed
  show ?case
  proof (cases "n < 128")
    case True
    then show ?thesis using sh varint_byte [of n] by (simp add: varint.simps [of n])
  next
    case False
    note b = varint_byte [of "n mod 128"]
    have "n div 128 * 2 ^ (shift + 7) = n div 128 * 128 * 2 ^ shift" by (simp add: power_add)
    also have "\<dots> \<le> n * 2 ^ shift" by (intro mult_le_mono1) simp
    finally have lt: "n div 128 * 2 ^ (shift + 7) < 2 ^ 64" using "1.prems"(1) by linarith
    have "read_varint (varint n @ rest) acc shift
        = read_varint (varint (n div 128) @ rest) (acc OR push_bit shift (of_nat (n mod 128))) (shift + 7)"
      using False sh b by (simp add: varint.simps [of n])
    also have "\<dots> = Some ((acc OR push_bit shift (of_nat (n mod 128)))
        OR push_bit (shift + 7) (of_nat (n div 128)), rest)"
      using False lt by (intro "1.IH") auto
    also have "push_bit (shift + 7) (of_nat (n div 128) :: 64 word)
        = push_bit shift (push_bit 7 (of_nat (n div 128)))" by (simp only: push_bit_push_bit)
    finally show ?thesis by (simp only: or.assoc push_bit_or [symmetric] groups_join)
  qed
qed

lemma decode_check_request_encoded:
  assumes "length service < 2 ^ 64"
  shows "decode_check_request (check_request service) = Some service"
proof (cases "service = []")
  case False
  have "read_varint (varint (length service) @ service) 0 0 = Some (of_nat (length service), service)"
    using read_varint_encoded [of "length service" 0 service 0] assms by simp
  with False assms show ?thesis
    by (simp add: decode_check_request_def check_request_def unat_of_nat take_bit_nat_eq_self)
qed (simp add: decode_check_request_def check_request_def)


subsection \<open>The registry\<close>

text \<open>What both health services promise of their tables of statuses.\<close>

locale status_registry =
  fixes lookup :: "'h \<Rightarrow> 'k \<Rightarrow> 's option" and update :: "'k \<Rightarrow> 's \<Rightarrow> 'h \<Rightarrow> 'h"
  assumes lookup_update: "lookup (update k v h) k' = (if k' = k then Some v else lookup h k')"
begin

lemma lookup_updates:
  "lookup (fold (\<lambda>(k, v). update k v) kvs h) k
     = (case map_of (rev kvs) k of None \<Rightarrow> lookup h k | Some v \<Rightarrow> Some v)"
  by (induction kvs arbitrary: h) (auto simp: lookup_update map_add_def split: option.splits)

end

interpretation c_registry: status_registry health_find "health_set al_all"
proof
  fix k :: bytes and v :: int and h k'
  show "health_find (health_set al_all k v h) k' = (if k' = k then Some v else health_find h k')"
  proof (cases "find (\<lambda>e. fst e = k) (hs_statuses h)")
    case None
    then show ?thesis
      by (auto simp: health_find_def health_set_def al_all_def find_append split: option.splits)
  next
    case (Some e)
    have "find (\<lambda>e. fst e = k) (upd_first (\<lambda>e. fst e = k) (\<lambda>e. (fst e, v)) (hs_statuses h))
        = Some (fst e, v)"
      using find_Some_mem [OF Some] by (intro find_upd_first_same [OF Some, of "\<lambda>e. (fst e, v)"]) simp
    moreover have "find (\<lambda>e. fst e = k') (upd_first (\<lambda>e. fst e = k) (\<lambda>e. (fst e, v)) (hs_statuses h))
        = find (\<lambda>e. fst e = k') (hs_statuses h)" if "k' \<noteq> k"
      using that by (intro find_upd_first_other) auto
    ultimately show ?thesis using Some by (auto simp: health_find_def health_set_def)
  qed
qed

lemma health_set_watchers [simp]: "hs_watchers (health_set al k v h) = hs_watchers h"
  by (simp add: health_set_def)

subsection \<open>Handlers\<close>

lemma encode_response_short: "length (encode_response al s) < 2 ^ 32"
  by (simp add: encode_response_def)


text \<open>
  A subscription lasts from \<open>Watch\<close> to the cancel hook: in between, a change of the service's
  status is sent to the call; afterwards the targets are what they were.
\<close>

lemma watch_lifecycle:
  assumes "decode_check_request req = Some service" and "addr \<noteq> 0"
    and "addr \<notin> wt_addr ` set (hs_watchers hs)"
  shows "let hs1 = snd (watch_tr al_all addr call i req hs); hs2 = on_cancel addr hs1;
             targets = \<lambda>h. fst (set_status_locked al_all (Some service) st h)
         in targets hs1 = targets hs @ [(call, i)] \<and> targets hs2 = targets hs
            \<and> (\<forall>k. health_find hs1 k = health_find hs k)"
proof -
  have "\<forall>w \<in> set (filter wt_live (hs_watchers hs)). wt_addr w \<noteq> addr" using assms(3) by auto
  note upd = upd_first_append [OF this]
  have live: "filter (\<lambda>w. wt_live w \<and> wt_service w = service) (filter wt_live ws)
      = filter (\<lambda>w. wt_live w \<and> wt_service w = service) ws" for ws
    by (induction ws) auto
  show ?thesis
    using assms(1,2)
    by (simp add: watch_tr_def on_cancel_def set_status_locked_def al_all_def health_find_def
        upd live Let_def del: filter_filter)
qed

definition demo_health :: health where
  "demo_health =
     \<lparr>hs_statuses = [([], 1)],
      hs_watchers = [\<lparr>wt_addr = 7, wt_call = 100, wt_call_id = 1, wt_service = [], wt_live = True\<rparr>],
      hs_seeded = True\<rparr>"

lemmas health_eval = demo_health_def set_status_locked_def health_set_status_def health_set_def
  health_find_def encode_response_def H_UNKNOWN_def call_write_def on_io_thread_def with_conn_def
  with_mailbox_def c_slice_def demo_abi_def demo_open_def mailbox_eval

section \<open>Properties\<close>

text \<open>
  The request decoder inverts the protobuf encoding: a \<open>HealthCheckRequest\<close> encoded as the
  specification has it (the length as a varint of any size, the empty name as no bytes) decodes
  to the service it names.
\<close>

lemma health_request_roundtrip:
  assumes "length service < 2 ^ 64"
  shows "decode_check_request (check_request service) = Some service"
  by (rule decode_check_request_encoded [OF assms])

text \<open>
  What \<open>Check\<close> answers on an open call: \<open>INVALID_ARGUMENT\<close> for a malformed request,
  \<open>NOT_FOUND\<close> for a service nobody registered, both without a message; for a registered service
  exactly one message carrying its status, then \<open>OK\<close>. The call is finished in every case.
\<close>

lemma health_check_verdict:
  assumes "find_stream c i = Some s" and "\<not> finished (sc_out s)"
    and "oq_backpressure (sc_out s) = Unbounded"
  shows "\<exists>s'. find_stream (snd (run_handler ops (check_tr al_all hs i req) c)) i = Some s'
    \<and> fst (run_handler ops (check_tr al_all hs i req) c) = 0 \<and> finished (sc_out s')
    \<and> (case Option.bind (decode_check_request req) (health_find hs) of
         Some st \<Rightarrow> final_status (sc_out s') = Ok
           \<and> map om_body (messages (sc_out s')) = map om_body (messages (sc_out s)) @ [encode_response al_all st]
       | None \<Rightarrow> messages (sc_out s') = messages (sc_out s)
           \<and> final_status (sc_out s')
             = (if decode_check_request req = None then InvalidArgument else NotFound))"
proof (cases "Option.bind (decode_check_request req) (health_find hs)")
  case None
  let ?st = "if decode_check_request req = None then InvalidArgument else NotFound"
  obtain m where "run_handler ops (check_tr al_all hs i req) c
      = (0, snd (finish_call_msg ops i ?st m c))"
    using None by (auto simp: check_tr_def split_beta Let_def split: option.splits bind_splits)
  then show ?thesis
    using None finish_call_found(1) [OF assms(1), of ops ?st m] finish_queue_open [OF assms(2)] by simp
next
  case (Some st)
  let ?c = "snd (write_call ops al_all i (encode_response al_all st) c)"
  have "run_handler ops (check_tr al_all hs i req) c = (0, snd (finish_call_msg ops i Ok [] ?c))"
    using Some by (auto simp: check_tr_def split_beta Let_def split: option.splits bind_splits)
  then show ?thesis
    using Some finish_call_found(1) [OF write_found(1) [OF assms encode_response_short], of ops Ok "[]"]
      assms(2) by (simp add: finish_queue_open)
qed


text \<open>A change that is announced from another thread only queues one write per watcher.\<close>

lemma notify_queues:
  assumes "mb_io_registered (f_box w)" "mb_io_thread (f_box w) \<noteq> me"
  shows "notify demo_ops al_all me (encode_response al_all st) [(100, 1)] w
    = Some (w\<lparr>f_box := (f_box w)\<lparr>mb_queue := mb_queue (f_box w) @
                  [op_item (OpWrite 100 1 (encode_response al_all st))]\<rparr>,
              f_signal := poke (f_box w) (f_signal w)\<rparr>)"
  using queued_op [OF assms, of "OpWrite 100 1 (encode_response al_all st)" demo_ops] by simp

lemma demo_abi_sel:
  "mb_io_registered (f_box demo_abi)" "mb_io_thread (f_box demo_abi) = 1"
  "mb_queue (f_box demo_abi) = []" "mb_dead (f_box demo_abi) = []" "mb_wakeup (f_box demo_abi) = 3"
  "f_signal demo_abi = 0" "f_heap demo_abi = [100 \<mapsto> demo_open]"
  by (simp_all add: demo_abi_def mailbox_eval)


end
