(* ===== verification/Client_Codec.thy ===== *)
theory Client_Codec
  imports Framing Headers Out_Queue
begin

unbundle bit_operations_syntax

text \<open>
  The pure parts of the blocking client, \<open>rust/grpcuds-core/src/client.rs\<close>: the de-framer of
  response bytes, the parsers of response headers, percent-decoding, the rendering of
  \<open>grpc-timeout\<close> and the reconnect backoff. From the standard library it models
  \<open>str::from_utf8\<close>, \<open>str::parse\<close> for the two integer types and \<open>char::to_digit\<close>.
\<close>

section \<open>Strings and numbers of the standard library\<close>

definition utf8_cont :: "byte \<Rightarrow> bool" where
  "utf8_cont b \<longleftrightarrow> 0x80 \<le> b \<and> b \<le> 0xBF"

text \<open>Well-formed UTF-8: the byte sequences of the Unicode standard, no surrogates, no overlong forms.\<close>

fun utf8_valid :: "bytes \<Rightarrow> bool" where
  "utf8_valid [] = True"
| "utf8_valid (a # r) =
     (if a \<le> 0x7F then utf8_valid r
      else if 0xC2 \<le> a \<and> a \<le> 0xDF
      then (case r of b # r1 \<Rightarrow> utf8_cont b \<and> utf8_valid r1 | _ \<Rightarrow> False)
      else if 0xE0 \<le> a \<and> a \<le> 0xEF
      then (case r of
              b # c # r2 \<Rightarrow>
                utf8_cont b \<and> utf8_cont c \<and> (a = 0xE0 \<longrightarrow> 0xA0 \<le> b) \<and> (a = 0xED \<longrightarrow> b \<le> 0x9F)
                \<and> utf8_valid r2
            | _ \<Rightarrow> False)
      else if 0xF0 \<le> a \<and> a \<le> 0xF4
      then (case r of
              b # c # d # r3 \<Rightarrow>
                utf8_cont b \<and> utf8_cont c \<and> utf8_cont d \<and> (a = 0xF0 \<longrightarrow> 0x90 \<le> b)
                \<and> (a = 0xF4 \<longrightarrow> b \<le> 0x8F) \<and> utf8_valid r3
            | _ \<Rightarrow> False)
      else False)"

text \<open>\<open>char::to_digit(16)\<close> of a byte read as a character.\<close>

definition to_digit16 :: "byte \<Rightarrow> nat option" where
  "to_digit16 b =
     (if 0x30 \<le> b \<and> b \<le> 0x39 then Some (unat b - 48)
      else if 0x41 \<le> b \<and> b \<le> 0x46 then Some (unat b - 55)
      else if 0x61 \<le> b \<and> b \<le> 0x66 then Some (unat b - 87)
      else None)"

text \<open>A non-empty string of decimal digits.\<close>

definition parse_digits :: "bytes \<Rightarrow> nat option" where
  "parse_digits v = (if v = [] then None else timeout_digits v 0)"

text \<open>\<open>"...".parse::<u32>()\<close> and \<open>"...".parse::<i32>()\<close>: an optional sign, digits, no overflow.\<close>

definition parse_u32 :: "bytes \<Rightarrow> nat option" where
  "parse_u32 v =
     (let digits = (case v of b # r \<Rightarrow> if b = 0x2B then r else v | [] \<Rightarrow> v)
      in case parse_digits digits of
           None \<Rightarrow> None
         | Some n \<Rightarrow> if n < 2 ^ 32 then Some n else None)"

definition parse_i32 :: "bytes \<Rightarrow> int option" where
  "parse_i32 v =
     (case v of
        [] \<Rightarrow> None
      | b # r \<Rightarrow>
          if b = 0x2D
          then (case parse_digits r of
                  None \<Rightarrow> None
                | Some n \<Rightarrow> if n \<le> 2 ^ 31 then Some (- int n) else None)
          else (case parse_digits (if b = 0x2B then r else v) of
                  None \<Rightarrow> None
                | Some n \<Rightarrow> if n < 2 ^ 31 then Some (int n) else None))"

section \<open>Percent-decoding\<close>

fun percent_decode_bytes :: "bytes \<Rightarrow> bytes" where
  "percent_decode_bytes (b # h # l # r) =
     (if b = 0x25
      then (case (to_digit16 h, to_digit16 l) of
              (Some x, Some y) \<Rightarrow> of_nat (x * 16 + y) # percent_decode_bytes r
            | _ \<Rightarrow> b # percent_decode_bytes (h # l # r))
      else b # percent_decode_bytes (h # l # r))"
| "percent_decode_bytes [b, c] = [b, c]"
| "percent_decode_bytes [b] = [b]"
| "percent_decode_bytes [] = []"

definition percent_decode :: "bytes \<Rightarrow> bytes option" where
  "percent_decode v =
     (let out = percent_decode_bytes v in if utf8_valid out then Some out else None)"

section \<open>Rendering a timeout\<close>

text \<open>
  The first loop of \<open>fmt_ms_value\<close> fills \<open>tmp\<close> with at most ten digits, least significant
  first; the second writes them backwards and appends the unit.
\<close>

fun fmt_digits :: "nat \<Rightarrow> nat \<Rightarrow> bytes" where
  "fmt_digits 0 v = []"
| "fmt_digits (Suc slots) v =
     (0x30 + of_nat (v mod 10)) # (if v div 10 = 0 then [] else fmt_digits slots (v div 10))"

definition fmt_ms_value :: "nat \<Rightarrow> bytes" where
  "fmt_ms_value v = take 11 (rev (fmt_digits 10 v) @ [0x6D])"

section \<open>Backoff\<close>

definition CONNECT_BACKOFF_INITIAL_MS :: nat where "CONNECT_BACKOFF_INITIAL_MS = 50"
definition CONNECT_BACKOFF_MAX_MS :: nat where "CONNECT_BACKOFF_MAX_MS = 1000"

definition next_backoff_ms :: "nat \<Rightarrow> nat" where
  "next_backoff_ms cur = min (sat_mul64 cur 8 div 5) CONNECT_BACKOFF_MAX_MS"

definition apply_jitter :: "nat \<Rightarrow> nat \<Rightarrow> nat" where
  "apply_jitter ms r = sat_mul64 ms (80 + r mod 41) div 100"

definition xorshift64 :: "64 word \<Rightarrow> 64 word" where
  "xorshift64 s =
     (let x = s;
          x = x XOR push_bit 13 x;
          x = x XOR drop_bit 7 x;
          x = x XOR push_bit 17 x
      in x)"

section \<open>De-framing\<close>

definition MAX_MESSAGE_LEN :: u32 where
  "MAX_MESSAGE_LEN = 4 * 1024 * 1024"

text \<open>The loop of \<open>CallState::deframe\<close> on the receive buffer and the queue of whole messages.\<close>

function deframe_loop :: "alloc \<Rightarrow> u32 \<Rightarrow> bytes \<Rightarrow> bytes list \<Rightarrow> bytes \<times> bytes list" where
  "deframe_loop al max_len inbuf msgs =
     (case decode_header inbuf max_len of
        Inl _ \<Rightarrow> (inbuf, msgs)
      | Inr h \<Rightarrow>
          let total = FRAME_HEADER_LEN + unat (fh_payload_len h)
          in if length inbuf < total then (inbuf, msgs)
             else if \<not> al_bytes al (unat (fh_payload_len h)) then (inbuf, msgs)
             else deframe_loop al max_len (drop total inbuf)
                    (msgs @ [slice FRAME_HEADER_LEN total inbuf]))"
  by pat_completeness auto
termination
  by (relation "measure (\<lambda>(_, _, inbuf, _). length inbuf)") (auto simp: FRAME_HEADER_LEN_def)

declare deframe_loop.simps [simp del]

section \<open>Percent-encoding is undone\<close>

lemma percent_decode_plain: "b \<noteq> 0x25 \<Longrightarrow> percent_decode_bytes (b # r) = b # percent_decode_bytes r"
  by (cases r rule: percent_decode_bytes.cases) auto

lemma to_digit16_HEX: "i < 16 \<Longrightarrow> to_digit16 (HEX ! i) = Some i"
proof -
  assume "i < 16"
  then have "i \<in> {0, 1, 2, 3, 4, 5, 6, 7, 8, 9, 10, 11, 12, 13, 14, 15}" by simp presburger
  then show ?thesis by (auto simp: HEX_eq to_digit16_def)
qed

lemma nibbles: "of_nat (unat (drop_bit 4 b) * 16 + unat (b AND 0x0F)) = (b :: byte)"
proof -
  have lo: "b AND 0x0F = take_bit 4 b" by (simp add: take_bit_eq_mask mask_eq_exp_minus_1)
  have lt: "unat b < 256" using unsigned_less [of b, where ?'a = nat] by simp
  have "unat (drop_bit 4 b) * 16 + unat (b AND 0x0F) = unat b"
    unfolding lo unsigned_drop_bit_eq unsigned_take_bit_eq using lt
    by (simp add: drop_bit_eq_div take_bit_eq_mod)
  then show ?thesis by simp
qed

lemma percent_decode_pct: "percent_decode_bytes (pct_byte b @ r) = b # percent_decode_bytes r"
proof (cases "\<not> (0x20 \<le> b \<and> b \<le> 0x7E) \<or> b = 0x25")
  case True
  then have "pct_byte b @ r
      = 0x25 # HEX ! unat (drop_bit 4 b) # HEX ! unat (b AND 0x0F) # r"
    by (simp add: pct_byte_def)
  then show ?thesis
    using to_digit16_HEX [OF high_nibble [of b]] to_digit16_HEX [OF low_nibble [of b]] nibbles [of b]
    by simp
next
  case False
  then show ?thesis by (simp add: pct_byte_def percent_decode_plain)
qed

lemma percent_decode_encode: "percent_decode_bytes (percent_encode_message msg []) = msg"
  unfolding percent_encode_concat by (induction msg) (simp_all add: percent_decode_pct)

section \<open>Timeouts read back\<close>

lemma digit_byte:
  assumes "d < 10"
  shows "is_ascii_digit (0x30 + of_nat d)" and "unat (0x30 + of_nat d :: byte) - 48 = d"
proof -
  have "d \<in> {0, 1, 2, 3, 4, 5, 6, 7, 8, 9}" using assms by simp presburger
  then show "is_ascii_digit (0x30 + of_nat d)" and "unat (0x30 + of_nat d :: byte) - 48 = d"
    by (auto simp: is_ascii_digit_def)
qed

lemma dec_value_append:
  "dec_value (xs @ ys) = dec_value xs * 10 ^ length ys + dec_value ys"
  by (induction xs) (simp_all add: algebra_simps power_add)

lemma fmt_digits_digits: "list_all is_ascii_digit (fmt_digits k v)"
  by (induction k v rule: fmt_digits.induct) (simp_all add: digit_byte)

lemma fmt_digits_value: "v < 10 ^ k \<Longrightarrow> dec_value (rev (fmt_digits k v)) = v"
proof (induction k v rule: fmt_digits.induct)
  case (2 k v)
  then have "v div 10 \<noteq> 0 \<Longrightarrow> dec_value (rev (fmt_digits k (v div 10))) = v div 10"
    by (simp add: less_mult_imp_div_less mult.commute)
  then show ?case using digit_byte(2) [of "v mod 10"] by (auto simp: dec_value_append)
qed simp

lemma fmt_digits_length:
  "v < 10 ^ k \<Longrightarrow> 0 < k \<Longrightarrow> length (fmt_digits n v) \<le> k"
proof (induction n v arbitrary: k rule: fmt_digits.induct)
  case (2 n v)
  show ?case
  proof (cases "v div 10 = 0")
    case True
    then show ?thesis using 2 by simp
  next
    case False
    obtain j where k: "k = Suc j" using 2 by (cases k) auto
    have lt: "v div 10 < 10 ^ j"
      using 2 k by (simp add: less_mult_imp_div_less mult.commute)
    then have "0 < j" using False by (cases j) auto
    then have "length (fmt_digits n (v div 10)) \<le> j" using 2 False lt by simp
    then show ?thesis using False k by simp
  qed
qed simp

lemma fmt_digits_length_ge:
  "10 ^ k \<le> v \<Longrightarrow> k < n \<Longrightarrow> k < length (fmt_digits n v)"
proof (induction n v arbitrary: k rule: fmt_digits.induct)
  case (2 n v)
  show ?case
  proof (cases k)
    case 0
    then show ?thesis by simp
  next
    case (Suc j)
    then have "10 ^ j \<le> v div 10" using 2 by (simp add: less_eq_div_iff_mult_less_eq mult.commute)
    moreover from this have "v div 10 \<noteq> 0" by (metis not_less zero_less_power zero_less_numeral)
    ultimately show ?thesis using 2 Suc by simp
  qed
qed simp

lemma fmt_ms_value_eq: "fmt_ms_value v = rev (fmt_digits 10 v) @ [0x6D]"
proof -
  have "length (fmt_digits k v) \<le> k" for k
    by (induction k v rule: fmt_digits.induct) auto
  from this [of 10] show ?thesis by (simp add: fmt_ms_value_def)
qed

lemma parse_fmt_ms:
  assumes "v < 10 ^ 10"
  shows "parse_grpc_timeout_ms (fmt_ms_value v) = (if v < 10 ^ 8 then Some (max 1 v) else None)"
proof -
  have dig: "list_all is_ascii_digit (rev (fmt_digits 10 v))"
    using fmt_digits_digits [of 10 v] by simp
  have val: "dec_value (rev (fmt_digits 10 v)) = v" by (rule fmt_digits_value [OF assms])
  have ne: "fmt_digits 10 v \<noteq> []" using fmt_digits_length_ge [of 0 v 10] by (cases "v = 0") (auto simp: fmt_digits.simps(2) [of 9, simplified])
  have "div_ceil (v * 10 ^ 6) (10 ^ 6) = v" by (rule div_ceil_mult) simp
  moreover have "length (fmt_digits 10 v) \<le> 8 \<longleftrightarrow> v < 10 ^ 8"
    using fmt_digits_length [of v 8 10] fmt_digits_length_ge [of 8 v 10] by (cases "v < 10 ^ 8") auto
  ultimately show ?thesis
    unfolding parse_timeout_spec timeout_spec_def fmt_ms_value_eq
    using dig val ne by (simp add: unit_ns_def)
qed

section \<open>Backoff\<close>

lemma next_backoff_bounds:
  assumes "50 \<le> cur" and "cur \<le> 1000"
  shows "50 \<le> next_backoff_ms cur" and "next_backoff_ms cur \<le> 1000"
    and "cur \<le> next_backoff_ms cur" and "cur < 1000 \<Longrightarrow> cur < next_backoff_ms cur"
  using assms
  by (auto simp: next_backoff_ms_def CONNECT_BACKOFF_MAX_MS_def sat_mul64_def u64_max_def)

lemma shift_fixpoint_left:
  assumes "x = push_bit k (x :: 64 word)" and "0 < k"
  shows "x = 0"
proof -
  have "\<not> bit x n" for n
  proof (induction n rule: less_induct)
    case (less n)
    have "bit x n \<longleftrightarrow> k \<le> n \<and> n < 64 \<and> bit x (n - k)"
      by (subst assms(1)) (auto simp: bit_simps)
    with less [of "n - k"] assms(2) show ?case by auto
  qed
  then show ?thesis by (simp add: bit_eq_iff)
qed

lemma shift_fixpoint_right:
  assumes "x = drop_bit k (x :: 64 word)" and "0 < k"
  shows "x = 0"
proof -
  have "\<not> bit x n" for n
  proof (induction "64 - n" arbitrary: n rule: less_induct)
    case less
    have "bit x n \<longleftrightarrow> bit x (n + k)"
      by (subst assms(1)) (auto simp: bit_simps add.commute)
    with less [of "n + k"] assms(2) bit_imp_le_length [of x] show ?case
      by (cases "n < 64") auto
  qed
  then show ?thesis by (simp add: bit_eq_iff)
qed

lemma xor_eq_0_iff: "a XOR b = 0 \<longleftrightarrow> a = (b :: 64 word)"
  by (auto simp: bit_eq_iff bit_xor_iff)

lemma xorshift_step:
  assumes "x \<noteq> 0" and "0 < k"
  shows "x XOR push_bit k x \<noteq> (0 :: 64 word)" and "x XOR drop_bit k x \<noteq> (0 :: 64 word)"
  using shift_fixpoint_left [of x k] shift_fixpoint_right [of x k] assms
  by (auto simp: xor_eq_0_iff)

lemma xorshift64_nonzero: "s \<noteq> 0 \<Longrightarrow> xorshift64 s \<noteq> 0"
  unfolding xorshift64_def Let_def by (intro xorshift_step) simp_all

lemma jitter_bounds:
  assumes "ms \<le> 1000"
  shows "ms * 80 div 100 \<le> apply_jitter ms r" and "apply_jitter ms r \<le> ms * 120 div 100"
proof -
  have m: "80 + r mod 41 \<le> 120" using mod_less_divisor [of 41 r] by simp
  have "ms * (80 + r mod 41) \<le> 1000 * 120" using assms m by (intro mult_le_mono)
  then have eq: "apply_jitter ms r = ms * (80 + r mod 41) div 100"
    by (simp add: apply_jitter_def sat_mul64_exact)
  show "ms * 80 div 100 \<le> apply_jitter ms r" unfolding eq by (intro div_le_mono mult_le_mono2) simp
  show "apply_jitter ms r \<le> ms * 120 div 100" unfolding eq using m by (intro div_le_mono mult_le_mono2)
qed

section \<open>De-framing\<close>

lemma decode_header_append:
  "FRAME_HEADER_LEN \<le> length buf \<Longrightarrow> decode_header (buf @ y) m = decode_header buf m"
  by (erule five_bytes_cases) (simp add: decode_header_cons)

lemma deframe_append:
  "deframe_loop al m (buf @ y) msgs =
     (case deframe_loop al m buf msgs of (r, ms) \<Rightarrow> deframe_loop al m (r @ y) ms)"
proof (induction al m buf msgs rule: deframe_loop.induct)
  case (1 al m buf msgs)
  note unf = deframe_loop.simps [of al m buf msgs]
  show ?case
  proof (cases "decode_header buf m")
    case (Inl e)
    then show ?thesis by (simp add: unf)
  next
    case (Inr h)
    let ?total = "FRAME_HEADER_LEN + unat (fh_payload_len h)"
    have dec: "decode_header (buf @ y) m = Inr h"
      using Inr decode_header_short [of buf m] decode_header_append [of buf y m]
      by (cases "length buf < FRAME_HEADER_LEN") auto
    show ?thesis
    proof (cases "length buf < ?total \<or> \<not> al_bytes al (unat (fh_payload_len h))")
      case True
      with Inr show ?thesis by (auto simp: unf Let_def)
    next
      case False
      then have "slice FRAME_HEADER_LEN ?total (buf @ y) = slice FRAME_HEADER_LEN ?total buf"
        and "drop ?total (buf @ y) = drop ?total buf @ y" by (auto simp: slice_def)
      with "1.IH" [OF Inr refl] False Inr dec show ?thesis
        by (simp add: unf deframe_loop.simps [of al m "buf @ y" msgs] Let_def)
    qed
  qed
qed

lemma deframe_frame:
  assumes "length p \<le> unat m" and "al_bytes al (length p)"
  shows "deframe_loop al m (frame p @ rest) msgs = deframe_loop al m rest (msgs @ [p])"
proof -
  note d = decode_frame [OF assms(1), of rest] and u = unat_of_nat_length [OF assms(1)]
  have "slice FRAME_HEADER_LEN (FRAME_HEADER_LEN + length p) (frame p @ rest) = p"
    and "drop (FRAME_HEADER_LEN + length p) (frame p @ rest) = rest"
    by (simp_all add: slice_def frame_def)
  with d u assms(2) show ?thesis
    by (simp add: deframe_loop.simps [of al m "frame p @ rest" msgs] length_frame)
qed

lemma deframe_frames:
  assumes "list_all (\<lambda>p. length p \<le> unat m \<and> al_bytes al (length p)) ps"
  shows "deframe_loop al m (frames ps) msgs = ([], msgs @ ps)"
  using assms
proof (induction ps arbitrary: msgs)
  case Nil
  then show ?case
    by (simp add: deframe_loop.simps [of al m "[]" msgs] decode_header_short FRAME_HEADER_LEN_def)
next
  case (Cons p ps)
  then show ?case by (simp add: deframe_frame)
qed

text \<open>
  The contract of a receiver of framed messages that both clients use: bytes may arrive in any
  pieces, and what has been delivered depends only on their concatenation.
\<close>

locale frame_reader =
  fixes feed :: "bytes \<Rightarrow> 's \<Rightarrow> 's" and delivered :: "'s \<Rightarrow> bytes list" and limit :: nat
    and idle :: "'s \<Rightarrow> bool"
  assumes feed_append: "feed (x @ y) s = feed y (feed x s)"
    and feed_frames: "idle s \<Longrightarrow> list_all (\<lambda>p. length p \<le> limit) ps \<Longrightarrow>
      delivered (feed (frames ps) s) = delivered s @ ps"
begin

lemma feed_chunks: "fold feed (x # xs) s = feed (concat (x # xs)) s"
proof (induction xs arbitrary: x)
  case (Cons y ys)
  have "fold feed (x # y # ys) s = fold feed ((x @ y) # ys) s" by (simp add: feed_append)
  also have "\<dots> = feed (concat ((x @ y) # ys)) s" by (rule Cons.IH)
  finally show ?case by simp
qed simp

lemma chunks_deliver:
  assumes "idle s" and "list_all (\<lambda>p. length p \<le> limit) ps" and "concat chunks = frames ps"
  shows "delivered (fold feed chunks s) = delivered s @ ps"
proof (cases chunks)
  case Nil
  then have "ps = []" using assms(3) by (cases ps) auto
  with Nil show ?thesis by simp
next
  case (Cons x xs)
  then have "fold feed chunks s = feed (frames ps) s" using feed_chunks [of x xs s] assms(3) by simp
  with feed_frames [OF assms(1,2)] show ?thesis by simp
qed

end

text \<open>
  The contract of a wait loop with a deadline, as both clients run for unary calls and for the
  next message of a stream: a round that does not end the wait keeps the armed deadline, and
  can only be one that saw the clock before it.
\<close>

locale deadline_wait =
  fixes round :: "'e \<Rightarrow> 's \<Rightarrow> ('x + unit) \<times> 's" and clock :: "'e \<Rightarrow> nat"
    and armed :: "'s \<Rightarrow> nat option" and over :: "'s \<Rightarrow> bool" and wait :: "'e list \<Rightarrow> 's \<Rightarrow> 'r option"
  assumes wait_over: "over s \<Longrightarrow> wait es s \<noteq> None"
    and wait_error: "\<not> over s \<Longrightarrow> round e s = (Inl x, s') \<Longrightarrow> wait (e # es) s \<noteq> None"
    and wait_next: "\<not> over s \<Longrightarrow> round e s = (Inr u, s') \<Longrightarrow> wait (e # es) s = wait es s'"
    and round_armed: "armed s = Some d \<Longrightarrow> round e s = (Inr u, s') \<Longrightarrow>
      over s' \<or> armed s' = Some d \<and> clock e < d"
begin

lemma wait_returns:
  "armed s = Some d \<Longrightarrow> e \<in> set es \<Longrightarrow> d \<le> clock e \<Longrightarrow> wait es s \<noteq> None"
proof (induction es arbitrary: s)
  case (Cons f es)
  show ?case
  proof (cases "over s")
    case False
    obtain r s' where r: "round f s = (r, s')" by fastforce
    show ?thesis
    proof (cases r)
      case (Inr u)
      then have "over s' \<or> armed s' = Some d \<and> clock f < d" using round_armed Cons.prems(1) r by blast
      with Cons.IH [of s'] Cons.prems have "wait es s' \<noteq> None" by (auto dest: wait_over)
      with wait_next [OF False] r Inr show ?thesis by simp
    qed (use wait_error [OF False] r in blast)
  qed (rule wait_over)
qed simp

end

section \<open>Properties\<close>

text \<open>
  A status message survives the trip: what the server percent-encodes, the client decodes
  to the same bytes, for every message that is valid UTF-8; any other message reads as absent.
\<close>

lemma percent_roundtrip:
  "percent_decode (percent_encode_message msg []) = (if utf8_valid msg then Some msg else None)"
  by (simp add: percent_decode_def percent_decode_encode)

text \<open>
  C31. The timeout a client sends is the deadline the server arms, to the millisecond, exactly
  for timeouts below 100,000,000 ms; a longer one, which is still a legal value of the client's
  setting, is rendered with nine or ten digits and ignored by the server's parser.
\<close>

theorem timeout_roundtrip:
  assumes "0 < t" and "t < 2 ^ 32"
  shows "parse_grpc_timeout_ms (fmt_ms_value t) = (if t < 100000000 then Some t else None)"
proof -
  have "t < 10 ^ 10" using assms(2) by simp
  from parse_fmt_ms [OF this] assms(1) show ?thesis by simp
qed

theorem timeout_roundtrip_witness:
  "parse_grpc_timeout_ms (fmt_ms_value 1500) = Some 1500
   \<and> parse_grpc_timeout_ms (fmt_ms_value 100000000) = None"
  using timeout_roundtrip [of 1500] timeout_roundtrip [of 100000000] by simp

text \<open>
  Every trailer the server can build is read back by the client as the status it carries.
\<close>

lemma trailer_status_roundtrip:
  "parse_i32 (nv_value (hd (trailer s))) = Some (status_code s)
   \<and> parse_i32 (nv_value (hd (trailer_with_message s m))) = Some (status_code s)
   \<and> grpc_status_from_i32 (status_code s) = s"
proof -
  have "parse_i32 (V_GRPC_STATUS ! nat (status_code s)) = Some (status_code s)"
    by (cases s) (simp_all add: V_GRPC_STATUS_def ascii_def parse_i32_def parse_digits_def
        is_ascii_digit_def)
  then show ?thesis
    by (simp add: trailer_def trailer_with_message_def nv_static_def core_status.from_to)
qed

text \<open>
  The reconnect backoff stays in its range: from 50 ms it grows strictly until it reaches
  1000 ms and stays there, every nap is within 20 percent of it (rounded down), and the
  jitter generator never reaches its only fixed point.
\<close>

lemma backoff_in_range:
  assumes "50 \<le> cur" and "cur \<le> 1000" and "rng \<noteq> 0"
  shows "50 \<le> next_backoff_ms cur \<and> next_backoff_ms cur \<le> 1000
    \<and> (cur < 1000 \<longrightarrow> cur < next_backoff_ms cur) \<and> next_backoff_ms 1000 = 1000
    \<and> cur * 80 div 100 \<le> apply_jitter cur (unat rng)
    \<and> apply_jitter cur (unat rng) \<le> cur * 120 div 100
    \<and> xorshift64 rng \<noteq> 0"
  using next_backoff_bounds [OF assms(1,2)] jitter_bounds [OF assms(2)] xorshift64_nonzero [OF assms(3)]
  by (simp add: next_backoff_ms_def CONNECT_BACKOFF_MAX_MS_def sat_mul64_def u64_max_def)

end
