(* ===== verification/Client_Core.thy ===== *)
theory Client_Core
  imports Client_Codec Uds
begin

unbundle bit_operations_syntax

text \<open>
  The blocking client, \<open>rust/grpcuds-core/src/client.rs\<close>: connecting, submitting a call,
  pumping the socket and reading the response. nghttp2's client session is again a parameter:
  \<open>'n cl_ops\<close> holds the functions the code calls and \<open>'n cl_prog\<close> the callbacks a call into
  nghttp2 makes. One \<open>CallState\<close> serves all calls of a connection, as in the source.

  The loops that wait for the peer are driven by a list of what each round will see (clock
  and \<open>poll\<close> result); a wait that outlives its list answers \<open>None\<close>.
\<close>

section \<open>Call state and callbacks\<close>

datatype client_error = Connect | SessionErr | Io | Protocol

record call_state =
  cs_req :: bytes
  cs_req_off :: nat
  cs_http_status :: "nat option"
  cs_grpc_status :: "int option"
  cs_grpc_message :: "bytes option"
  cs_inbuf :: bytes
  cs_messages :: "bytes list"
  cs_closed :: bool

definition call_state_new :: call_state where
  "call_state_new =
     \<lparr>cs_req = [], cs_req_off = 0, cs_http_status = None, cs_grpc_status = None,
      cs_grpc_message = None, cs_inbuf = [], cs_messages = [], cs_closed = False\<rparr>"

definition call_reset :: "bytes \<Rightarrow> call_state \<Rightarrow> call_state" where
  "call_reset req st =
     st\<lparr>cs_req := req, cs_req_off := 0, cs_http_status := None, cs_grpc_status := None,
        cs_grpc_message := None, cs_inbuf := [], cs_messages := [], cs_closed := False\<rparr>"

definition deframe :: "alloc \<Rightarrow> call_state \<Rightarrow> call_state" where
  "deframe al st =
     (let (inbuf, msgs) = deframe_loop al MAX_MESSAGE_LEN (cs_inbuf st) (cs_messages st)
      in st\<lparr>cs_inbuf := inbuf, cs_messages := msgs\<rparr>)"

datatype cl_cb =
    ClHeader int bytes bytes
  | ClData alloc int bytes
  | ClClose int nat
  | ClRead nat

datatype cl_ret = ClRc int | ClBytes bytes bool

datatype 'n cl_prog = ClRet 'n int bytes | ClCall cl_cb 'n "cl_ret \<Rightarrow> 'n cl_prog"

record 'n cl_ops =
  cl_user_data :: "'n \<Rightarrow> int \<Rightarrow> bool"
  cl_submit_settings :: "'n \<Rightarrow> 'n \<times> int"
  cl_submit_request :: "'n \<Rightarrow> nv list \<Rightarrow> 'n \<times> int"
  cl_submit_rst :: "'n \<Rightarrow> int \<Rightarrow> nat \<Rightarrow> 'n"
  cl_mem_recv :: "'n \<Rightarrow> bytes \<Rightarrow> 'n cl_prog"
  cl_mem_send :: "'n \<Rightarrow> 'n cl_prog"
  cl_want_read :: "'n \<Rightarrow> bool"
  cl_want_write :: "'n \<Rightarrow> bool"

definition cl_on_header :: "bytes \<Rightarrow> bytes \<Rightarrow> call_state \<Rightarrow> call_state" where
  "cl_on_header n v st =
     (if n = ascii '':status'' then st\<lparr>cs_http_status := parse_u32 v\<rparr>
      else if n = ascii ''grpc-status'' then st\<lparr>cs_grpc_status := parse_i32 v\<rparr>
      else if n = ascii ''grpc-message'' then st\<lparr>cs_grpc_message := percent_decode v\<rparr>
      else st)"

definition cl_on_data :: "alloc \<Rightarrow> bytes \<Rightarrow> call_state \<Rightarrow> call_state" where
  "cl_on_data al data st = deframe al (st\<lparr>cs_inbuf := cs_inbuf st @ data\<rparr>)"

definition cl_on_close :: "call_state \<Rightarrow> call_state" where
  "cl_on_close st = st\<lparr>cs_closed := True\<rparr>"

definition data_read :: "nat \<Rightarrow> call_state \<Rightarrow> bytes \<times> bool \<times> call_state" where
  "data_read len st =
     (let remaining = length (cs_req st) - cs_req_off st;
          n = min remaining len;
          buf = take n (drop (cs_req_off st) (cs_req st));
          st = st\<lparr>cs_req_off := cs_req_off st + n\<rparr>
      in (buf, cs_req_off st = length (cs_req st), st))"

text \<open>
  A callback finds the call state through the stream's user data; the state is the same for
  every stream that has any (\<open>fn state\<close>).
\<close>

fun run_cl_cb :: "'n cl_ops \<Rightarrow> 'n \<Rightarrow> cl_cb \<Rightarrow> call_state \<Rightarrow> cl_ret \<times> call_state" where
  "run_cl_cb ops n (ClHeader sid name value) st =
     (ClRc 0, if cl_user_data ops n sid then cl_on_header name value st else st)"
| "run_cl_cb ops n (ClData al sid data) st =
     (ClRc 0, if cl_user_data ops n sid then cl_on_data al data st else st)"
| "run_cl_cb ops n (ClClose sid err) st =
     (ClRc 0, if cl_user_data ops n sid then cl_on_close st else st)"
| "run_cl_cb ops n (ClRead len) st =
     (let (buf, eof, st) = data_read len st in (ClBytes buf eof, st))"

primrec run_cl :: "'n cl_ops \<Rightarrow> 'n cl_prog \<Rightarrow> call_state \<Rightarrow> int \<times> bytes \<times> 'n \<times> call_state" where
  "run_cl ops (ClRet n rc out) = (\<lambda>st. (rc, out, n, st))"
| "run_cl ops (ClCall cb n k) = (\<lambda>st. let (r, st) = run_cl_cb ops n cb st in run_cl ops (k r) st)"

section \<open>Connection\<close>

record 'n client_conn =
  cc_fd :: int
  cc_session :: 'n
  cc_state :: call_state
  cc_timeout_ms :: "nat option"
  cc_deadline_ms :: "nat option"
  cc_current_sid :: int
  cc_path :: bytes
  cc_broken :: bool

function write_all :: "bytes \<Rightarrow> net \<Rightarrow> (unit + unit) \<times> net" where
  "write_all data w =
     (if data = [] then (Inr (), w)
      else case sys_send data w of
             (Inl e, w1) \<Rightarrow> if e = EINTR then write_all data w1 else (Inl (), w1)
           | (Inr n, w1) \<Rightarrow> if n = 0 then (Inl (), w1) else write_all (drop n data) w1)"
  by pat_completeness auto
termination
  by (relation "measure (\<lambda>(_, w). length (net_sends w))")
     (auto dest!: sys_send_Inl(5) [OF sym] sys_send_Inr(3) [OF sym] simp: EINTR_def EAGAIN_def)

declare write_all.simps [simp del]

lemma write_all_sends:
  "write_all data w = (r, w') \<Longrightarrow> length (net_sends w') \<le> length (net_sends w)
     \<and> (r = Inr () \<longrightarrow> data \<noteq> [] \<longrightarrow> length (net_sends w') < length (net_sends w))"
proof (induction data w arbitrary: r w' rule: write_all.induct)
  case (1 data w)
  obtain a w1 where a: "sys_send data w = (a, w1)" by fastforce
  have le: "length (net_sends w1) \<le> length (net_sends w)"
    using sys_send_Inl(2) [of data w] sys_send_Inr(3) [of data w] a by (cases a) fastforce+
  have lt: "a = Inr n \<Longrightarrow> length (net_sends w1) < length (net_sends w)" for n
    using sys_send_Inr(3) a by blast
  show ?case
    using "1.prems" "1.IH" [OF _ a [symmetric]] a le lt
    by (cases a) (fastforce simp: write_all.simps [of data w] split: if_splits)+
qed

function flush_send ::
    "'n cl_ops \<Rightarrow> 'n client_conn \<Rightarrow> net \<Rightarrow> (client_error + unit) \<times> 'n client_conn \<times> net" where
  "flush_send ops c w =
     (case run_cl ops (cl_mem_send ops (cc_session c)) (cc_state c) of
        (n, p, sess, st) \<Rightarrow>
          if n \<le> 0 \<or> p = [] then (Inr (), c\<lparr>cc_session := sess, cc_state := st\<rparr>, w)
          else case write_all (take (nat n) p) w of
                 (Inl _, w1) \<Rightarrow>
                   (Inl Io, c\<lparr>cc_session := sess, cc_state := st, cc_broken := True\<rparr>, w1)
               | (Inr _, w1) \<Rightarrow> flush_send ops (c\<lparr>cc_session := sess, cc_state := st\<rparr>) w1)"
  by pat_completeness auto
termination
  by (relation "measure (\<lambda>(_, _, w). length (net_sends w))")
     (auto dest!: write_all_sends [OF sym])

declare flush_send.simps [simp del]


section \<open>Connecting\<close>

definition EINPROGRESS :: int where "EINPROGRESS = 115"
definition O_NONBLOCK :: "32 word" where "O_NONBLOCK = 0x800"

text \<open>What one connection attempt meets: the answers of the kernel and of nghttp2.\<close>

record 'n connect_env =
  ce_path_alloc :: bool
  ce_socket :: int
  ce_connect :: "int + unit"
  ce_poll :: int
  ce_getsockopt :: int
  ce_soerr :: int
  ce_getfl :: int
  ce_setfl :: "32 word \<Rightarrow> int"
  ce_callbacks :: "int \<times> unit option"
  ce_session :: "int \<times> 'n option"

definition connect_uds :: "'n connect_env \<Rightarrow> bytes \<Rightarrow> kernel \<Rightarrow> (client_error + int) \<times> kernel" where
  "connect_uds env path k =
     (let trimmed = trim_nul path
      in if trimmed = [] \<or> length trimmed > SUN_PATH_LEN - 1 then (Inl Connect, k)
         else let fd = ce_socket env
              in if fd < 0 then (Inl Connect, k)
                 else let k = k\<lparr>k_open := fd # k_open k\<rparr>;
                          refused = (case ce_connect env of
                            Inr _ \<Rightarrow> False
                          | Inl e \<Rightarrow> e \<noteq> EINPROGRESS
                              \<or> ce_poll env \<noteq> 1 \<or> ce_getsockopt env \<noteq> 0 \<or> ce_soerr env \<noteq> 0)
                      in if refused then (Inl Connect, close_fd fd k)
                         else let flags = ce_getfl env
                              in if flags < 0
                                   \<or> ce_setfl env (word_of_int flags AND NOT O_NONBLOCK) < 0
                                 then (Inl Connect, close_fd fd k)
                                 else (Inr fd, k))"

definition client_drop :: "'n client_conn \<Rightarrow> kernel \<Rightarrow> kernel" where
  "client_drop c k = close_fd (cc_fd c) k"

definition connect ::
    "'n cl_ops \<Rightarrow> 'n connect_env \<Rightarrow> bytes \<Rightarrow> kernel \<Rightarrow> net
       \<Rightarrow> (client_error + 'n client_conn) \<times> kernel \<times> net" where
  "connect ops env path k w =
     (let trimmed = trim_nul path
      in if \<not> ce_path_alloc env then (Inl Connect, k, w)
         else case connect_uds env path k of
           (Inl e, k) \<Rightarrow> (Inl e, k, w)
         | (Inr fd, k) \<Rightarrow>
             (case callbacks_new (ce_callbacks env) of
                Inl _ \<Rightarrow> (Inl SessionErr, close_fd fd k, w)
              | Inr _ \<Rightarrow>
                  (case session_new_client (ce_session env) of
                     Inl _ \<Rightarrow> (Inl SessionErr, close_fd fd k, w)
                   | Inr n \<Rightarrow>
                       let (n, rc) = cl_submit_settings ops n
                       in if rc \<noteq> 0 then (Inl SessionErr, close_fd fd k, w)
                          else let conn = \<lparr>cc_fd = fd, cc_session = n, cc_state = call_state_new,
                                           cc_timeout_ms = None, cc_deadline_ms = None,
                                           cc_current_sid = 0, cc_path = trimmed, cc_broken = False\<rparr>
                               in (case flush_send ops conn w of
                                     (Inl _, conn, w) \<Rightarrow> (Inl Io, client_drop conn k, w)
                                   | (Inr _, conn, w) \<Rightarrow> (Inr conn, k, w)))))"

text \<open>
  \<open>connect_wait\<close> retries until an attempt succeeds or the deadline passes. \<open>attempt i\<close> is what
  the \<open>i\<close>-th attempt answers and \<open>clock i\<close> what the clock shows after it. The function yields
  the last attempt's answer and the naps taken.
\<close>

partial_function (option) connect_retry ::
    "(nat \<Rightarrow> client_error + 'c) \<Rightarrow> (nat \<Rightarrow> nat) \<Rightarrow> nat \<Rightarrow> nat \<Rightarrow> nat \<Rightarrow> 64 word
       \<Rightarrow> ((client_error + 'c) \<times> nat list) option" where
  "connect_retry attempt clock deadline i backoff rng =
     (case attempt i of
        Inr conn \<Rightarrow> Some (Inr conn, [])
      | Inl err \<Rightarrow>
          let now = clock i
          in if now \<ge> deadline then Some (Inl err, [])
             else let rng = xorshift64 rng;
                      nap = min (apply_jitter backoff (unat rng)) (deadline - now)
                  in Option.bind
                       (connect_retry attempt clock deadline (Suc i) (next_backoff_ms backoff) rng)
                       (\<lambda>(r, naps). Some (r, nap # naps)))"

definition connect_wait ::
    "(nat \<Rightarrow> client_error + 'c) \<Rightarrow> (nat \<Rightarrow> nat) \<Rightarrow> nat \<Rightarrow> nat \<Rightarrow> 32 word \<Rightarrow> nat
       \<Rightarrow> ((client_error + 'c) \<times> nat list) option" where
  "connect_wait attempt clock start seed_now pid timeout_ms =
     (let deadline = start + timeout_ms;
          rng = push_bit 17 (of_nat seed_now) XOR ((signed pid) OR 1)
      in connect_retry attempt clock deadline 0 CONNECT_BACKOFF_INITIAL_MS rng)"

text \<open>
  A reconnect attempt brings a new connection on a new socket; the old descriptor is closed
  when the old value is dropped.
\<close>

definition reconnect_once ::
    "'n cl_ops \<Rightarrow> 'n connect_env \<Rightarrow> net \<Rightarrow> 'n client_conn \<Rightarrow> kernel \<Rightarrow> net
       \<Rightarrow> (client_error + unit) \<times> 'n client_conn \<times> kernel \<times> net" where
  "reconnect_once ops env w2 c k w =
     (case connect ops env (cc_path c) k w2 of
        (Inl e, k, _) \<Rightarrow> (Inl e, c, k, w)
      | (Inr fresh, k, w2) \<Rightarrow>
          (Inr (), fresh\<lparr>cc_timeout_ms := cc_timeout_ms c\<rparr>, client_drop c k, w2))"

section \<open>Calls\<close>

definition client_nv :: "bytes \<Rightarrow> bytes \<Rightarrow> nv" where
  "client_nv n v = \<lparr>nv_name = n, nv_value = v, nv_no_copy_name = False, nv_no_copy_value = False\<rparr>"

definition request_headers :: "bytes \<Rightarrow> nat option \<Rightarrow> nv list" where
  "request_headers path timeout =
     [client_nv (ascii '':method'') (ascii ''POST''),
      client_nv (ascii '':scheme'') (ascii ''http''),
      client_nv (ascii '':path'') path,
      client_nv (ascii '':authority'') (ascii ''localhost''),
      client_nv (ascii ''te'') (ascii ''trailers''),
      client_nv (ascii ''content-type'') (ascii ''application/grpc'')]
     @ (case timeout of None \<Rightarrow> []
        | Some t \<Rightarrow> [client_nv (ascii ''grpc-timeout'') (fmt_ms_value t)])"

text \<open>The part of \<open>submit\<close> after the connection is known to be usable.\<close>

definition submit_on ::
    "'n cl_ops \<Rightarrow> alloc \<Rightarrow> nat \<Rightarrow> bytes \<Rightarrow> bytes \<Rightarrow> 'n client_conn \<Rightarrow> net
       \<Rightarrow> (client_error + int) \<times> 'n client_conn \<times> net" where
  "submit_on ops al now path req c w =
     (if \<not> al_bytes al (FRAME_HEADER_LEN + length req) then (Inl Protocol, c, w)
      else let framed = encode_header False (of_nat (length req)) @ req;
               c = c\<lparr>cc_state := call_reset framed (cc_state c)\<rparr>;
               (n, sid) = cl_submit_request ops (cc_session c)
                            (request_headers path (cc_timeout_ms c));
               c = c\<lparr>cc_session := n\<rparr>
           in if sid \<le> 0 then (Inl Protocol, c, w)
              else let c = c\<lparr>cc_current_sid := sid,
                             cc_deadline_ms := map_option (\<lambda>t. now + t) (cc_timeout_ms c)\<rparr>
                   in (case flush_send ops c w of
                         (Inl _, c, w) \<Rightarrow> (Inl Io, c, w)
                       | (Inr _, c, w) \<Rightarrow> (Inr sid, c, w)))"

definition submit ::
    "'n cl_ops \<Rightarrow> 'n connect_env \<Rightarrow> net \<Rightarrow> alloc \<Rightarrow> nat \<Rightarrow> bytes \<Rightarrow> bytes
       \<Rightarrow> 'n client_conn \<Rightarrow> kernel \<Rightarrow> net
       \<Rightarrow> (client_error + int) \<times> 'n client_conn \<times> kernel \<times> net" where
  "submit ops env w2 al now path req c k w =
     (let (r, c, k, w) = (if cc_broken c then reconnect_once ops env w2 c k w
                          else (Inr (), c, k, w))
      in (case r of
            Inl e \<Rightarrow> (Inl e, c, k, w)
          | Inr _ \<Rightarrow> (case submit_on ops al now path req c w of (r, c, w) \<Rightarrow> (r, c, k, w))))"

definition set_timeout_ms :: "nat \<Rightarrow> 'n client_conn \<Rightarrow> 'n client_conn" where
  "set_timeout_ms ms c = c\<lparr>cc_timeout_ms := (if ms = 0 then None else Some ms)\<rparr>"

definition expire_call :: "'n cl_ops \<Rightarrow> 'n client_conn \<Rightarrow> net \<Rightarrow> 'n client_conn \<times> net" where
  "expire_call ops c w =
     (let c = c\<lparr>cc_state := (cc_state c)
                  \<lparr>cs_grpc_status := Some (status_code DeadlineExceeded),
                   cs_grpc_message := Some (ascii ''deadline exceeded (client-side)''),
                   cs_closed := True\<rparr>,
                cc_deadline_ms := None\<rparr>
      in if cc_current_sid c > 0
         then let c = c\<lparr>cc_session := cl_submit_rst ops (cc_session c) (cc_current_sid c) 8\<rparr>
              in snd (flush_send ops c w)
         else (c, w))"


text \<open>One round of \<open>pump\<close>: the clock, and the answer of \<open>poll\<close> should it be asked.\<close>

record pump_env =
  pe_now :: nat
  pe_poll :: "int + nat"

definition PUMP_BUF :: nat where "PUMP_BUF = 16 * 1024"

definition mark_dead :: "'n client_conn \<Rightarrow> 'n client_conn" where
  "mark_dead c = c\<lparr>cc_state := (cc_state c)\<lparr>cs_closed := True\<rparr>, cc_broken := True\<rparr>"

definition pump_read ::
    "'n cl_ops \<Rightarrow> 'n client_conn \<Rightarrow> net \<Rightarrow> (client_error + unit) \<times> 'n client_conn \<times> net" where
  "pump_read ops c w =
     (case sys_read PUMP_BUF w of
        (Inr bs, w) \<Rightarrow>
          if bs = [] then (Inr (), mark_dead c, w)
          else (case run_cl ops (cl_mem_recv ops (cc_session c) bs) (cc_state c) of
                  (rc, _, n, st) \<Rightarrow>
                    let c = c\<lparr>cc_session := n, cc_state := st\<rparr>
                    in if rc < 0 then (Inl Protocol, c\<lparr>cc_broken := True\<rparr>, w) else (Inr (), c, w))
      | (Inl e, w) \<Rightarrow> if e = EINTR then (Inr (), c, w) else (Inl Io, mark_dead c, w))"

definition pump ::
    "'n cl_ops \<Rightarrow> pump_env \<Rightarrow> 'n client_conn \<Rightarrow> net \<Rightarrow> (client_error + unit) \<times> 'n client_conn \<times> net"
  where
  "pump ops pe c w =
     (case flush_send ops c w of
        (Inl _, c, w) \<Rightarrow> (Inl Io, c, w)
      | (Inr _, c, w) \<Rightarrow>
          (case cc_deadline_ms c of
             None \<Rightarrow> pump_read ops c w
           | Some deadline \<Rightarrow>
               let remaining = deadline - pe_now pe
               in if remaining = 0 then (Inr (), expire_call ops c w)
                  else (case pe_poll pe of
                          Inr rc \<Rightarrow> if rc = 0 then (Inr (), expire_call ops c w)
                                    else pump_read ops c w
                        | Inl e \<Rightarrow> if e = EINTR then (Inr (), c, w)
                                   else (Inl Io, mark_dead c, w))))"

definition is_idle :: "'n cl_ops \<Rightarrow> 'n client_conn \<Rightarrow> bool" where
  "is_idle ops c \<longleftrightarrow> \<not> cl_want_read ops (cc_session c) \<and> \<not> cl_want_write ops (cc_session c)"

fun unary_wait ::
    "'n cl_ops \<Rightarrow> pump_env list \<Rightarrow> 'n client_conn \<Rightarrow> net
       \<Rightarrow> ((client_error + unit) \<times> 'n client_conn \<times> net) option" where
  "unary_wait ops pes c w =
     (if cs_closed (cc_state c) then Some (Inr (), c, w)
      else case pes of
             [] \<Rightarrow> None
           | pe # pes \<Rightarrow>
               (case pump ops pe c w of
                  (Inl e, c, w) \<Rightarrow> Some (Inl e, c, w)
                | (Inr _, c, w) \<Rightarrow> unary_wait ops pes c w))"

declare unary_wait.simps [simp del]

definition unary ::
    "'n cl_ops \<Rightarrow> 'n connect_env \<Rightarrow> net \<Rightarrow> alloc \<Rightarrow> nat \<Rightarrow> pump_env list \<Rightarrow> bytes \<Rightarrow> bytes
       \<Rightarrow> 'n client_conn \<Rightarrow> kernel \<Rightarrow> net
       \<Rightarrow> ((client_error + int) \<times> 'n client_conn \<times> kernel \<times> net) option" where
  "unary ops env w2 al now pes path req c k w =
     (case submit ops env w2 al now path req c k w of
        (Inl e, c, k, w) \<Rightarrow> Some (Inl e, c, k, w)
      | (Inr sid, c, k, w) \<Rightarrow>
          map_option (\<lambda>(r, c, w). (case r of Inl e \<Rightarrow> Inl e | Inr _ \<Rightarrow> Inr sid, c, k, w))
            (unary_wait ops pes c w))"

text \<open>
  \<open>server_streaming\<close> is \<open>submit\<close> alone. \<open>recv_current\<close> and \<open>ClientCall::recv\<close> have the same
  body: the next message, \<open>None\<close> at the end of the stream, or the transport's error.
\<close>

definition server_streaming where
  "server_streaming = submit"

fun recv_current ::
    "'n cl_ops \<Rightarrow> pump_env list \<Rightarrow> 'n client_conn \<Rightarrow> net
       \<Rightarrow> ((client_error + bytes option) \<times> 'n client_conn \<times> net) option" where
  "recv_current ops pes c w =
     (case cs_messages (cc_state c) of
        m # ms \<Rightarrow> Some (Inr (Some m), c\<lparr>cc_state := (cc_state c)\<lparr>cs_messages := ms\<rparr>\<rparr>, w)
      | [] \<Rightarrow>
          if cs_closed (cc_state c) \<or> (is_idle ops c \<and> cs_grpc_status (cc_state c) \<noteq> None)
          then Some (Inr None, c, w)
          else (case pes of
                  [] \<Rightarrow> None
                | pe # pes \<Rightarrow>
                    (case pump ops pe c w of
                       (Inl e, c, w) \<Rightarrow> Some (Inl e, c, w)
                     | (Inr _, c, w) \<Rightarrow> recv_current ops pes c w)))"

declare recv_current.simps [simp del]

definition last_status :: "'n client_conn \<Rightarrow> int option" where
  "last_status c = cs_grpc_status (cc_state c)"

definition last_message :: "'n client_conn \<Rightarrow> bytes option" where
  "last_message c = cs_grpc_message (cc_state c)"

definition call_status :: "'n client_conn \<Rightarrow> grpc_status" where
  "call_status c =
     grpc_status_from_i32 (case cs_grpc_status (cc_state c) of None \<Rightarrow> 2 | Some s \<Rightarrow> s)"

section \<open>Lemmas\<close>

definition reading :: "call_state \<Rightarrow> bool" where
  "reading st \<longleftrightarrow> cs_req_off st \<le> length (cs_req st)"

definition request_rest :: "call_state \<Rightarrow> bytes" where
  "request_rest st = drop (cs_req_off st) (cs_req st)"

definition body_pull :: "nat \<Rightarrow> call_state \<Rightarrow> bytes \<times> call_state" where
  "body_pull n st = (case data_read n st of (buf, _, st) \<Rightarrow> (buf, st))"

interpretation request: live_byte_source request_rest body_pull reading
proof (standard, goal_cases)
  case (1 st n out st')
  then show ?case
    using append_take_drop_id [of n "drop (cs_req_off st) (cs_req st)"]
    by (auto simp: body_pull_def data_read_def request_rest_def Let_def reading_def min_def
        add.commute)
next
  case (2 st n out st')
  then show ?case by (auto simp: body_pull_def data_read_def Let_def)
next
  case (3 st n out st')
  then show ?case by (auto simp: body_pull_def data_read_def reading_def Let_def)
next
  case (4 st n out st')
  then show ?case by (auto simp: body_pull_def data_read_def request_rest_def Let_def)
qed

lemma cl_on_data_append: "cl_on_data al (x @ y) st = cl_on_data al y (cl_on_data al x st)"
  using deframe_append [of al MAX_MESSAGE_LEN "cs_inbuf st @ x" y "cs_messages st"]
  by (simp add: cl_on_data_def deframe_def split: prod.splits)

interpretation core_reader: frame_reader "cl_on_data al_all" cs_messages "unat MAX_MESSAGE_LEN"
  "\<lambda>st. cs_inbuf st = []"
proof (standard, goal_cases)
  case (1 x y s)
  show ?case by (rule cl_on_data_append)
next
  case (2 s ps)
  then have "deframe_loop al_all MAX_MESSAGE_LEN (frames ps) (cs_messages s) = ([], cs_messages s @ ps)"
    by (intro deframe_frames) (auto simp: list_all_iff al_all_def)
  with 2 show ?case by (simp add: cl_on_data_def deframe_def)
qed


subsection \<open>What flushing and expiring leave alone\<close>

definition same_call :: "'n client_conn \<Rightarrow> 'n client_conn \<Rightarrow> bool" where
  "same_call c c' \<longleftrightarrow> cc_fd c' = cc_fd c \<and> cc_timeout_ms c' = cc_timeout_ms c
     \<and> cc_current_sid c' = cc_current_sid c \<and> cc_path c' = cc_path c
     \<and> cc_deadline_ms c' = cc_deadline_ms c
     \<and> (cs_closed (cc_state c) \<longrightarrow> cs_closed (cc_state c'))"

lemma same_call_refl: "same_call c c"
  by (simp add: same_call_def)

lemma same_call_trans: "same_call a b \<Longrightarrow> same_call b c \<Longrightarrow> same_call a c"
  by (simp add: same_call_def)

lemma run_cl_cb_closed: "cs_closed st \<Longrightarrow> cs_closed (snd (run_cl_cb ops n cb st))"
  by (cases cb) (auto simp: cl_on_header_def cl_on_data_def deframe_def cl_on_close_def
      data_read_def Let_def split: prod.splits)

lemma run_cl_closed:
  "cs_closed st \<Longrightarrow> run_cl ops p st = (rc, out, n, st') \<Longrightarrow> cs_closed st'"
proof (induction p arbitrary: st)
  case (ClCall cb n k)
  then show ?case using run_cl_cb_closed [of st ops n cb] by (auto split: prod.splits)
qed auto

lemma flush_send_same: "flush_send ops c w = (r, c', w') \<Longrightarrow> same_call c c'"
proof (induction ops c w arbitrary: r c' w' rule: flush_send.induct)
  case (1 ops c w)
  obtain n p sess st where run: "run_cl ops (cl_mem_send ops (cc_session c)) (cc_state c) = (n, p, sess, st)"
    by (metis prod_cases4)
  have step: "same_call c (c\<lparr>cc_session := sess, cc_state := st\<rparr>)"
    "same_call c (c\<lparr>cc_session := sess, cc_state := st, cc_broken := True\<rparr>)"
    using run_cl_closed [OF _ run] by (auto simp: same_call_def)
  obtain a w1 where wr: "write_all (take (nat n) p) w = (a, w1)" by fastforce
  show ?case
    using "1.prems" "1.IH" [OF run [symmetric] refl refl _ wr [symmetric]] step run wr
    by (cases a) (auto simp: flush_send.simps [of ops c w] split: if_splits intro: same_call_trans)
qed

lemma expire_call_closed:
  "expire_call ops c w = (c', w') \<Longrightarrow> cs_closed (cc_state c') \<and> cc_deadline_ms c' = None"
proof -
  assume e: "expire_call ops c w = (c', w')"
  let ?c = "c\<lparr>cc_state := (cc_state c)\<lparr>cs_grpc_status := Some (status_code DeadlineExceeded),
     cs_grpc_message := Some (ascii ''deadline exceeded (client-side)''), cs_closed := True\<rparr>,
     cc_deadline_ms := None\<rparr>"
  let ?c2 = "?c\<lparr>cc_session := cl_submit_rst ops (cc_session c) (cc_current_sid c) 8\<rparr>"
  have "same_call ?c2 (fst (snd (flush_send ops ?c2 w)))"
    using flush_send_same [of ops ?c2 w] by (metis prod.collapse)
  with e show ?thesis by (auto simp: expire_call_def same_call_def Let_def split: if_splits)
qed

lemma pump_read_deadline: "pump_read ops c w = (r, c', w') \<Longrightarrow> cc_deadline_ms c' = cc_deadline_ms c"
  by (auto simp: pump_read_def mark_dead_def Let_def split: sum.splits prod.splits if_splits)

lemma pump_deadline:
  assumes "cc_deadline_ms c = Some d" and "pump ops pe c w = (Inr (), c', w')"
  shows "cs_closed (cc_state c') \<or> cc_deadline_ms c' = Some d \<and> pe_now pe < d"
proof -
  obtain r c1 w1 where f: "flush_send ops c w = (r, c1, w1)" by (metis prod_cases3)
  have d: "cc_deadline_ms c1 = Some d" using flush_send_same [OF f] assms(1) by (simp add: same_call_def)
  have "same_call c1 c1" by (rule same_call_refl)
  with f d assms(2) show ?thesis
    using expire_call_closed [of ops c1 w1 c' w'] pump_read_deadline [of ops c1 w1 _ c' w']
    by (auto simp: pump_def Let_def mark_dead_def split: sum.splits if_splits)
qed

definition pump_round ::
    "'n cl_ops \<Rightarrow> pump_env \<Rightarrow> 'n client_conn \<times> net \<Rightarrow> (client_error + unit) \<times> 'n client_conn \<times> net" where
  "pump_round ops pe s = pump ops pe (fst s) (snd s)"

interpretation core_unary: deadline_wait "pump_round ops" pe_now "\<lambda>s. cc_deadline_ms (fst s)"
  "\<lambda>s. cs_closed (cc_state (fst s))" "\<lambda>pes s. unary_wait ops pes (fst s) (snd s)"
proof (standard, goal_cases)
  case (1 s es)
  then show ?case by (simp add: unary_wait.simps)
next
  case (2 s e x s' es)
  then show ?case
    by (cases s, cases s') (simp add: unary_wait.simps [of ops "e # es"] pump_round_def)
next
  case (3 s e u s' es)
  then show ?case
    by (cases s, cases s') (simp add: unary_wait.simps [of ops "e # es"] pump_round_def)
next
  case (4 s d e u s')
  then show ?case
    using pump_deadline [of "fst s" d ops e "snd s" "fst s'" "snd s'"] by (simp add: pump_round_def)
qed

interpretation core_stream: deadline_wait "pump_round ops" pe_now "\<lambda>s. cc_deadline_ms (fst s)"
  "\<lambda>s. cs_messages (cc_state (fst s)) \<noteq> [] \<or> cs_closed (cc_state (fst s))
     \<or> is_idle ops (fst s) \<and> cs_grpc_status (cc_state (fst s)) \<noteq> None"
  "\<lambda>pes s. recv_current ops pes (fst s) (snd s)"
proof (standard, goal_cases)
  case (1 s es)
  then show ?case by (auto simp: recv_current.simps [of ops es] split: list.splits)
next
  case (2 s e x s' es)
  then show ?case
    by (cases s, cases s') (auto simp: recv_current.simps [of ops "e # es"] pump_round_def)
next
  case (3 s e u s' es)
  then show ?case
    by (cases s, cases s') (auto simp: recv_current.simps [of ops "e # es"] pump_round_def)
next
  case (4 s d e u s')
  then show ?case
    using pump_deadline [of "fst s" d ops e "snd s" "fst s'" "snd s'"] by (auto simp: pump_round_def)
qed

lemma unary_wait_closed:
  "unary_wait ops pes c w = Some (Inr (), c', w') \<Longrightarrow> cs_closed (cc_state c')"
proof (induction pes arbitrary: c w)
  case Nil
  then show ?case by (simp add: unary_wait.simps [of ops "[]"] split: if_splits)
next
  case (Cons p pes)
  then show ?case
    by (auto simp: unary_wait.simps [of ops "p # pes"] split: if_splits sum.splits prod.splits)
qed

lemma submit_on_deadline:
  assumes "submit_on ops al now path req c w = (Inr sid, c', w')"
  shows "cc_deadline_ms c' = map_option (\<lambda>t. now + t) (cc_timeout_ms c)"
proof -
  let ?c = "c\<lparr>cc_state := call_reset (encode_header False (of_nat (length req)) @ req) (cc_state c),
     cc_session := fst (cl_submit_request ops (cc_session c) (request_headers path (cc_timeout_ms c))),
     cc_current_sid := sid,
     cc_deadline_ms := map_option (\<lambda>t. now + t) (cc_timeout_ms c)\<rparr>"
  have "flush_send ops ?c w = (Inr (), c', w')"
    using assms by (auto simp: submit_on_def Let_def split: if_splits prod.splits sum.splits)
  from flush_send_same [OF this] show ?thesis by (simp add: same_call_def)
qed


subsection \<open>Retrying\<close>

lemma connect_retry_upto:
  assumes "\<And>j. i \<le> j \<Longrightarrow> j < i + m \<Longrightarrow> isl (attempt j) \<and> clock j < deadline"
    and "isl (attempt (i + m)) \<Longrightarrow> deadline \<le> clock (i + m)" and "50 \<le> b" and "b \<le> 1000"
  shows "\<exists>naps. connect_retry attempt clock deadline i b rng = Some (attempt (i + m), naps)
    \<and> length naps = m \<and> (\<forall>j<m. naps ! j \<le> 1200 \<and> naps ! j \<le> deadline - clock (i + j)
        \<and> min 40 (deadline - clock (i + j)) \<le> naps ! j)"
  using assms
proof (induction m arbitrary: i b rng)
  case 0
  then show ?case
    by (cases "attempt i") (auto simp: connect_retry.simps [of attempt clock deadline i])
next
  case (Suc m)
  note bb = next_backoff_bounds(1,2) [OF Suc.prems(3,4)]
  obtain e where e: "attempt i = Inl e" and now: "clock i < deadline"
    using Suc.prems(1) [of i] by (cases "attempt i") auto
  let ?rng = "xorshift64 rng"
  have "isl (attempt j) \<and> clock j < deadline" if "Suc i \<le> j" "j < Suc i + m" for j
    using Suc.prems(1) [of j] that by simp
  then obtain naps where ih:
    "connect_retry attempt clock deadline (Suc i) (next_backoff_ms b) ?rng = Some (attempt (Suc i + m), naps)"
    "length naps = m"
    "\<forall>j<m. naps ! j \<le> 1200 \<and> naps ! j \<le> deadline - clock (Suc i + j)
        \<and> min 40 (deadline - clock (Suc i + j)) \<le> naps ! j"
    using Suc.IH [of "Suc i" "next_backoff_ms b" ?rng] Suc.prems(2) bb by auto
  let ?nap = "min (apply_jitter b (unat ?rng)) (deadline - clock i)"
  have "40 \<le> apply_jitter b (unat ?rng)" and "apply_jitter b (unat ?rng) \<le> 1200"
    using jitter_bounds [OF Suc.prems(4), of "unat ?rng"] Suc.prems(3,4) by linarith+
  then have "\<forall>j<Suc m. (?nap # naps) ! j \<le> 1200 \<and> (?nap # naps) ! j \<le> deadline - clock (i + j)
      \<and> min 40 (deadline - clock (i + j)) \<le> (?nap # naps) ! j"
    using ih(3) by (auto simp: less_Suc_eq_0_disj)
  moreover have "connect_retry attempt clock deadline i b rng = Some (attempt (i + Suc m), ?nap # naps)"
    using e now ih(1) by (simp add: connect_retry.simps [of attempt clock deadline i b] Let_def)
  ultimately show ?case using ih(2) by (intro exI [of _ "?nap # naps"]) simp
qed

subsection \<open>Descriptors\<close>

lemma close_open: "close_fd fd (k\<lparr>k_open := fd # k_open k\<rparr>) = k"
  by (simp add: close_fd_def)

lemma connect_uds_kernel:
  "connect_uds env path k = (r, k') \<Longrightarrow>
     (case r of Inl _ \<Rightarrow> k' = k | Inr fd \<Rightarrow> k' = k\<lparr>k_open := fd # k_open k\<rparr> \<and> 0 \<le> fd)"
  by (auto simp: connect_uds_def Let_def close_open split: if_splits)

lemma request_body_pulls:
  assumes "list_all (\<lambda>n. 0 < n) ns" and "FRAME_HEADER_LEN + length req \<le> length ns"
  shows "fst (pulls body_pull ns (call_reset (encode_header False (of_nat (length req)) @ req) st))
      = frame req"
proof -
  let ?st = "call_reset (encode_header False (of_nat (length req)) @ req) st"
  have "reading ?st" and "request_rest ?st = frame req"
    by (simp_all add: reading_def call_reset_def request_rest_def frame_def)
  with request.pulls_drain [of ?st ns] assms(1,2) show ?thesis by (simp add: length_frame)
qed

subsection \<open>A peer that never answers\<close>

definition silent_ops :: "bytes list cl_ops" where
  "silent_ops =
     \<lparr>cl_user_data = \<lambda>_ _. True, cl_submit_settings = \<lambda>n. (n @ [[4]], 0),
      cl_submit_request = \<lambda>n _. (n @ [[1]], 1), cl_submit_rst = \<lambda>n _ _. n @ [[3]],
      cl_mem_recv = \<lambda>n data. ClRet n (int (length data)) [],
      cl_mem_send = \<lambda>n. (case n of [] \<Rightarrow> ClRet [] 0 [] | b # bs \<Rightarrow> ClRet bs (int (length b)) b),
      cl_want_read = \<lambda>_. True, cl_want_write = \<lambda>n. n \<noteq> []\<rparr>"

definition silent_env :: "bytes list connect_env" where
  "silent_env =
     \<lparr>ce_path_alloc = True, ce_socket = 5, ce_connect = Inr (), ce_poll = 1, ce_getsockopt = 0,
      ce_soerr = 0, ce_getfl = 0x802, ce_setfl = \<lambda>_. 0, ce_callbacks = (0, Some ()),
      ce_session = (0, Some [])\<rparr>"

definition silent_net :: net where
  "silent_net = \<lparr>net_sends = replicate 8 (SysOk 64), net_reads = [], net_wire = [], net_emitted = []\<rparr>"

definition silent_client :: "bytes list client_conn" where
  "silent_client =
     \<lparr>cc_fd = 5, cc_session = [], cc_state = call_state_new, cc_timeout_ms = Some 50,
      cc_deadline_ms = None, cc_current_sid = 0, cc_path = ascii ''/s'', cc_broken = False\<rparr>"

section \<open>Properties\<close>

text \<open>
  Opening a connection neither leaks nor loses a descriptor: a failed attempt, at whatever
  step it fails, leaves the process's descriptors as they were; a successful one adds exactly
  the connection's own, which dropping the connection closes again, and the connection
  remembers the path without its terminator and starts with no timeout.
\<close>

lemma connect_descriptors:
  "case connect ops env path k w of (r, k', _) \<Rightarrow>
     (case r of
        Inl _ \<Rightarrow> k' = k
      | Inr c \<Rightarrow> k' = k\<lparr>k_open := cc_fd c # k_open k\<rparr> \<and> client_drop c k' = k
          \<and> cc_path c = trim_nul path \<and> cc_timeout_ms c = None)"
proof -
  obtain r k1 where u: "connect_uds env path k = (r, k1)" by fastforce
  show ?thesis
    using connect_uds_kernel [OF u] u
    by (auto simp: connect_def Let_def client_drop_def close_open same_call_def
        dest!: flush_send_same split: sum.splits prod.splits)
qed

text \<open>
  C33. Waiting for a server that is still starting ends: once the clock reaches the deadline,
  \<open>connect_wait\<close> has returned the answer of its last attempt. It stops at the first success,
  or at the first failure at or after the deadline; every nap on the way lasts between 40 ms
  and 1200 ms, or what is left until the deadline if that is less.
\<close>

theorem connect_wait_returns:
  fixes start timeout_ms :: nat
  assumes "start + timeout_ms \<le> clock n"
  shows "\<exists>i naps. i \<le> n
    \<and> connect_wait attempt clock start seed pid timeout_ms = Some (attempt i, naps)
    \<and> length naps = i \<and> (\<forall>j<i. isl (attempt j) \<and> clock j < start + timeout_ms)
    \<and> (isl (attempt i) \<longrightarrow> start + timeout_ms \<le> clock i)
    \<and> (\<forall>j<i. naps ! j \<le> min 1200 (start + timeout_ms - clock j)
          \<and> min 40 (start + timeout_ms - clock j) \<le> naps ! j)"
proof -
  let ?stop = "\<lambda>i. isl (attempt i) \<longrightarrow> start + timeout_ms \<le> clock i"
  define i where "i = (LEAST i. ?stop i)"
  have stop: "?stop i" and le: "i \<le> n"
    using LeastI [of ?stop n] Least_le [of ?stop n] assms by (simp_all add: i_def)
  have before: "isl (attempt j) \<and> clock j < start + timeout_ms" if "j < i" for j
    using not_less_Least [of j ?stop] that by (auto simp: i_def)
  have "50 \<le> CONNECT_BACKOFF_INITIAL_MS" and "CONNECT_BACKOFF_INITIAL_MS \<le> 1000"
    by (simp_all add: CONNECT_BACKOFF_INITIAL_MS_def)
  from connect_retry_upto [of 0 i attempt clock "start + timeout_ms", OF _ _ this] before stop le
  show ?thesis by (auto simp: connect_wait_def Let_def)
qed

theorem connect_wait_returns_witness:
  "\<exists>i naps. connect_wait (\<lambda>i. if i < 2 then Inl Connect else Inr i) (\<lambda>i. 100 * i) 0 7 1 1000
      = Some (Inr i, naps) \<and> i = 2 \<and> length naps = 2"
proof -
  obtain i naps where r: "connect_wait (\<lambda>i. if i < 2 then Inl Connect else Inr i) (\<lambda>i. 100 * i) 0 7 1 1000
      = Some (if i < 2 then Inl Connect else Inr i, naps)" "length naps = i"
    "\<forall>j<i. isl (if j < 2 then Inl Connect else Inr j) \<and> 100 * j < 1000"
    "isl (if i < 2 then Inl Connect else Inr i) \<longrightarrow> 1000 \<le> 100 * i"
    using connect_wait_returns [of 0 1000 "\<lambda>i. 100 * i" 10
        "\<lambda>i. if i < 2 then Inl Connect else Inr i" 7 1] by auto
  have "i = 2"
  proof (rule antisym)
    show "2 \<le> i" using r(4) by (cases "i < 2") auto
    show "i \<le> 2" using r(3) [rule_format, of 2] by (cases "2 < i") auto
  qed
  with r(1,2) show ?thesis by auto
qed




text \<open>
  C13. The response reaches the application as it was sent: however the transport cuts the
  framed messages into DATA chunks, the client queues exactly those messages, in order, after
  the ones it already holds, provided none is longer than the client's limit.
\<close>

theorem client_delivers_messages:
  assumes "cs_inbuf st = []" and "list_all (\<lambda>p. length p \<le> unat MAX_MESSAGE_LEN) ps"
    and "concat chunks = frames ps"
  shows "cs_messages (fold (cl_on_data al_all) chunks st) = cs_messages st @ ps"
  by (rule core_reader.chunks_deliver [OF assms])

theorem client_delivers_messages_witness:
  "cs_messages (fold (cl_on_data al_all) [[0, 0, 0], [0, 1, 7, 0, 0, 0], [0, 2, 8], [9]] call_state_new)
     = [[7], [8, 9]]"
  using client_delivers_messages [of call_state_new "[[7], [8, 9]]"
      "[[0, 0, 0], [0, 1, 7, 0, 0, 0], [0, 2, 8], [9]]"]
  by (simp add: call_state_new_def MAX_MESSAGE_LEN_def frame_def encode_header_def to_be_bytes_def)

end
