(* ===== verification/Ffi_Client.thy ===== *)
theory Ffi_Client
  imports Client_Core Ffi_Server
begin

text \<open>
  The client half of the C ABI, \<open>rust/grpcuds-ffi-impl/src/client.rs\<close>, over the blocking client
  of \<open>Client_Core\<close>. Handles that may be null are options. The buffers the C caller reads are the
  byte lists themselves; a length written through an out parameter is the length of that list.
  As in \<open>Client_Core\<close>, an outer \<open>None\<close> means that the rounds of the wait are used up.
\<close>

section \<open>Handles\<close>

record response =
  rs_body :: bytes
  rs_status :: int
  rs_message :: "bytes option"

record stream_reader =
  sr_cur :: bytes
  sr_done :: bool
  sr_status :: int
  sr_message :: "bytes option"

fun err_to_int :: "client_error \<Rightarrow> int" where
  "err_to_int Connect = - 1"
| "err_to_int SessionErr = - 2"
| "err_to_int Io = - 3"
| "err_to_int Protocol = - 4"

section \<open>Connections\<close>

definition client_connect ::
    "'n cl_ops \<Rightarrow> 'n connect_env \<Rightarrow> bytes option \<Rightarrow> kernel \<Rightarrow> net \<Rightarrow> 'n client_conn option \<times> kernel \<times> net"
  where
  "client_connect ops env path k w =
     (case path of
        None \<Rightarrow> (None, k, w)
      | Some bs \<Rightarrow>
          (case connect ops env bs k w of
             (Inr conn, k, w) \<Rightarrow> (Some conn, k, w)
           | (Inl _, k, w) \<Rightarrow> (None, k, w)))"

definition client_connect_wait ::
    "(nat \<Rightarrow> client_error + 'c) \<Rightarrow> (nat \<Rightarrow> nat) \<Rightarrow> nat \<Rightarrow> nat \<Rightarrow> 32 word \<Rightarrow> bytes option \<Rightarrow> nat
       \<Rightarrow> 'c option option" where
  "client_connect_wait attempt clock start seed_now pid path timeout_ms =
     (case path of
        None \<Rightarrow> Some None
      | Some _ \<Rightarrow>
          map_option (\<lambda>(r, _). case r of Inr conn \<Rightarrow> Some conn | Inl _ \<Rightarrow> None)
            (connect_wait attempt clock start seed_now pid timeout_ms))"

definition client_set_timeout_ms ::
    "'n client_conn option \<Rightarrow> nat \<Rightarrow> int \<times> 'n client_conn option" where
  "client_set_timeout_ms client timeout_ms =
     (case client of None \<Rightarrow> (- 22, None) | Some c \<Rightarrow> (0, Some (set_timeout_ms timeout_ms c)))"

definition client_free :: "'n client_conn option \<Rightarrow> kernel \<Rightarrow> kernel" where
  "client_free client k = (case client of None \<Rightarrow> k | Some c \<Rightarrow> client_drop c k)"

section \<open>Unary calls\<close>

definition client_unary ::
    "'n cl_ops \<Rightarrow> 'n connect_env \<Rightarrow> net \<Rightarrow> alloc \<Rightarrow> nat \<Rightarrow> pump_env list \<Rightarrow> bytes option \<Rightarrow> bytes
       \<Rightarrow> 'n client_conn option \<Rightarrow> kernel \<Rightarrow> net
       \<Rightarrow> (response option \<times> 'n client_conn option \<times> kernel \<times> net) option" where
  "client_unary ops env w2 al now pes path req client k w =
     (case (client, path) of
        (Some c, Some path_b) \<Rightarrow>
          (case unary ops env w2 al now pes path_b req c k w of
             None \<Rightarrow> None
           | Some (Inl _, c, k, w) \<Rightarrow> Some (None, Some c, k, w)
           | Some (Inr _, c, k, w) \<Rightarrow>
               let status = (case cs_grpc_status (cc_state c) of None \<Rightarrow> 2 | Some s \<Rightarrow> s);
                   message = cs_grpc_message (cc_state c)
               in (case recv_current ops [] c w of
                     None \<Rightarrow> None
                   | Some (r, c, w) \<Rightarrow>
                       let body = (case r of Inr (Some m) \<Rightarrow> m | _ \<Rightarrow> [])
                       in Some (Some \<lparr>rs_body = body, rs_status = status, rs_message = message\<rparr>,
                                Some c, k, w)))
      | _ \<Rightarrow> Some (None, client, k, w))"

definition response_status :: "response option \<Rightarrow> int" where
  "response_status r = (case r of None \<Rightarrow> 2 | Some r \<Rightarrow> rs_status r)"

definition response_message_bytes :: "response option \<Rightarrow> bytes option" where
  "response_message_bytes r = Option.bind r rs_message"

definition response_body :: "response option \<Rightarrow> bytes option" where
  "response_body r = map_option rs_body r"

section \<open>Streams\<close>

definition client_server_streaming ::
    "'n cl_ops \<Rightarrow> 'n connect_env \<Rightarrow> net \<Rightarrow> alloc \<Rightarrow> nat \<Rightarrow> bytes option \<Rightarrow> bytes
       \<Rightarrow> 'n client_conn option \<Rightarrow> kernel \<Rightarrow> net
       \<Rightarrow> stream_reader option \<times> 'n client_conn option \<times> kernel \<times> net" where
  "client_server_streaming ops env w2 al now path req client k w =
     (case (client, path) of
        (Some c, Some path_b) \<Rightarrow>
          (case server_streaming ops env w2 al now path_b req c k w of
             (Inr _, c, k, w) \<Rightarrow>
               (Some \<lparr>sr_cur = [], sr_done = False, sr_status = 0, sr_message = None\<rparr>, Some c, k, w)
           | (Inl _, c, k, w) \<Rightarrow> (None, Some c, k, w))
      | _ \<Rightarrow> (None, client, k, w))"

text \<open>The client a stream points back to is passed along; reading a null stream answers null.\<close>

definition stream_next ::
    "'n cl_ops \<Rightarrow> pump_env list \<Rightarrow> stream_reader option \<Rightarrow> 'n client_conn \<Rightarrow> net
       \<Rightarrow> (bytes option \<times> stream_reader option \<times> 'n client_conn \<times> net) option" where
  "stream_next ops pes stream c w =
     (case stream of
        None \<Rightarrow> Some (None, None, c, w)
      | Some s \<Rightarrow>
          if sr_done s then Some (None, Some s, c, w)
          else case recv_current ops pes c w of
                 None \<Rightarrow> None
               | Some (Inr (Some msg), c, w) \<Rightarrow> Some (Some msg, Some (s\<lparr>sr_cur := msg\<rparr>), c, w)
               | Some (Inr None, c, w) \<Rightarrow>
                   Some (None, Some (s\<lparr>sr_done := True,
                                       sr_status := (case last_status c of None \<Rightarrow> 0 | Some st \<Rightarrow> st),
                                       sr_message := last_message c\<rparr>), c, w)
               | Some (Inl _, c, w) \<Rightarrow> Some (None, Some (s\<lparr>sr_done := True, sr_status := 14\<rparr>), c, w))"

definition stream_status :: "stream_reader option \<Rightarrow> int" where
  "stream_status s = (case s of None \<Rightarrow> 2 | Some s \<Rightarrow> sr_status s)"

section \<open>Lemmas\<close>

lemma recv_current_queued:
  "cs_messages (cc_state c) = m # ms \<Longrightarrow>
     recv_current ops pes c w = Some (Inr (Some m), c\<lparr>cc_state := (cc_state c)\<lparr>cs_messages := ms\<rparr>\<rparr>, w)"
  by (simp add: recv_current.simps [of ops pes])

lemma recv_current_closed:
  "cs_messages (cc_state c) = [] \<Longrightarrow> cs_closed (cc_state c) \<Longrightarrow>
     recv_current ops pes c w = Some (Inr None, c, w)"
  by (simp add: recv_current.simps [of ops pes])

fun stream_all ::
    "'n cl_ops \<Rightarrow> nat \<Rightarrow> stream_reader option \<Rightarrow> 'n client_conn \<Rightarrow> net
       \<Rightarrow> (bytes list \<times> stream_reader option) option" where
  "stream_all ops 0 s c w = None"
| "stream_all ops (Suc n) s c w =
     (case stream_next ops [] s c w of
        None \<Rightarrow> None
      | Some (None, s, _) \<Rightarrow> Some ([], s)
      | Some (Some m, s, c, w) \<Rightarrow> map_option (\<lambda>(ms, s). (m # ms, s)) (stream_all ops n s c w))"

lemma stream_all_closed:
  "cs_messages (cc_state c) = ms \<Longrightarrow> cs_closed (cc_state c) \<Longrightarrow> \<not> sr_done s \<Longrightarrow> length ms < n \<Longrightarrow>
     \<exists>s'. stream_all ops n (Some s) c w = Some (ms, Some s') \<and> sr_done s'
       \<and> sr_status s' = (case last_status c of None \<Rightarrow> 0 | Some st \<Rightarrow> st) \<and> sr_message s' = last_message c"
proof (induction ms arbitrary: n s c)
  case Nil
  then obtain n' where "n = Suc n'" by (cases n) auto
  with Nil show ?case by (simp add: stream_next_def recv_current_closed)
next
  case (Cons m ms)
  then obtain n' where n: "n = Suc n'" and "length ms < n'" by (cases n) auto
  let ?c = "c\<lparr>cc_state := (cc_state c)\<lparr>cs_messages := ms\<rparr>\<rparr>"
  have "stream_next ops [] (Some s) c w = Some (Some m, Some (s\<lparr>sr_cur := m\<rparr>), ?c, w)"
    using Cons.prems by (simp add: stream_next_def recv_current_queued)
  with Cons.IH [of ?c "s\<lparr>sr_cur := m\<rparr>" n'] Cons.prems n \<open>length ms < n'\<close> show ?case
    by (auto simp: last_status_def last_message_def)
qed

section \<open>Properties\<close>




end
