(* ===== verification/Rust_Server.thy ===== *)
theory Rust_Server
  imports Wakeup Uds Client_Codec
begin

text \<open>
  The server half of the Rust API: \<open>Status\<close> and \<open>code_from_wire\<close> from \<open>rust/grpcuds/src/lib.rs\<close>,
  and from \<open>rust/grpcuds/src/server.rs\<close> the outbound mailbox, \<open>ServerWriter\<close>, the handler
  trampoline, the builder and one round of the poll loop in \<open>Server::serve\<close>.

  Reference-counted state shared by the clones of a writer (\<open>CallShared\<close>) lives in a table
  indexed by a number that stands for the \<open>Arc\<close>. Handlers are parameters: a unary handler is
  the answer it gives, a streaming handler the list of writer operations it performs and the
  status it returns. Mutexes are taken not to be poisoned: nothing panics while holding one.
\<close>

section \<open>Status\<close>

record status =
  st_code :: grpc_status
  st_message :: "bytes option"

definition status_ok :: status where
  "status_ok = \<lparr>st_code = Ok, st_message = None\<rparr>"

definition status_new :: "grpc_status \<Rightarrow> bytes \<Rightarrow> status" where
  "status_new code message = \<lparr>st_code = code, st_message = Some message\<rparr>"

definition code_only :: "grpc_status \<Rightarrow> status" where
  "code_only code = \<lparr>st_code = code, st_message = None\<rparr>"

definition status_is_ok :: "status \<Rightarrow> bool" where
  "status_is_ok s \<longleftrightarrow> st_code s = Ok"

definition code_from_wire :: "int \<Rightarrow> grpc_status" where
  "code_from_wire code =
     (if code = 0 then Ok else if code = 1 then Cancelled else if code = 2 then Unknown
      else if code = 3 then InvalidArgument else if code = 4 then DeadlineExceeded
      else if code = 5 then NotFound else if code = 6 then AlreadyExists
      else if code = 7 then PermissionDenied else if code = 8 then ResourceExhausted
      else if code = 9 then FailedPrecondition else if code = 10 then Aborted
      else if code = 11 then OutOfRange else if code = 12 then Unimplemented
      else if code = 13 then Internal else if code = 14 then Unavailable
      else if code = 15 then DataLoss else if code = 16 then Unauthenticated else Unknown)"

definition from_wire_status :: "int \<Rightarrow> bytes option \<Rightarrow> status" where
  "from_wire_status code message = \<lparr>st_code = code_from_wire code, st_message = message\<rparr>"

text \<open>\<open>{:?}\<close> of a status code, and the \<open>Display\<close> of a status and of \<open>Closed\<close>.\<close>

fun code_debug :: "grpc_status \<Rightarrow> bytes" where
  "code_debug Ok = ascii ''Ok''"
| "code_debug Cancelled = ascii ''Cancelled''"
| "code_debug Unknown = ascii ''Unknown''"
| "code_debug InvalidArgument = ascii ''InvalidArgument''"
| "code_debug DeadlineExceeded = ascii ''DeadlineExceeded''"
| "code_debug NotFound = ascii ''NotFound''"
| "code_debug AlreadyExists = ascii ''AlreadyExists''"
| "code_debug PermissionDenied = ascii ''PermissionDenied''"
| "code_debug ResourceExhausted = ascii ''ResourceExhausted''"
| "code_debug FailedPrecondition = ascii ''FailedPrecondition''"
| "code_debug Aborted = ascii ''Aborted''"
| "code_debug OutOfRange = ascii ''OutOfRange''"
| "code_debug Unimplemented = ascii ''Unimplemented''"
| "code_debug Internal = ascii ''Internal''"
| "code_debug Unavailable = ascii ''Unavailable''"
| "code_debug DataLoss = ascii ''DataLoss''"
| "code_debug Unauthenticated = ascii ''Unauthenticated''"

definition status_display :: "status \<Rightarrow> bytes" where
  "status_display s =
     ascii ''grpc status '' @ code_debug (st_code s)
     @ (case st_message s of Some m \<Rightarrow> ascii '': '' @ m | None \<Rightarrow> [])"

definition closed_display :: bytes where
  "closed_display = ascii ''call is finished or the client is gone''"

text \<open>The constructors \<open>status_ctor!\<close> defines, one for each code but \<open>Ok\<close>.\<close>

definition status_cancelled :: "bytes \<Rightarrow> status" where "status_cancelled = status_new Cancelled"
definition status_unknown :: "bytes \<Rightarrow> status" where "status_unknown = status_new Unknown"
definition status_invalid_argument :: "bytes \<Rightarrow> status" where "status_invalid_argument = status_new InvalidArgument"
definition status_deadline_exceeded :: "bytes \<Rightarrow> status" where "status_deadline_exceeded = status_new DeadlineExceeded"
definition status_not_found :: "bytes \<Rightarrow> status" where "status_not_found = status_new NotFound"
definition status_already_exists :: "bytes \<Rightarrow> status" where "status_already_exists = status_new AlreadyExists"
definition status_permission_denied :: "bytes \<Rightarrow> status" where "status_permission_denied = status_new PermissionDenied"
definition status_resource_exhausted :: "bytes \<Rightarrow> status" where "status_resource_exhausted = status_new ResourceExhausted"
definition status_failed_precondition :: "bytes \<Rightarrow> status" where "status_failed_precondition = status_new FailedPrecondition"
definition status_aborted :: "bytes \<Rightarrow> status" where "status_aborted = status_new Aborted"
definition status_out_of_range :: "bytes \<Rightarrow> status" where "status_out_of_range = status_new OutOfRange"
definition status_unimplemented :: "bytes \<Rightarrow> status" where "status_unimplemented = status_new Unimplemented"
definition status_internal :: "bytes \<Rightarrow> status" where "status_internal = status_new Internal"
definition status_unavailable :: "bytes \<Rightarrow> status" where "status_unavailable = status_new Unavailable"
definition status_data_loss :: "bytes \<Rightarrow> status" where "status_data_loss = status_new DataLoss"
definition status_unauthenticated :: "bytes \<Rightarrow> status" where "status_unauthenticated = status_new Unauthenticated"

interpretation rust_status: status_codec status_code code_from_wire Unknown
proof (standard, goal_cases)
  case (1 s)
  then show ?case by (cases s) (simp_all add: code_from_wire_def)
next
  case (2 s)
  then show ?case by (cases s) simp_all
next
  case (3 c)
  from code_range_cases [OF this] show ?case by (auto simp: code_from_wire_def)
next
  case (4 c)
  then show ?case by (auto simp: code_from_wire_def)
qed

section \<open>Mailbox\<close>

datatype op_kind = WriteOp bytes | FinishOp grpc_status "bytes option" | PolicyOp backpressure

record out_op =
  oo_token :: nat
  oo_call_id :: int
  oo_kind :: op_kind
  oo_shared :: nat

record call_shared =
  sh_finished :: bool
  sh_dead :: bool
  sh_overflow :: bool

definition shared_default :: call_shared where
  "shared_default = \<lparr>sh_finished = False, sh_dead = False, sh_overflow = False\<rparr>"

text \<open>
  What the I/O thread and the writers share: the queued operations, the counter of the
  \<open>eventfd\<close>, and the shared state of each call. \<open>rb_fresh\<close> is the next unused \<open>Arc\<close>.
\<close>

record rbox =
  rb_ops :: "out_op list"
  rb_signal :: nat
  rb_shared :: "nat \<Rightarrow> call_shared"
  rb_fresh :: nat

definition mailbox_open :: "int \<Rightarrow> rbox option" where
  "mailbox_open fd =
     (if fd < 0 then None
      else Some \<lparr>rb_ops = [], rb_signal = 0, rb_shared = (\<lambda>_. shared_default), rb_fresh = 0\<rparr>)"

definition box_push :: "out_op \<Rightarrow> rbox \<Rightarrow> bool \<times> rbox" where
  "box_push oo b = (rb_ops b = [], b\<lparr>rb_ops := rb_ops b @ [oo]\<rparr>)"

definition box_poke :: "rbox \<Rightarrow> rbox" where
  "box_poke b = b\<lparr>rb_signal := (if rb_signal b + 1 > 2 ^ 64 - 2 then rb_signal b else rb_signal b + 1)\<rparr>"

definition drain_wakeup :: "rbox \<Rightarrow> rbox" where
  "drain_wakeup b = b\<lparr>rb_signal := 0\<rparr>"

definition box_take :: "rbox \<Rightarrow> out_op list \<times> rbox" where
  "box_take b = (rb_ops b, b\<lparr>rb_ops := []\<rparr>)"

definition upd_shared :: "nat \<Rightarrow> (call_shared \<Rightarrow> call_shared) \<Rightarrow> rbox \<Rightarrow> rbox" where
  "upd_shared i f b = b\<lparr>rb_shared := (rb_shared b)(i := f (rb_shared b i))\<rparr>"

section \<open>Writers\<close>

record writer =
  wr_token :: nat
  wr_call_id :: int
  wr_shared :: nat
  wr_deadline_at :: "nat option"

definition time_remaining :: "nat \<Rightarrow> writer \<Rightarrow> nat option" where
  "time_remaining now wr = map_option (\<lambda>d. d - now) (wr_deadline_at wr)"

definition writer_closed :: "writer \<Rightarrow> rbox \<Rightarrow> bool" where
  "writer_closed wr b \<longleftrightarrow> sh_finished (rb_shared b (wr_shared wr)) \<or> sh_dead (rb_shared b (wr_shared wr))"

definition writer_push :: "bool \<Rightarrow> op_kind \<Rightarrow> writer \<Rightarrow> rbox \<Rightarrow> rbox" where
  "writer_push on_io_thread kind wr b =
     (let (was_empty, b) = box_push \<lparr>oo_token = wr_token wr, oo_call_id = wr_call_id wr,
                                     oo_kind = kind, oo_shared = wr_shared wr\<rparr> b
      in if \<not> was_empty then b else if \<not> on_io_thread then box_poke b else b)"

text \<open>Each operation answers whether it was accepted; \<open>False\<close> is \<open>Err(Closed)\<close>.\<close>

definition writer_write :: "bool \<Rightarrow> bytes \<Rightarrow> writer \<Rightarrow> rbox \<Rightarrow> bool \<times> rbox" where
  "writer_write io msg wr b =
     (if writer_closed wr b then (False, b) else (True, writer_push io (WriteOp msg) wr b))"

definition writer_write_owned :: "bool \<Rightarrow> bytes \<Rightarrow> writer \<Rightarrow> rbox \<Rightarrow> bool \<times> rbox" where
  "writer_write_owned io msg wr b =
     (if writer_closed wr b then (False, b) else (True, writer_push io (WriteOp msg) wr b))"

definition writer_finish :: "bool \<Rightarrow> status \<Rightarrow> writer \<Rightarrow> rbox \<Rightarrow> bool \<times> rbox" where
  "writer_finish io st wr b =
     (let sh = rb_shared b (wr_shared wr)
      in if sh_dead sh then (False, b)
         else let was = sh_finished sh;
                  b = upd_shared (wr_shared wr) (\<lambda>s. s\<lparr>sh_finished := True\<rparr>) b
              in if was then (False, b)
                 else let msg = (case st_message st of
                                   Some m \<Rightarrow> if m \<noteq> [] then Some m else None | None \<Rightarrow> None)
                      in (True, writer_push io (FinishOp (st_code st) msg) wr b))"

definition writer_set_backpressure :: "bool \<Rightarrow> backpressure \<Rightarrow> writer \<Rightarrow> rbox \<Rightarrow> bool \<times> rbox" where
  "writer_set_backpressure io bp wr b =
     (if writer_closed wr b then (False, b) else (True, writer_push io (PolicyOp bp) wr b))"

definition is_finished :: "writer \<Rightarrow> rbox \<Rightarrow> bool" where
  "is_finished wr b = sh_finished (rb_shared b (wr_shared wr))"

definition is_cancelled :: "writer \<Rightarrow> rbox \<Rightarrow> bool" where
  "is_cancelled wr b = sh_dead (rb_shared b (wr_shared wr))"

definition overflowed :: "writer \<Rightarrow> rbox \<Rightarrow> bool" where
  "overflowed wr b = sh_overflow (rb_shared b (wr_shared wr))"

datatype wop = WWrite bytes | WFinish status | WPolicy backpressure

fun run_wop :: "bool \<Rightarrow> writer \<Rightarrow> wop \<Rightarrow> rbox \<Rightarrow> bool \<times> rbox" where
  "run_wop io wr (WWrite m) b = writer_write io m wr b"
| "run_wop io wr (WFinish st) b = writer_finish io st wr b"
| "run_wop io wr (WPolicy bp) b = writer_set_backpressure io bp wr b"

section \<open>Trampoline\<close>

datatype handler_answer =
    UnaryAnswer "status + bytes"
  | StreamAnswer "wop list" status

type_synonym rhandlers = "nat \<Rightarrow> bytes \<Rightarrow> writer \<Rightarrow> handler_answer"

text \<open>
  \<open>remaining\<close> is the call's budget as \<open>call_time_remaining_ms\<close> answers it. The handler and the
  writes run on the I/O thread; the trampoline always returns 0 to the core.
\<close>

definition trampoline ::
    "rhandlers \<Rightarrow> nat \<Rightarrow> nat \<Rightarrow> nat option \<Rightarrow> int \<Rightarrow> bytes \<Rightarrow> nat \<Rightarrow> rbox \<Rightarrow> int \<times> rbox" where
  "trampoline H token now remaining call_id req entry b =
     (let wr = \<lparr>wr_token = token, wr_call_id = call_id, wr_shared = rb_fresh b,
                wr_deadline_at = map_option (\<lambda>ms. now + ms) remaining\<rparr>;
          b = b\<lparr>rb_fresh := Suc (rb_fresh b), rb_shared := (rb_shared b)(rb_fresh b := shared_default)\<rparr>
      in (0, case H entry req wr of
               UnaryAnswer (Inr resp) \<Rightarrow>
                 snd (writer_finish True status_ok wr (snd (writer_write_owned True resp wr b)))
             | UnaryAnswer (Inl st) \<Rightarrow> snd (writer_finish True st wr b)
             | StreamAnswer wops st \<Rightarrow>
                 let b = fold (\<lambda>x b. snd (run_wop True wr x b)) wops b
                 in if \<not> status_is_ok st \<and> \<not> is_finished wr b then snd (writer_finish True st wr b) else b))"


section \<open>Builder\<close>

text \<open>The \<open>io::Error\<close> values the code makes or passes on, and the crate's own error.\<close>

datatype std_error = OsError int | IoInvalidInput | IoTimedOut | IoWriteZero | IoOther bytes

datatype rust_error =
    MissingBindPath | BadPath bytes | BindFailed bytes std_error | IoFailed std_error
  | ConnectFailed bytes std_error | SessionFailed

text \<open>\<open>Display\<close> of the error, over the library's rendering of paths and of \<open>io::Error\<close>.\<close>

definition error_display :: "(bytes \<Rightarrow> bytes) \<Rightarrow> (std_error \<Rightarrow> bytes) \<Rightarrow> rust_error \<Rightarrow> bytes" where
  "error_display path_debug io_display e =
     (case e of
        MissingBindPath \<Rightarrow> ascii ''no bind() path was set on the builder''
      | BadPath p \<Rightarrow> ascii ''invalid UDS path '' @ path_debug p @ ascii '' (empty or too long)''
      | BindFailed p src \<Rightarrow> ascii ''binding '' @ path_debug p @ ascii '' failed: '' @ io_display src
      | IoFailed src \<Rightarrow> ascii ''server I/O error: '' @ io_display src
      | ConnectFailed p src \<Rightarrow> ascii ''connecting to '' @ path_debug p @ ascii '' failed: '' @ io_display src
      | SessionFailed \<Rightarrow> ascii ''nghttp2 client session setup failed'')"

definition error_source :: "rust_error \<Rightarrow> std_error option" where
  "error_source e =
     (case e of
        BindFailed _ src \<Rightarrow> Some src | IoFailed src \<Rightarrow> Some src | ConnectFailed _ src \<Rightarrow> Some src
      | _ \<Rightarrow> None)"

record builder =
  sb_path :: "bytes option"
  sb_methods :: "bytes list"

definition builder_new :: builder where
  "builder_new = \<lparr>sb_path = None, sb_methods = []\<rparr>"

definition UNIX_PREFIX :: bytes where "UNIX_PREFIX = ascii ''unix:''"

definition builder_bind :: "bytes \<Rightarrow> builder \<Rightarrow> builder" where
  "builder_bind p sb =
     (let stripped = (if utf8_valid p \<and> take 5 p = UNIX_PREFIX then drop 5 p else p)
      in sb\<lparr>sb_path := Some stripped\<rparr>)"

definition builder_add :: "bytes \<Rightarrow> builder \<Rightarrow> builder" where
  "builder_add path sb = sb\<lparr>sb_methods := sb_methods sb @ [path]\<rparr>"

record rust_server =
  rs_listener :: listener
  rs_methods :: "bytes list"

definition builder_build ::
    "int + int \<Rightarrow> int + unit \<Rightarrow> int + unit \<Rightarrow> builder \<Rightarrow> kernel \<Rightarrow> (rust_error + rust_server) \<times> kernel" where
  "builder_build sock bnd lst sb k =
     (case sb_path sb of
        None \<Rightarrow> (Inl MissingBindPath, k)
      | Some path \<Rightarrow>
          (case listener_bind sock bnd lst path k of
             (Inl InvalidPath, k) \<Rightarrow> (Inl (BadPath path), k)
           | (Inl (Errno no), k) \<Rightarrow> (Inl (BindFailed path (OsError no)), k)
           | (Inl (Conn _), k) \<Rightarrow> (Inl (BindFailed path (IoOther (ascii ''connection setup failed''))), k)
           | (Inr l, k) \<Rightarrow> (Inr \<lparr>rs_listener = l, rs_methods = sb_methods sb\<rparr>, k)))"

section \<open>The poll loop\<close>

record 'n slot =
  sl_token :: nat
  sl_conn :: "'n connection"
  sl_net :: net
  sl_dead :: bool

record 'n loop =
  lp_conns :: "'n slot list"
  lp_next_token :: nat

text \<open>What \<open>poll\<close> reports for one connection: readable, hung up or in error; writable; other.\<close>

record revents =
  re_read :: bool
  re_out :: bool
  re_other :: bool

definition re_none :: "revents \<Rightarrow> bool" where
  "re_none re \<longleftrightarrow> \<not> re_read re \<and> \<not> re_out re \<and> \<not> re_other re"

record 'n round_env =
  ev_env :: env
  ev_poll :: "int + unit"
  ev_listener :: bool
  ev_wakeup :: bool
  ev_revents :: "revents list"
  ev_accepts :: "((int + int) \<times> (conn_error + 'n conn) \<times> net) list"

text \<open>Method \<open>i\<close> is registered with the trampoline and the entry's address, here its index.\<close>

fun register_entries ::
    "alloc \<Rightarrow> nat \<Rightarrow> bytes list \<Rightarrow> 'n conn \<Rightarrow> (conn_error + unit) \<times> 'n conn" where
  "register_entries al i [] c = (Inr (), c)"
| "register_entries al i (p # ps) c =
     (case register_method al p 0 i c of
        (Inl e, c) \<Rightarrow> (Inl e, c)
      | (Inr _, c) \<Rightarrow> register_entries al (Suc i) ps c)"

fun accept_loop ::
    "alloc \<Rightarrow> bytes list \<Rightarrow> ((int + int) \<times> (conn_error + 'n conn) \<times> net) list
       \<Rightarrow> kernel \<Rightarrow> 'n loop \<Rightarrow> kernel \<times> 'n loop" where
  "accept_loop al paths [] k lp = (k, lp)"
| "accept_loop al paths ((acc, created, net) # rest) k lp =
     (case listener_accept acc created k of
        (Inl _, k) \<Rightarrow> (k, lp)
      | (Inr None, k) \<Rightarrow> (k, lp)
      | (Inr (Some cn), k) \<Rightarrow>
          (case register_entries al 0 paths (cn_conn cn) of
             (Inl _, _) \<Rightarrow> accept_loop al paths rest (connection_drop cn k) lp
           | (Inr _, c) \<Rightarrow>
               accept_loop al paths rest k
                 (lp\<lparr>lp_conns := lp_conns lp @ [\<lparr>sl_token = lp_next_token lp, sl_conn = cn\<lparr>cn_conn := c\<rparr>,
                                                sl_net = net, sl_dead = False\<rparr>],
                     lp_next_token := lp_next_token lp + 1\<rparr>)))"

text \<open>
  A dispatch pass with the trampoline as the core's handler. Towards the core the trampoline
  asks for the call's budget and returns 0; its other effects are on the mailbox.
\<close>

definition rust_handlers :: "nat \<Rightarrow> handlers" where
  "rust_handlers now handler user_data call_id req =
     HCall (ApiTimeRemaining now call_id) (\<lambda>_. HRet 0)"

definition call_trampoline :: "rhandlers \<Rightarrow> nat \<Rightarrow> nat \<Rightarrow> 'n conn \<Rightarrow> stream_ctx \<Rightarrow> rbox \<Rightarrow> rbox" where
  "call_trampoline H token now c s b =
     (if sc_state s \<noteq> StComplete then b
      else case request_payload c (sc_request s) of
             None \<Rightarrow> b
           | Some p \<Rightarrow>
               (case find_method (sc_path s) c of
                  None \<Rightarrow> b
                | Some m \<Rightarrow>
                    let remaining = (case call_time_remaining_ms now (sc_id s) c of
                                       Inr r \<Rightarrow> r | Inl _ \<Rightarrow> None)
                    in snd (trampoline H token now remaining (sc_id s) p (me_user_data m) b)))"

definition rust_dispatch ::
    "'n ng_ops \<Rightarrow> rhandlers \<Rightarrow> nat \<Rightarrow> nat \<Rightarrow> 'n conn \<Rightarrow> rbox \<Rightarrow> 'n conn \<times> rbox" where
  "rust_dispatch ops H token now c b =
     fold (\<lambda>i (c, b). (snd (dispatch_stream ops (rust_handlers now) i (0, c)),
                       call_trampoline H token now c (streams c ! i) b))
       [0..<length (streams c)] (c, b)"

definition rust_tick_read ::
    "'n ng_ops \<Rightarrow> rhandlers \<Rightarrow> nat \<Rightarrow> env \<Rightarrow> 'n connection \<Rightarrow> net \<Rightarrow> rbox
       \<Rightarrow> (io_error + tick_status) \<times> 'n connection \<times> net \<times> rbox" where
  "rust_tick_read ops H token e cn w b =
     (let c = expire_deadlines ops (env_now e) (cn_conn cn)
      in case drain_reads ops c w of
           (Inl err, c, w) \<Rightarrow> (Inl err, cn\<lparr>cn_conn := c\<rparr>, w, b)
         | (Inr (Some st), c, w) \<Rightarrow> (Inr st, cn\<lparr>cn_conn := c\<rparr>, w, b)
         | (Inr None, c, w) \<Rightarrow>
             let (c, b) = rust_dispatch ops H token (env_now e) c b;
                 (r, c, w) = flush_writes ops (env_alloc e) c w
             in (r, cn\<lparr>cn_conn := c\<rparr>, w, b))"

definition tick_slot ::
    "'n ng_ops \<Rightarrow> rhandlers \<Rightarrow> env \<Rightarrow> revents \<Rightarrow> 'n slot \<Rightarrow> rbox \<Rightarrow> 'n slot \<times> rbox" where
  "tick_slot ops H e re sl b =
     (let deadline_due = (re_none re \<and> connection_next_deadline_ms (env_now e) (sl_conn sl) = Some 0)
      in if re_none re \<and> \<not> deadline_due then (sl, b)
         else let readable = (deadline_due \<or> re_read re);
                  (res, cn, w, b) =
                    (if readable then rust_tick_read ops H (sl_token sl) e (sl_conn sl) (sl_net sl) b
                     else if re_out re
                     then (case tick_write ops e (sl_conn sl) (sl_net sl) of (r, cn, w) \<Rightarrow> (r, cn, w, b))
                     else (Inr Live, sl_conn sl, sl_net sl, b))
              in (sl\<lparr>sl_conn := cn, sl_net := w, sl_dead := sl_dead sl \<or> res \<noteq> Inr Live\<rparr>, b))"

fun tick_slots ::
    "'n ng_ops \<Rightarrow> rhandlers \<Rightarrow> env \<Rightarrow> revents list \<Rightarrow> 'n slot list \<Rightarrow> rbox \<Rightarrow> 'n slot list \<times> rbox" where
  "tick_slots ops H e (re # res) (sl # sls) b =
     (let (sl, b) = tick_slot ops H e re sl b; (sls, b) = tick_slots ops H e res sls b in (sl # sls, b))"
| "tick_slots ops H e _ sls b = (sls, b)"

text \<open>One queued operation, applied on the connection its token names, if that is still there.\<close>

definition run_op :: "'n ng_ops \<Rightarrow> alloc \<Rightarrow> out_op \<Rightarrow> 'n conn \<Rightarrow> (conn_error + unit) \<times> 'n conn" where
  "run_op ops al oo c =
     (case oo_kind oo of
        WriteOp bs \<Rightarrow> write_call_owned ops al (oo_call_id oo) bs c
      | FinishOp code (Some msg) \<Rightarrow> finish_call_msg ops (oo_call_id oo) code msg c
      | FinishOp code None \<Rightarrow> finish_call ops (oo_call_id oo) code c
      | PolicyOp bp \<Rightarrow> set_stream_policy (oo_call_id oo) bp c)"

definition owns_op :: "out_op \<Rightarrow> 'n slot \<Rightarrow> bool" where
  "owns_op oo sl \<longleftrightarrow> sl_token sl = oo_token oo \<and> \<not> sl_dead sl"

definition apply_op :: "'n ng_ops \<Rightarrow> alloc \<Rightarrow> out_op \<Rightarrow> 'n slot list \<times> rbox \<Rightarrow> 'n slot list \<times> rbox" where
  "apply_op ops al oo sb =
     (case sb of (sls, b) \<Rightarrow>
        (case find (owns_op oo) sls of
           None \<Rightarrow> (sls, upd_shared (oo_shared oo) (\<lambda>s. s\<lparr>sh_dead := True\<rparr>) b)
         | Some sl \<Rightarrow>
             let (res, c) = run_op ops al oo (cn_conn (sl_conn sl));
                 sls = upd_first (owns_op oo) (\<lambda>sl. sl\<lparr>sl_conn := (sl_conn sl)\<lparr>cn_conn := c\<rparr>\<rparr>) sls
             in (case res of
                   Inr _ \<Rightarrow> (sls, b)
                 | Inl e \<Rightarrow>
                     if e = QueueFull
                     then (sls, upd_shared (oo_shared oo) (\<lambda>s. s\<lparr>sh_overflow := True\<rparr>) b)
                     else (sls, upd_shared (oo_shared oo) (\<lambda>s. s\<lparr>sh_dead := True\<rparr>) b))))"

definition apply_ops :: "'n ng_ops \<Rightarrow> alloc \<Rightarrow> 'n slot list \<Rightarrow> rbox \<Rightarrow> 'n slot list \<times> rbox" where
  "apply_ops ops al sls b = (let (oos, b) = box_take b in fold (apply_op ops al) oos (sls, b))"

definition flush_slot :: "'n ng_ops \<Rightarrow> env \<Rightarrow> 'n slot \<Rightarrow> 'n slot" where
  "flush_slot ops e sl =
     (if sl_dead sl then sl
      else if wants_write ops (sl_conn sl)
      then (case tick_write ops e (sl_conn sl) (sl_net sl) of
              (r, cn, w) \<Rightarrow> sl\<lparr>sl_conn := cn, sl_net := w, sl_dead := r \<noteq> Inr Live\<rparr>)
      else sl)"

definition reap :: "'n slot list \<Rightarrow> kernel \<Rightarrow> 'n slot list \<times> kernel" where
  "reap sls k =
     (filter (\<lambda>sl. \<not> sl_dead sl) sls,
      fold (\<lambda>sl k. connection_drop (sl_conn sl) k) (filter sl_dead sls) k)"

datatype round_result = Continue | Break rust_error

definition serve_round ::
    "'n ng_ops \<Rightarrow> rhandlers \<Rightarrow> bytes list \<Rightarrow> 'n round_env \<Rightarrow> 'n loop \<Rightarrow> kernel \<Rightarrow> rbox
       \<Rightarrow> round_result \<times> 'n loop \<times> kernel \<times> rbox" where
  "serve_round ops H paths ev lp k b =
     (case ev_poll ev of
        Inl e \<Rightarrow> if e = EINTR then (Continue, lp, k, b) else (Break (IoFailed (OsError e)), lp, k, b)
      | Inr _ \<Rightarrow>
          let e = ev_env ev;
              n_polled = length (lp_conns lp);
              (k, lp) = (if ev_listener ev then accept_loop (env_alloc e) paths (ev_accepts ev) k lp
                         else (k, lp));
              b = (if ev_wakeup ev then drain_wakeup b else b);
              (sls, b) = tick_slots ops H e (take n_polled (ev_revents ev)) (lp_conns lp) b;
              (sls, b) = apply_ops ops (env_alloc e) sls b;
              sls = map (flush_slot ops e) sls;
              (sls, k) = reap sls k
          in (Continue, lp\<lparr>lp_conns := sls\<rparr>, k, b))"

text \<open>
  \<open>Server::serve\<close> over the rounds to come, each with the shutdown flag as read at its start.
  \<open>None\<close> when the rounds are used up before the loop ends.
\<close>

fun serve_loop ::
    "'n ng_ops \<Rightarrow> rhandlers \<Rightarrow> bytes list \<Rightarrow> (bool \<times> 'n round_env) list \<Rightarrow> 'n loop \<Rightarrow> kernel \<Rightarrow> rbox
       \<Rightarrow> ((rust_error + unit) \<times> 'n loop \<times> kernel \<times> rbox) option" where
  "serve_loop ops H paths [] lp k b = None"
| "serve_loop ops H paths ((shutdown, ev) # evs) lp k b =
     (if shutdown then Some (Inr (), lp, k, b)
      else case serve_round ops H paths ev lp k b of
             (Continue, lp, k, b) \<Rightarrow> serve_loop ops H paths evs lp k b
           | (Break e, lp, k, b) \<Rightarrow> Some (Inl e, lp, k, b))"

definition serve ::
    "'n ng_ops \<Rightarrow> rhandlers \<Rightarrow> int \<Rightarrow> int \<Rightarrow> rust_server \<Rightarrow> (bool \<times> 'n round_env) list \<Rightarrow> kernel
       \<Rightarrow> ((rust_error + unit) \<times> kernel) option" where
  "serve ops H fd errno srv evs k =
     (case mailbox_open fd of
        None \<Rightarrow> Some (Inl (IoFailed (OsError errno)), listener_drop (rs_listener srv) k)
      | Some b \<Rightarrow>
          map_option (\<lambda>(r, lp, k, b).
              (r, listener_drop (rs_listener srv)
                    (fold (\<lambda>sl k. connection_drop (sl_conn sl) k) (lp_conns lp) k)))
            (serve_loop ops H (rs_methods srv) evs \<lparr>lp_conns = [], lp_next_token = 1\<rparr> k b))"


text \<open>
  \<open>Server::run\<close> and its handle: a thread that runs \<open>serve\<close>, and the flag it watches. \<open>spawn\<close>
  is the answer of the operating system; \<open>outcome\<close> is what the thread ended with, \<open>None\<close> if it
  panicked.
\<close>

record running =
  rn_shutdown :: bool
  rn_thread :: bool

definition server_run :: "int + unit \<Rightarrow> rust_server \<Rightarrow> kernel \<Rightarrow> (rust_error + running) \<times> kernel" where
  "server_run spawn srv k =
     (case spawn of
        Inl e \<Rightarrow> (Inl (IoFailed (OsError e)), listener_drop (rs_listener srv) k)
      | Inr _ \<Rightarrow> (Inr \<lparr>rn_shutdown = False, rn_thread = True\<rparr>, k))"

definition running_shutdown :: "running \<Rightarrow> running" where
  "running_shutdown rn = rn\<lparr>rn_shutdown := True\<rparr>"

definition is_running :: "bool \<Rightarrow> running \<Rightarrow> bool" where
  "is_running thread_finished rn \<longleftrightarrow> rn_thread rn \<and> \<not> thread_finished"

definition running_join :: "(rust_error + unit) option \<Rightarrow> running \<Rightarrow> (rust_error + unit) \<times> running" where
  "running_join outcome rn =
     (let rn = running_shutdown rn
      in (if rn_thread rn
          then (case outcome of
                  Some r \<Rightarrow> r
                | None \<Rightarrow> Inl (IoFailed (IoOther (ascii ''grpcuds I/O thread panicked''))))
          else Inr (), rn\<lparr>rn_thread := False\<rparr>))"

definition running_drop :: "running \<Rightarrow> running" where
  "running_drop rn = (running_shutdown rn)\<lparr>rn_thread := False\<rparr>"

text \<open>
  \<open>Server::serve_async\<close>: the loop on a blocking task, raced against the shutdown future. \<open>first\<close>
  says which of the two \<open>select!\<close> sees first; \<open>io\<close> is what the task ends with, \<open>None\<close> if it panics,
  once the flag has the given value for good.
\<close>

datatype select = IoFirst | ShutdownFirst

definition serve_async :: "select \<Rightarrow> (bool \<Rightarrow> (rust_error + unit) option) \<Rightarrow> bool \<times> (rust_error + unit)" where
  "serve_async first io =
     (let flag = (first = ShutdownFirst)
      in (flag,
          case io flag of
            Some r \<Rightarrow> r
          | None \<Rightarrow> Inl (IoFailed (IoOther (ascii ''grpcuds I/O task panicked'')))))"

section \<open>Wakeups\<close>

text \<open>
  The mailbox among its threads. A producer's \<open>push\<close> and \<open>poke\<close> are separate steps. The I/O
  thread is awake from the return of \<open>poll\<close> to \<open>take\<close>; only then do handlers run and push
  without poking. Changes of the shared flags concern no wakeup.
\<close>

record rsys =
  ry_box :: rbox
  ry_owed :: nat
  ry_awake :: bool
  ry_pushed :: "out_op list"
  ry_taken :: "out_op list"

inductive rsys_step :: "rsys \<Rightarrow> rsys \<Rightarrow> bool" where
  push: "box_push oo (ry_box s) = (was_empty, b) \<Longrightarrow>
     rsys_step s (s\<lparr>ry_box := b, ry_pushed := ry_pushed s @ [oo],
                   ry_owed := ry_owed s + (if was_empty then 1 else 0)\<rparr>)"
| poke: "0 < ry_owed s \<Longrightarrow> rsys_step s (s\<lparr>ry_box := box_poke (ry_box s), ry_owed := ry_owed s - 1\<rparr>)"
| inline: "ry_awake s \<Longrightarrow> box_push oo (ry_box s) = (was_empty, b) \<Longrightarrow>
     rsys_step s (s\<lparr>ry_box := b, ry_pushed := ry_pushed s @ [oo]\<rparr>)"
| poll_returns: "rsys_step s (s\<lparr>ry_awake := True\<rparr>)"
| clear: "ry_awake s \<Longrightarrow> rsys_step s (s\<lparr>ry_box := drain_wakeup (ry_box s)\<rparr>)"
| takes: "ry_awake s \<Longrightarrow> box_take (ry_box s) = (oos, b) \<Longrightarrow>
     rsys_step s (s\<lparr>ry_box := b, ry_taken := ry_taken s @ oos, ry_awake := False\<rparr>)"
| flags: "rsys_step s (s\<lparr>ry_box := upd_shared i f (ry_box s)\<rparr>)"

definition rsys_view :: "rsys \<Rightarrow> out_op wake" where
  "rsys_view s =
     \<lparr>wk_queue = rb_ops (ry_box s), wk_pushed = ry_pushed s, wk_taken = ry_taken s,
      wk_signal = rb_signal (ry_box s), wk_owed = ry_owed s, wk_busy = ry_awake s\<rparr>"

definition rsys_init :: "rbox \<Rightarrow> rsys" where
  "rsys_init b = \<lparr>ry_box = b, ry_owed = 0, ry_awake = False, ry_pushed = [], ry_taken = []\<rparr>"

lemma rsys_step_view:
  assumes "rsys_step s s'"
  shows "wake_step (rsys_view s) (rsys_view s')"
  using assms
proof cases
  case (push oo was_empty b)
  then show ?thesis
    using wake_step.push [of was_empty "rsys_view s" oo]
    by (auto simp: rsys_view_def box_push_def)
next
  case poke
  then show ?thesis
    using wake_step.signal [of "rsys_view s" "rb_signal (box_poke (ry_box s))"]
    by (auto simp: rsys_view_def box_poke_def)
next
  case (inline oo was_empty b)
  then show ?thesis
    using wake_step.push [of False "rsys_view s" oo] by (auto simp: rsys_view_def box_push_def)
next
  case poll_returns
  then show ?thesis using wake_step.wake [of "rsys_view s"] by (simp add: rsys_view_def)
next
  case clear
  then show ?thesis
    using wake_step.clear [of "rsys_view s"] by (simp add: rsys_view_def drain_wakeup_def)
next
  case (takes oos b)
  then show ?thesis
    using wake_step.takes [of "rsys_view s"] by (auto simp: rsys_view_def box_take_def)
next
  case (flags i f)
  then show ?thesis by (simp add: rsys_view_def upd_shared_def wake_step.stutter)
qed

interpretation rust_wakeup: wakeup_queue rsys_view rsys_step "\<lambda>_. True"
  by unfold_locales (auto intro: rsys_step_view)

lemma rsys_init_inv: "rb_ops b = [] \<Longrightarrow> wake_inv (rsys_view (rsys_init b))"
  by (simp add: rsys_view_def rsys_init_def wake_inv_def)

section \<open>Writers\<close>

definition wop_kind :: "wop \<Rightarrow> op_kind" where
  "wop_kind x =
     (case x of
        WWrite m \<Rightarrow> WriteOp m
      | WFinish st \<Rightarrow> FinishOp (st_code st)
          (case st_message st of Some m \<Rightarrow> if m \<noteq> [] then Some m else None | None \<Rightarrow> None)
      | WPolicy bp \<Rightarrow> PolicyOp bp)"

fun upto_finish :: "wop list \<Rightarrow> wop list" where
  "upto_finish [] = []"
| "upto_finish (WFinish st # xs) = [WFinish st]"
| "upto_finish (x # xs) = x # upto_finish xs"

definition wr_op :: "writer \<Rightarrow> wop \<Rightarrow> out_op" where
  "wr_op wr x = \<lparr>oo_token = wr_token wr, oo_call_id = wr_call_id wr, oo_kind = wop_kind x,
                 oo_shared = wr_shared wr\<rparr>"

lemma writer_push_sel [simp]:
  "rb_ops (writer_push io kind wr b)
     = rb_ops b @ [\<lparr>oo_token = wr_token wr, oo_call_id = wr_call_id wr, oo_kind = kind, oo_shared = wr_shared wr\<rparr>]"
  "rb_shared (writer_push io kind wr b) = rb_shared b"
  "rb_fresh (writer_push io kind wr b) = rb_fresh b"
  by (simp_all add: writer_push_def box_push_def box_poke_def)

lemma run_wops_closed:
  "sh_finished (rb_shared b (wr_shared wr)) \<Longrightarrow>
     rb_ops (fold (\<lambda>x b. snd (run_wop io wr x b)) xs b) = rb_ops b"
proof (induction xs arbitrary: b)
  case (Cons x xs)
  have "rb_ops (snd (run_wop io wr x b)) = rb_ops b"
    and "sh_finished (rb_shared (snd (run_wop io wr x b)) (wr_shared wr))"
    using Cons.prems
    by (cases x; simp add: writer_write_def writer_finish_def writer_set_backpressure_def
        writer_closed_def upd_shared_def Let_def)+
  with Cons.IH show ?case by simp
qed simp

lemma run_wops_ops:
  "\<not> writer_closed wr b \<Longrightarrow>
     rb_ops (fold (\<lambda>x b. snd (run_wop io wr x b)) xs b) = rb_ops b @ map (wr_op wr) (upto_finish xs)"
proof (induction xs arbitrary: b)
  case (Cons x xs)
  show ?case
  proof (cases x)
    case (WFinish st)
    let ?b = "snd (writer_finish io st wr b)"
    have "sh_finished (rb_shared ?b (wr_shared wr))" and "rb_ops ?b = rb_ops b @ [wr_op wr x]"
      using Cons.prems WFinish
      by (simp_all add: writer_finish_def writer_closed_def upd_shared_def wr_op_def wop_kind_def Let_def)
    with WFinish run_wops_closed show ?thesis by simp
  qed (use Cons in \<open>simp_all add: writer_write_def writer_set_backpressure_def writer_closed_def
         wr_op_def wop_kind_def\<close>)
qed simp


section \<open>Tokens\<close>

definition tokens :: "'n loop \<Rightarrow> nat list" where
  "tokens lp = map sl_token (lp_conns lp)"

definition loop_inv :: "'n loop \<Rightarrow> bool" where
  "loop_inv lp \<longleftrightarrow> distinct (tokens lp) \<and> (\<forall>t \<in> set (tokens lp). t < lp_next_token lp)"

text \<open>What a phase of the round may do to the table of connections.\<close>

definition token_step :: "'n loop \<Rightarrow> 'n loop \<Rightarrow> bool" where
  "token_step lp lp' \<longleftrightarrow> (loop_inv lp \<longrightarrow> loop_inv lp') \<and> lp_next_token lp \<le> lp_next_token lp'
     \<and> (\<forall>t \<in> set (tokens lp'). t \<in> set (tokens lp) \<or> lp_next_token lp \<le> t)"

lemma token_step_refl: "token_step lp lp"
  by (simp add: token_step_def)

lemma token_step_trans: "token_step a b \<Longrightarrow> token_step b c \<Longrightarrow> token_step a c"
  unfolding token_step_def by (meson le_trans)

lemma token_step_filter:
  assumes "map sl_token sls = map sl_token (filter P (lp_conns lp))"
  shows "token_step lp (lp\<lparr>lp_conns := sls\<rparr>)"
proof -
  have "set (map sl_token (filter P (lp_conns lp))) \<subseteq> set (map sl_token (lp_conns lp))" by auto
  with assms distinct_map_filter [of sl_token "lp_conns lp" P] show ?thesis
    unfolding token_step_def loop_inv_def tokens_def by (simp del: set_map) blast
qed

lemma token_step_same:
  "map sl_token sls = map sl_token (lp_conns lp) \<Longrightarrow> token_step lp (lp\<lparr>lp_conns := sls\<rparr>)"
  using token_step_filter [where P = "\<lambda>_. True"] by simp

lemma accept_loop_tokens: "accept_loop al paths accs k lp = (k', lp') \<Longrightarrow> token_step lp lp'"
proof (induction accs arbitrary: k lp)
  case Nil
  then show ?case by (simp add: token_step_refl)
next
  case (Cons x rest)
  obtain acc created net where x: "x = (acc, created, net)" by (cases x) auto
  have new: "token_step lp (lp\<lparr>lp_conns := lp_conns lp @ [\<lparr>sl_token = lp_next_token lp, sl_conn = cn,
      sl_net = net, sl_dead = False\<rparr>], lp_next_token := Suc (lp_next_token lp)\<rparr>)" for cn
    by (auto simp: token_step_def loop_inv_def tokens_def less_Suc_eq)
  show ?case
    using Cons.prems Cons.IH token_step_trans [OF new Cons.IH] token_step_refl
    by (auto simp: x split: sum.splits option.splits prod.splits)
qed

definition slot_id :: "'n slot \<Rightarrow> nat \<times> int" where
  "slot_id sl = (sl_token sl, cn_fd (sl_conn sl))"

lemma tick_slot_id: "slot_id (fst (tick_slot ops H e re sl b)) = slot_id sl"
  by (auto simp: slot_id_def tick_slot_def rust_tick_read_def tick_write_def Let_def
      split: prod.splits if_splits sum.splits option.splits)

lemma tick_slots_ids: "map slot_id (fst (tick_slots ops H e res sls b)) = map slot_id sls"
proof (induction ops H e res sls b rule: tick_slots.induct)
  case (1 ops H e re res sl sls b)
  obtain sl1 b1 where t: "tick_slot ops H e re sl b = (sl1, b1)" by fastforce
  have "slot_id sl1 = slot_id sl" using tick_slot_id [of ops H e re sl b] t by simp
  with 1 [OF t [symmetric] refl] t show ?case by (simp add: split_beta)
qed auto

lemma apply_op_ids: "map slot_id (fst (apply_op ops al oo sb)) = map slot_id (fst sb)"
  by (cases sb) (auto simp: apply_op_def slot_id_def Let_def map_upd_first split: option.splits prod.splits sum.splits)

lemma apply_ops_ids: "map slot_id (fst (apply_ops ops al sls b)) = map slot_id sls"
proof -
  have "map slot_id (fst (fold (apply_op ops al) oos sb)) = map slot_id (fst sb)" for oos sb
    by (induction oos arbitrary: sb) (simp_all add: apply_op_ids)
  then show ?thesis by (simp add: apply_ops_def split_beta)
qed

lemma flush_slot_id: "slot_id (flush_slot ops e sl) = slot_id sl"
  by (auto simp: slot_id_def flush_slot_def tick_write_def Let_def split: prod.splits)

text \<open>A round accepts, works on the connections without adding or losing one, and reaps.\<close>

lemma serve_round_phases:
  assumes "serve_round ops H paths ev lp k b = (r, lp', k', b')"
  shows "lp' = lp \<and> k' = k \<or>
    (\<exists>k1 lp1 sls. (if ev_listener ev then accept_loop (env_alloc (ev_env ev)) paths (ev_accepts ev) k lp
         else (k, lp)) = (k1, lp1)
      \<and> map slot_id sls = map slot_id (lp_conns lp1)
      \<and> lp' = lp1\<lparr>lp_conns := filter (\<lambda>sl. \<not> sl_dead sl) sls\<rparr>
      \<and> k' = fold (\<lambda>sl k. connection_drop (sl_conn sl) k) (filter sl_dead sls) k1)"
proof (cases "ev_poll ev")
  case (Inl e)
  with assms show ?thesis by (auto simp: serve_round_def split: if_splits)
next
  case (Inr u)
  let ?e = "ev_env ev"
  obtain k1 lp1 where a: "(if ev_listener ev then accept_loop (env_alloc ?e) paths (ev_accepts ev) k lp
      else (k, lp)) = (k1, lp1)" by fastforce
  let ?b = "if ev_wakeup ev then drain_wakeup b else b"
  obtain s2 b2 where t: "tick_slots ops H ?e (take (length (lp_conns lp)) (ev_revents ev)) (lp_conns lp1) ?b
      = (s2, b2)" by fastforce
  obtain s3 b3 where o: "apply_ops ops (env_alloc ?e) s2 b2 = (s3, b3)" by fastforce
  let ?s4 = "map (flush_slot ops ?e) s3"
  have "lp' = lp1\<lparr>lp_conns := filter (\<lambda>sl. \<not> sl_dead sl) ?s4\<rparr>"
    and "k' = fold (\<lambda>sl k. connection_drop (sl_conn sl) k) (filter sl_dead ?s4) k1"
    using assms Inr a t o by (simp_all add: serve_round_def Let_def reap_def split: if_splits prod.splits)
  moreover have "map slot_id ?s4 = map slot_id (lp_conns lp1)"
    using tick_slots_ids [of ops H ?e _ "lp_conns lp1" ?b] apply_ops_ids [of ops "env_alloc ?e" s2 b2] t o
    by (simp add: flush_slot_id comp_def) (metis fst_conv)
  ultimately show ?thesis using a by blast
qed

lemma map_slot_id: 
  assumes "map slot_id sls = map slot_id sls'"
  shows "map sl_token sls = map sl_token sls'"
    and "map (\<lambda>sl. cn_fd (sl_conn sl)) sls = map (\<lambda>sl. cn_fd (sl_conn sl)) sls'"
  using arg_cong [OF assms, of "map fst"] arg_cong [OF assms, of "map snd"]
  by (simp_all add: slot_id_def comp_def)

lemma serve_round_tokens:
  assumes "serve_round ops H paths ev lp k b = (r, lp', k', b')"
  shows "token_step lp lp'"
  using serve_round_phases [OF assms]
proof (elim disjE exE conjE)
  fix k1 lp1 sls
  assume a: "(if ev_listener ev then accept_loop (env_alloc (ev_env ev)) paths (ev_accepts ev) k lp
      else (k, lp)) = (k1, lp1)" and ids: "map slot_id sls = map slot_id (lp_conns lp1)"
    and lp': "lp' = lp1\<lparr>lp_conns := filter (\<lambda>sl. \<not> sl_dead sl) sls\<rparr>"
  have 1: "token_step lp lp1" using a accept_loop_tokens token_step_refl by (auto split: if_splits)
  have 2: "token_step lp1 (lp1\<lparr>lp_conns := sls\<rparr>)" using map_slot_id(1) [OF ids] by (rule token_step_same)
  have 3: "token_step (lp1\<lparr>lp_conns := sls\<rparr>) lp'"
    using token_step_filter [where lp = "lp1\<lparr>lp_conns := sls\<rparr>" and P = "\<lambda>sl. \<not> sl_dead sl"]
    by (simp add: lp')
  from token_step_trans [OF token_step_trans [OF 1 2] 3] show ?thesis .
qed (simp add: token_step_refl)

lemma apply_op_absent:
  assumes "oo_token oo \<notin> set (map sl_token sls)"
  shows "apply_op ops al oo (sls, b) = (sls, upd_shared (oo_shared oo) (\<lambda>s. s\<lparr>sh_dead := True\<rparr>) b)"
proof -
  have "find (owns_op oo) sls = None" using assms by (force simp: find_None_iff owns_op_def)
  then show ?thesis by (simp add: apply_op_def)
qed


section \<open>Descriptors\<close>

definition slot_fds :: "'n slot list \<Rightarrow> int multiset" where
  "slot_fds sls = mset (map (\<lambda>sl. cn_fd (sl_conn sl)) sls)"

text \<open>The open descriptors are those of the process before, \<open>K\<close>, and the connections'.\<close>

definition fds_inv :: "int multiset \<Rightarrow> bytes list \<Rightarrow> 'n loop \<Rightarrow> kernel \<Rightarrow> bool" where
  "fds_inv K U lp k \<longleftrightarrow> mset (k_open k) = K + slot_fds (lp_conns lp) \<and> k_unlinked k = U"

text \<open>Accepts during which no session creation fails.\<close>

definition clean_accepts :: "((int + int) \<times> (conn_error + 'n conn) \<times> net) list \<Rightarrow> bool" where
  "clean_accepts accs \<longleftrightarrow> list_all (\<lambda>(acc, created, _). isl acc \<or> \<not> isl created) accs"

lemma connection_drop_mset:
  "cn_fd cn \<in># mset (k_open k) \<Longrightarrow> add_mset (cn_fd cn) (mset (k_open (connection_drop cn k))) = mset (k_open k)"
  "k_unlinked (connection_drop cn k) = k_unlinked k"
  by (simp_all add: connection_drop_def close_fd_def)

lemma drop_slots:
  "mset (k_open k) = K + slot_fds sls \<Longrightarrow>
     mset (k_open (fold (\<lambda>sl k. connection_drop (sl_conn sl) k) sls k)) = K
     \<and> k_unlinked (fold (\<lambda>sl k. connection_drop (sl_conn sl) k) sls k) = k_unlinked k"
proof (induction sls arbitrary: k)
  case (Cons sl sls)
  let ?k = "connection_drop (sl_conn sl) k"
  have "add_mset (cn_fd (sl_conn sl)) (mset (k_open ?k)) = mset (k_open k)"
    using Cons.prems by (intro connection_drop_mset(1)) (simp add: slot_fds_def)
  then have "mset (k_open ?k) = K + slot_fds sls" using Cons.prems by (simp add: slot_fds_def)
  from Cons.IH [OF this] show ?case by (simp add: connection_drop_mset(2))
qed (simp add: slot_fds_def)

lemma accept_loop_fds:
  "clean_accepts accs \<Longrightarrow> fds_inv K U lp k \<Longrightarrow> accept_loop al paths accs k lp = (k', lp') \<Longrightarrow> fds_inv K U lp' k'"
proof (induction accs arbitrary: k lp)
  case (Cons x accs)
  obtain acc created net where x: "x = (acc, created, net)" by (cases x) auto
  show ?case
  proof (cases acc)
    case (Inl e)
    then show ?thesis using Cons.prems x by (auto simp: listener_accept_def split: if_splits)
  next
    case (Inr fd)
    then obtain c where c: "created = Inr c"
      using Cons.prems(1) x by (cases created) (auto simp: clean_accepts_def)
    let ?k = "k\<lparr>k_open := fd # k_open k\<rparr>" and ?cn = "\<lparr>cn_fd = fd, cn_conn = set_fd fd c\<rparr>"
    have acc: "listener_accept acc created k = (Inr (Some ?cn), ?k)"
      using Inr c by (simp add: listener_accept_def)
    have clean: "clean_accepts accs" using Cons.prems(1) by (simp add: clean_accepts_def)
    have "connection_drop ?cn ?k = k" by (simp add: connection_drop_def close_fd_def)
    obtain r c' where reg: "register_entries al 0 paths (set_fd fd c) = (r, c')" by fastforce
    show ?thesis
    proof (cases r)
      case (Inl e)
      then show ?thesis
        using Cons.IH [OF clean Cons.prems(2)] Cons.prems(3) acc x reg \<open>connection_drop ?cn ?k = k\<close> by simp
    next
      case (Inr u)
      let ?lp = "lp\<lparr>lp_conns := lp_conns lp @ [\<lparr>sl_token = lp_next_token lp, sl_conn = ?cn\<lparr>cn_conn := c'\<rparr>,
          sl_net = net, sl_dead = False\<rparr>], lp_next_token := lp_next_token lp + 1\<rparr>"
      have "fds_inv K U ?lp ?k" using Cons.prems(2) by (simp add: fds_inv_def slot_fds_def)
      from Cons.IH [OF clean this] show ?thesis using Cons.prems(3) acc x reg Inr by simp
    qed
  qed
qed simp

lemma serve_round_fds:
  assumes "serve_round ops H paths ev lp k b = (r, lp', k', b')" and "clean_accepts (ev_accepts ev)"
    and "fds_inv K U lp k"
  shows "fds_inv K U lp' k'"
  using serve_round_phases [OF assms(1)]
proof (elim disjE exE conjE)
  fix k1 lp1 sls
  assume a: "(if ev_listener ev then accept_loop (env_alloc (ev_env ev)) paths (ev_accepts ev) k lp
      else (k, lp)) = (k1, lp1)" and ids: "map slot_id sls = map slot_id (lp_conns lp1)"
    and lp': "lp' = lp1\<lparr>lp_conns := filter (\<lambda>sl. \<not> sl_dead sl) sls\<rparr>"
    and k': "k' = fold (\<lambda>sl k. connection_drop (sl_conn sl) k) (filter sl_dead sls) k1"
  have 1: "fds_inv K U lp1 k1" using a accept_loop_fds [OF assms(2,3)] assms(3) by (auto split: if_splits)
  have "slot_fds (lp_conns lp1) = slot_fds sls" using map_slot_id(2) [OF ids] by (simp add: slot_fds_def)
  also have "\<dots> = slot_fds (filter (\<lambda>sl. \<not> sl_dead sl) sls) + slot_fds (filter sl_dead sls)"
    by (induction sls) (simp_all add: slot_fds_def)
  finally have "mset (k_open k1) = (K + slot_fds (filter (\<lambda>sl. \<not> sl_dead sl) sls)) + slot_fds (filter sl_dead sls)"
    using 1 by (simp add: fds_inv_def)
  from drop_slots [OF this] 1 show ?thesis by (simp add: fds_inv_def lp' k')
qed (use assms(3) in simp)

lemma serve_loop_returns:
  assumes "True \<in> set (map fst evs)" and "list_all (\<lambda>(_, ev). clean_accepts (ev_accepts ev)) evs"
    and "fds_inv K U lp k"
  shows "\<exists>r lp' k' b'. serve_loop ops H paths evs lp k b = Some (r, lp', k', b') \<and> fds_inv K U lp' k'"
  using assms
proof (induction evs arbitrary: lp k b)
  case (Cons x evs)
  obtain shutdown ev where x: "x = (shutdown, ev)" by fastforce
  obtain r lp1 k1 b1 where r: "serve_round ops H paths ev lp k b = (r, lp1, k1, b1)" by (metis prod_cases4)
  have "fds_inv K U lp1 k1" using serve_round_fds [OF r _ Cons.prems(3)] Cons.prems(2) x by simp
  with Cons.IH [of lp1 k1 b1] Cons.prems r x show ?case by (cases r) (auto split: round_result.splits)
qed simp

section \<open>Dispatch and unary calls\<close>

text \<open>On the connection, the pass is the core's dispatch with the trampoline as handler.\<close>

lemma dispatch_stream_count: "snd (dispatch_stream ops H i (n, c)) = snd (dispatch_stream ops H i (m, c))"
  by (simp add: dispatch_stream_def Let_def split: sum.splits option.splits prod.splits)

lemma rust_dispatch_conn:
  "fst (rust_dispatch ops H token now c b) = snd (dispatch ops (rust_handlers now) c)"
proof -
  have "fst (fold (\<lambda>i (c, b). (snd (dispatch_stream ops (rust_handlers now) i (0, c)),
        call_trampoline H token now c (streams c ! i) b)) is (c, b))
      = snd (fold (dispatch_stream ops (rust_handlers now)) is (n, c))" for "is" c b n
  proof (induction "is" arbitrary: c b n)
    case (Cons i "is")
    obtain n' c' where d: "dispatch_stream ops (rust_handlers now) i (n, c) = (n', c')" by fastforce
    then have "snd (dispatch_stream ops (rust_handlers now) i (0, c)) = c'"
      using dispatch_stream_count [of ops "rust_handlers now" i 0 c n] by simp
    with Cons.IH [where c = c' and n = n'] d show ?case by simp
  qed simp
  then show ?thesis by (simp add: rust_dispatch_def dispatch_def)
qed

lemma rust_tick_read_core:
  "(case rust_tick_read ops H token e cn w b of (r, cn', w', _) \<Rightarrow> (r, cn', w'))
     = tick_read ops (rust_handlers (env_now e)) e cn w"
proof -
  obtain r c w1 where d: "drain_reads ops (expire_deadlines ops (env_now e) (cn_conn cn)) w = (r, c, w1)"
    by (metis prod_cases3)
  show ?thesis
    using rust_dispatch_conn [of ops H token "env_now e" c b] d
    by (auto simp: rust_tick_read_def tick_read_def Let_def split: sum.splits option.splits prod.splits)
qed

definition unary_ops :: "status + bytes \<Rightarrow> wop list" where
  "unary_ops ans = (case ans of Inr resp \<Rightarrow> [WWrite resp, WFinish status_ok] | Inl st \<Rightarrow> [WFinish st])"

lemma trampoline_unary:
  assumes "\<And>wr. H entry req wr = UnaryAnswer ans"
  shows "rb_ops (snd (trampoline H token now remaining call_id req entry b))
    = rb_ops b @ map (\<lambda>x. \<lparr>oo_token = token, oo_call_id = call_id, oo_kind = wop_kind x,
                          oo_shared = rb_fresh b\<rparr>) (unary_ops ans)"
  using assms
  by (cases ans) (auto simp: trampoline_def unary_ops_def writer_write_owned_def writer_finish_def
      writer_closed_def shared_default_def upd_shared_def wop_kind_def status_ok_def Let_def)

definition open_call :: "nat \<Rightarrow> int \<Rightarrow> 'n slot list \<Rightarrow> stream_ctx option" where
  "open_call token i sls =
     Option.bind (find (\<lambda>sl. sl_token sl = token \<and> \<not> sl_dead sl) sls)
       (\<lambda>sl. find_stream (cn_conn (sl_conn sl)) i)"

lemma apply_op_open_call:
  assumes "open_call (oo_token oo) (oo_call_id oo) sls = Some s"
    and "\<And>c. find_stream c (oo_call_id oo) = Some s \<Longrightarrow>
           find_stream (snd (run_op ops al oo c)) (oo_call_id oo) = Some s'"
  shows "open_call (oo_token oo) (oo_call_id oo) (fst (apply_op ops al oo (sls, b))) = Some s'"
proof -
  have owns: "owns_op oo = (\<lambda>sl. sl_token sl = oo_token oo \<and> \<not> sl_dead sl)"
    by (simp add: fun_eq_iff owns_op_def)
  obtain sl where sl: "find (owns_op oo) sls = Some sl"
    and s: "find_stream (cn_conn (sl_conn sl)) (oo_call_id oo) = Some s"
    using assms(1) by (auto simp: open_call_def owns split: bind_splits)
  let ?f = "\<lambda>x. x\<lparr>sl_conn := (sl_conn x)\<lparr>cn_conn := snd (run_op ops al oo (cn_conn (sl_conn sl)))\<rparr>\<rparr>"
  have "find (owns_op oo) (upd_first (owns_op oo) ?f sls) = Some (?f sl)"
    using find_Some_mem [OF sl] by (intro find_upd_first_same [OF sl, of ?f]) (simp add: owns_op_def)
  moreover have "fst (apply_op ops al oo (sls, b)) = upd_first (owns_op oo) ?f sls"
    using sl by (simp add: apply_op_def split_beta Let_def split: sum.splits)
  ultimately show ?thesis using assms(2) [OF s] by (simp add: open_call_def owns)
qed

definition queued :: "bytes \<Rightarrow> out_queue \<Rightarrow> out_queue" where
  "queued m q = q\<lparr>messages := messages q
     @ [\<lparr>om_hdr = encode_header False (of_nat (length m)), om_body = m\<rparr>]\<rparr>"

abbreviation sent_op :: "nat \<Rightarrow> int \<Rightarrow> nat \<Rightarrow> wop \<Rightarrow> out_op" where
  "sent_op token i sh x \<equiv> \<lparr>oo_token = token, oo_call_id = i, oo_kind = wop_kind x, oo_shared = sh\<rparr>"

definition shown :: "status \<Rightarrow> bytes option" where
  "shown st = (case st_message st of Some m \<Rightarrow> if m \<noteq> [] then Some m else None | None \<Rightarrow> None)"

lemma apply_finish:
  assumes "open_call token i sls = Some s"
  shows "open_call token i (fst (apply_op ops al_all (sent_op token i sh (WFinish st)) (sls, b)))
    = Some (s\<lparr>sc_out := finish_queue (st_code st) (shown st) (sc_out s)\<rparr>)"
proof -
  have "find_stream (snd (run_op ops al_all (sent_op token i sh (WFinish st)) c)) i
      = Some (s\<lparr>sc_out := finish_queue (st_code st) (shown st) (sc_out s)\<rparr>)"
    if "find_stream c i = Some s" for c
    using finish_call_found [OF that, of ops "st_code st"]
    by (cases "st_message st") (simp_all add: run_op_def wop_kind_def shown_def)
  with apply_op_open_call [of "sent_op token i sh (WFinish st)" sls s ops al_all] assms show ?thesis by simp
qed

lemma apply_write:
  assumes "open_call token i sls = Some s" and "\<not> finished (sc_out s)"
    and "oq_backpressure (sc_out s) = Unbounded" and "length m < 2 ^ 32"
  shows "open_call token i (fst (apply_op ops al_all (sent_op token i sh (WWrite m)) (sls, b)))
    = Some (s\<lparr>sc_out := queued m (sc_out s)\<rparr>)"
proof -
  have "find_stream (snd (run_op ops al_all (sent_op token i sh (WWrite m)) c)) i
      = Some (s\<lparr>sc_out := queued m (sc_out s)\<rparr>)" if "find_stream c i = Some s" for c
    using write_found(2) [OF that assms(2-4), of ops] by (simp add: run_op_def wop_kind_def queued_def)
  with apply_op_open_call [of "sent_op token i sh (WWrite m)" sls s ops al_all] assms(1) show ?thesis by simp
qed

lemma apply_unary:
  assumes "\<And>wr. H entry req wr = UnaryAnswer ans" and "rb_ops b = []"
  shows "\<exists>b1. apply_ops ops al sls (snd (trampoline H token now remaining i req entry b))
    = fold (apply_op ops al) (map (sent_op token i (rb_fresh b)) (unary_ops ans)) (sls, b1)"
  using trampoline_unary [of H entry req ans, OF assms(1)] assms(2)
  by (auto simp: apply_ops_def box_take_def)

lemma unary_refused:
  assumes "rb_ops b = []" and "open_call token i sls = Some s"
    and "\<And>wr. H entry req wr = UnaryAnswer (Inl st)"
  shows "open_call token i (fst (apply_ops ops al_all sls
          (snd (trampoline H token now remaining i req entry b))))
    = Some (s\<lparr>sc_out := finish_queue (st_code st) (shown st) (sc_out s)\<rparr>)"
proof -
  obtain b1 where "apply_ops ops al_all sls (snd (trampoline H token now remaining i req entry b))
      = fold (apply_op ops al_all) (map (sent_op token i (rb_fresh b)) (unary_ops (Inl st))) (sls, b1)"
    using apply_unary [of H entry req, OF assms(3,1)] by blast
  with apply_finish [OF assms(2)] show ?thesis by (simp add: unary_ops_def)
qed

lemma unary_answered:
  assumes "rb_ops b = []" and "open_call token i sls = Some s" and "\<not> finished (sc_out s)"
    and "oq_backpressure (sc_out s) = Unbounded"
    and "\<And>wr. H entry req wr = UnaryAnswer (Inr resp)" and "length resp < 2 ^ 32"
  shows "open_call token i (fst (apply_ops ops al_all sls
          (snd (trampoline H token now remaining i req entry b))))
    = Some (s\<lparr>sc_out := finish_queue Ok None (queued resp (sc_out s))\<rparr>)"
proof -
  obtain b1 where take: "apply_ops ops al_all sls (snd (trampoline H token now remaining i req entry b))
      = fold (apply_op ops al_all) (map (sent_op token i (rb_fresh b)) (unary_ops (Inr resp))) (sls, b1)"
    using apply_unary [of H entry req, OF assms(5,1)] by blast
  obtain sls1 b2 where a: "apply_op ops al_all (sent_op token i (rb_fresh b) (WWrite resp)) (sls, b1) = (sls1, b2)"
    by fastforce
  have "open_call token i sls1 = Some (s\<lparr>sc_out := queued resp (sc_out s)\<rparr>)"
    using apply_write [OF assms(2-4,6), where ops = ops and sh = "rb_fresh b" and b = b1] a by simp
  from apply_finish [OF this, where ops = ops and sh = "rb_fresh b" and st = status_ok and b = b2] take a show ?thesis
    by (simp add: unary_ops_def status_ok_def shown_def)
qed

section \<open>Properties\<close>





text \<open>
  C9. The framework keeps the unary contract whatever the handler answers: for a call whose
  stream is open on a live connection, running the handler through the trampoline and then
  applying the mailbox finishes the call, with exactly one message, the handler's, and \<open>OK\<close> if
  it answered one, and with no message and the handler's status code otherwise.
\<close>

theorem unary_contract:
  assumes "rb_ops b = []" and "open_call token i sls = Some s" and "\<not> finished (sc_out s)"
    and "oq_backpressure (sc_out s) = Unbounded"
    and "\<And>wr. H entry req wr = UnaryAnswer ans" and "\<And>resp. ans = Inr resp \<Longrightarrow> length resp < 2 ^ 32"
  shows "\<exists>s'. open_call token i (fst (apply_ops ops al_all sls
          (snd (trampoline H token now remaining i req entry b)))) = Some s'
    \<and> finished (sc_out s')
    \<and> (case ans of
         Inr resp \<Rightarrow> map om_body (messages (sc_out s')) = map om_body (messages (sc_out s)) @ [resp]
           \<and> final_status (sc_out s') = Ok
       | Inl st \<Rightarrow> messages (sc_out s') = messages (sc_out s) \<and> final_status (sc_out s') = st_code st)"
proof (cases ans)
  case (Inl st)
  then show ?thesis
    using unary_refused [OF assms(1,2), of H entry req st ops now remaining] assms(5)
      finish_queue_open [OF assms(3)] by simp
next
  case (Inr resp)
  then show ?thesis
    using unary_answered [OF assms(1-4), of H entry req resp ops now remaining] assms(5,6)
      finish_queue_open [of "queued resp (sc_out s)"] assms(3) by (simp add: queued_def)
qed

theorem unary_contract_witness:
  "let cn = \<lparr>cn_fd = 5, cn_conn = demo_conn [demo_stream 1 None]\<rparr>;
       sls = [\<lparr>sl_token = 1, sl_conn = cn, sl_net = \<lparr>net_sends = [], net_reads = [], net_wire = [], net_emitted = []\<rparr>, sl_dead = False\<rparr>];
       b = \<lparr>rb_ops = [], rb_signal = 0, rb_shared = (\<lambda>_. shared_default), rb_fresh = 0\<rparr>
   in \<exists>s'. open_call 1 1 (fst (apply_ops demo_ops al_all sls
        (snd (trampoline (\<lambda>_ req _. UnaryAnswer (Inr req)) 1 0 None 1 [4, 2] 0 b)))) = Some s'
      \<and> finished (sc_out s') \<and> final_status (sc_out s') = Ok"
proof -
  let ?sls = "[\<lparr>sl_token = 1, sl_conn = \<lparr>cn_fd = 5, cn_conn = demo_conn [demo_stream 1 None]\<rparr>,
                 sl_net = \<lparr>net_sends = [], net_reads = [], net_wire = [], net_emitted = []\<rparr>, sl_dead = False\<rparr>]"
  obtain s where s: "find_stream (demo_conn [demo_stream 1 None]) 1 = Some s" "\<not> finished (sc_out s)"
      "oq_backpressure (sc_out s) = Unbounded"
    by (simp add: demo_conn_def demo_stream_def find_stream_def oq_new_def)
  then have o: "open_call 1 1 ?sls = Some s" by (simp add: open_call_def)
  show ?thesis
    using unary_contract [of "\<lparr>rb_ops = [], rb_signal = 0, rb_shared = (\<lambda>_. shared_default), rb_fresh = 0\<rparr>",
      OF _ o s(2,3), where H = "\<lambda>_ req _. UnaryAnswer (Inr req)" and ans = "Inr [4, 2]" and req = "[4, 2]"
      and ops = demo_ops and now = 0 and remaining = None and entry = 0]
    by auto
qed



text \<open>
  The first finish wins on every clone: of any sequence of writes, policy changes and
  finishes issued through the writers of one open call, exactly those up to and including the
  first finish are queued, in order; everything after it is refused.
\<close>

lemma finish_first_wins:
  assumes "\<not> writer_closed wr b"
  shows "rb_ops (fold (\<lambda>x b. snd (run_wop io wr x b)) xs b) = rb_ops b @ map (wr_op wr) (upto_finish xs)"
  by (rule run_wops_ops [OF assms])

end
