(* ===== verification/Rust_Client.thy ===== *)
theory Rust_Client
  imports Client_Core Rust_Server
begin

unbundle bit_operations_syntax

text \<open>
  The blocking client of the Rust crate, \<open>rust/grpcuds/src/client.rs\<close>. It has the structure of
  the core client and differs in its error values (\<open>Status\<close> with a message), in measuring time
  with \<open>Instant\<close> (nanoseconds here), in remembering the close code of a stream, and in ending a
  unary call as soon as a message and a status are there. nghttp2 is the same parameter as in
  \<open>Client_Core\<close>; back-off and jitter, which the source repeats, are the
  definitions of \<open>Client_Codec\<close>.

  The library's rendering of paths and of \<open>io::Error\<close> appears as \<open>path_debug\<close> and
  \<open>io_display\<close>, prost's codecs as \<open>dec\<close> and \<open>enc\<close>.
\<close>

section \<open>Call state and callbacks\<close>

record rcall = call_state +
  cs_close_error :: nat

definition rcall_new :: rcall where
  "rcall_new =
     \<lparr>cs_req = [], cs_req_off = 0, cs_http_status = None, cs_grpc_status = None,
      cs_grpc_message = None, cs_inbuf = [], cs_messages = [], cs_closed = False,
      cs_close_error = 0\<rparr>"

definition rcall_reset :: "bytes \<Rightarrow> rcall \<Rightarrow> rcall" where
  "rcall_reset req st =
     st\<lparr>cs_req := req, cs_req_off := 0, cs_http_status := None, cs_grpc_status := None,
        cs_grpc_message := None, cs_inbuf := [], cs_messages := [], cs_closed := False,
        cs_close_error := 0\<rparr>"

definition rdeframe :: "rcall \<Rightarrow> rcall" where
  "rdeframe st =
     (let (inbuf, msgs) = deframe_loop al_all MAX_MESSAGE_LEN (cs_inbuf st) (cs_messages st)
      in st\<lparr>cs_inbuf := inbuf, cs_messages := msgs\<rparr>)"

text \<open>\<open>percent_decode\<close> of this file is a loop over an index, with a growing output.\<close>

function rpercent_loop :: "bytes \<Rightarrow> nat \<Rightarrow> bytes \<Rightarrow> bytes" where
  "rpercent_loop v i out =
     (if i < length v
      then if v ! i = 0x25 \<and> i + 2 < length v
           then case (to_digit16 (v ! (i + 1)), to_digit16 (v ! (i + 2))) of
                  (Some h, Some l) \<Rightarrow> rpercent_loop v (i + 3) (out @ [of_nat (h * 16 + l)])
                | _ \<Rightarrow> rpercent_loop v (i + 1) (out @ [v ! i])
           else rpercent_loop v (i + 1) (out @ [v ! i])
      else out)"
  by pat_completeness auto
termination by (relation "measure (\<lambda>(v, i, _). length v - i)") auto

declare rpercent_loop.simps [simp del]

definition rpercent_decode :: "bytes \<Rightarrow> bytes option" where
  "rpercent_decode v =
     (let out = rpercent_loop v 0 [] in if utf8_valid out then Some out else None)"

definition ron_header :: "bytes \<Rightarrow> bytes \<Rightarrow> rcall \<Rightarrow> rcall" where
  "ron_header n v st =
     (if n = ascii '':status'' then st\<lparr>cs_http_status := parse_u32 v\<rparr>
      else if n = ascii ''grpc-status'' then st\<lparr>cs_grpc_status := parse_i32 v\<rparr>
      else if n = ascii ''grpc-message'' then st\<lparr>cs_grpc_message := rpercent_decode v\<rparr>
      else st)"

definition ron_data :: "bytes \<Rightarrow> rcall \<Rightarrow> rcall" where
  "ron_data data st = rdeframe (st\<lparr>cs_inbuf := cs_inbuf st @ data\<rparr>)"

definition ron_close :: "nat \<Rightarrow> rcall \<Rightarrow> rcall" where
  "ron_close error_code st = st\<lparr>cs_closed := True, cs_close_error := error_code\<rparr>"

definition rdata_read :: "nat \<Rightarrow> rcall \<Rightarrow> bytes \<times> bool \<times> rcall" where
  "rdata_read len st =
     (let remaining = length (cs_req st) - cs_req_off st;
          n = min remaining len;
          (buf, st) = (if n > 0 then (take n (drop (cs_req_off st) (cs_req st)),
                                      st\<lparr>cs_req_off := cs_req_off st + n\<rparr>)
                       else ([], st))
      in (buf, cs_req_off st = length (cs_req st), st))"

fun run_rc_cb :: "'n cl_ops \<Rightarrow> 'n \<Rightarrow> cl_cb \<Rightarrow> rcall \<Rightarrow> cl_ret \<times> rcall" where
  "run_rc_cb ops n (ClHeader sid name value) st =
     (ClRc 0, if cl_user_data ops n sid then ron_header name value st else st)"
| "run_rc_cb ops n (ClData al sid data) st =
     (ClRc 0, if cl_user_data ops n sid then ron_data data st else st)"
| "run_rc_cb ops n (ClClose sid err) st =
     (ClRc 0, if cl_user_data ops n sid then ron_close err st else st)"
| "run_rc_cb ops n (ClRead len) st =
     (let (buf, eof, st) = rdata_read len st in (ClBytes buf eof, st))"

primrec run_rc :: "'n cl_ops \<Rightarrow> 'n cl_prog \<Rightarrow> rcall \<Rightarrow> int \<times> bytes \<times> 'n \<times> rcall" where
  "run_rc ops (ClRet n rc out) = (\<lambda>st. (rc, out, n, st))"
| "run_rc ops (ClCall cb n k) = (\<lambda>st. let (r, st) = run_rc_cb ops n cb st in run_rc ops (k r) st)"

section \<open>Connection\<close>

record 'n rclient =
  rc_fd :: int
  rc_session :: 'n
  rc_state :: rcall
  rc_timeout :: "nat option"
  rc_deadline_at :: "nat option"
  rc_current_sid :: int
  rc_path :: bytes
  rc_broken :: bool

text \<open>\<open>Write::write_all\<close> on the socket.\<close>

function rwrite_all :: "bytes \<Rightarrow> net \<Rightarrow> (std_error + unit) \<times> net" where
  "rwrite_all data w =
     (if data = [] then (Inr (), w)
      else case sys_send data w of
             (Inl e, w1) \<Rightarrow> if e = EINTR then rwrite_all data w1 else (Inl (OsError e), w1)
           | (Inr n, w1) \<Rightarrow> if n = 0 then (Inl IoWriteZero, w1) else rwrite_all (drop n data) w1)"
  by pat_completeness auto
termination
  by (relation "measure (\<lambda>(_, w). length (net_sends w))")
     (auto dest!: sys_send_Inl(5) [OF sym] sys_send_Inr(3) [OF sym] simp: EINTR_def EAGAIN_def)

declare rwrite_all.simps [simp del]

lemma rwrite_all_core:
  "write_all data w = (case rwrite_all data w of (r, w') \<Rightarrow> (map_sum (\<lambda>_. ()) id r, w'))"
proof (induction data w rule: rwrite_all.induct)
  case (1 data w)
  then show ?case
    by (auto simp: write_all.simps [of data w] rwrite_all.simps [of data w] split: sum.splits prod.splits)
qed

lemma rwrite_all_sends:
  "rwrite_all data w = (Inr u, w') \<Longrightarrow> data \<noteq> [] \<Longrightarrow> length (net_sends w') < length (net_sends w)"
  using write_all_sends [of data w "Inr ()" w'] by (simp add: rwrite_all_core)

function rflush_send ::
    "'n cl_ops \<Rightarrow> 'n rclient \<Rightarrow> net \<Rightarrow> (std_error + unit) \<times> 'n rclient \<times> net" where
  "rflush_send ops c w =
     (case run_rc ops (cl_mem_send ops (rc_session c)) (rc_state c) of
        (n, p, sess, st) \<Rightarrow>
          if n \<le> 0 \<or> p = [] then (Inr (), c\<lparr>rc_session := sess, rc_state := st\<rparr>, w)
          else case rwrite_all (take (nat n) p) w of
                 (Inl e, w1) \<Rightarrow> (Inl e, c\<lparr>rc_session := sess, rc_state := st\<rparr>, w1)
               | (Inr _, w1) \<Rightarrow> rflush_send ops (c\<lparr>rc_session := sess, rc_state := st\<rparr>) w1)"
  by pat_completeness auto
termination
  by (relation "measure (\<lambda>(_, _, w). length (net_sends w))") (auto dest!: rwrite_all_sends [OF sym])

declare rflush_send.simps [simp del]

section \<open>Connecting\<close>

definition CONNECT_ATTEMPT_TIMEOUT_MS :: int where "CONNECT_ATTEMPT_TIMEOUT_MS = 250"

text \<open>
  What one connection attempt meets: the answers of \<open>socket\<close>, \<open>connect\<close>, \<open>poll\<close> (given its
  timeout), \<open>take_error\<close> and \<open>set_nonblocking\<close>, and of nghttp2.
\<close>

record 'n rconnect_env =
  rx_socket :: "int + int"
  rx_connect :: "int + unit"
  rx_poll :: "int \<Rightarrow> int"
  rx_take_error :: "int + int option"
  rx_set_blocking :: "int + unit"
  rx_callbacks :: int
  rx_session :: "int \<times> 'n option"

definition connect_bounded :: "'n rconnect_env \<Rightarrow> bytes \<Rightarrow> kernel \<Rightarrow> (std_error + int) \<times> kernel" where
  "connect_bounded env path k =
     (if path = [] \<or> length path > SUN_PATH_LEN - 1 then (Inl IoInvalidInput, k)
      else case rx_socket env of
        Inl e \<Rightarrow> (Inl (OsError e), k)
      | Inr fd \<Rightarrow>
          let k = k\<lparr>k_open := fd # k_open k\<rparr>;
              established = (case rx_connect env of
                 Inr _ \<Rightarrow> Inr ()
               | Inl e \<Rightarrow>
                   if e \<noteq> EINPROGRESS then Inl (OsError e)
                   else if rx_poll env CONNECT_ATTEMPT_TIMEOUT_MS \<noteq> 1 then Inl IoTimedOut
                   else (case rx_take_error env of
                           Inl e \<Rightarrow> Inl (OsError e)
                         | Inr (Some e) \<Rightarrow> Inl (OsError e)
                         | Inr None \<Rightarrow> Inr ()))
          in (case established of
                Inl e \<Rightarrow> (Inl e, close_fd fd k)
              | Inr _ \<Rightarrow> (case rx_set_blocking env of
                            Inl e \<Rightarrow> (Inl (OsError e), close_fd fd k)
                          | Inr _ \<Rightarrow> (Inr fd, k))))"

text \<open>Dropping a client deletes the session and closes the socket it owns.\<close>

definition rclient_drop :: "'n rclient \<Rightarrow> kernel \<Rightarrow> kernel" where
  "rclient_drop c k = close_fd (rc_fd c) k"

definition rconnect ::
    "'n cl_ops \<Rightarrow> 'n rconnect_env \<Rightarrow> bytes \<Rightarrow> kernel \<Rightarrow> net
       \<Rightarrow> (rust_error + 'n rclient) \<times> kernel \<times> net" where
  "rconnect ops env path k w =
     (case connect_bounded env path k of
        (Inl e, k) \<Rightarrow> (Inl (ConnectFailed path e), k, w)
      | (Inr fd, k) \<Rightarrow>
          if rx_callbacks env \<noteq> 0 then (Inl SessionFailed, close_fd fd k, w)
          else (case rx_session env of
             (rc, None) \<Rightarrow> (Inl SessionFailed, close_fd fd k, w)
           | (rc, Some n) \<Rightarrow>
               if rc \<noteq> 0 then (Inl SessionFailed, close_fd fd k, w)
               else let (n, rc) = cl_submit_settings ops n
                    in if rc \<noteq> 0 then (Inl SessionFailed, close_fd fd k, w)
                       else let client = \<lparr>rc_fd = fd, rc_session = n, rc_state = rcall_new,
                                          rc_timeout = None, rc_deadline_at = None,
                                          rc_current_sid = 0, rc_path = path, rc_broken = False\<rparr>
                            in (case rflush_send ops client w of
                                  (Inl e, client, w) \<Rightarrow> (Inl (IoFailed e), rclient_drop client k, w)
                                | (Inr _, client, w) \<Rightarrow> (Inr client, k, w))))"

text \<open>
  \<open>connect_wait\<close>, with the answers of the attempts and of the clock after each as in the core
  client; naps are in nanoseconds.
\<close>

partial_function (option) rconnect_retry ::
    "(nat \<Rightarrow> rust_error + 'c) \<Rightarrow> (nat \<Rightarrow> nat) \<Rightarrow> nat \<Rightarrow> nat \<Rightarrow> nat \<Rightarrow> 64 word
       \<Rightarrow> ((rust_error + 'c) \<times> nat list) option" where
  "rconnect_retry attempt clock deadline i backoff rng =
     (case attempt i of
        Inr client \<Rightarrow> Some (Inr client, [])
      | Inl err \<Rightarrow>
          let remaining = deadline - clock i
          in if remaining = 0 then Some (Inl err, [])
             else let rng = xorshift64 rng;
                      nap = min (apply_jitter backoff (unat rng) * 1000000) remaining
                  in Option.bind
                       (rconnect_retry attempt clock deadline (Suc i) (next_backoff_ms backoff) rng)
                       (\<lambda>(r, naps). Some (r, nap # naps)))"

definition rconnect_wait ::
    "(nat \<Rightarrow> rust_error + 'c) \<Rightarrow> (nat \<Rightarrow> nat) \<Rightarrow> nat \<Rightarrow> nat option \<Rightarrow> 32 word \<Rightarrow> nat
       \<Rightarrow> ((rust_error + 'c) \<times> nat list) option" where
  "rconnect_wait attempt clock start subsec_nanos pid timeout =
     (let deadline = start + timeout;
          seed = (case subsec_nanos of Some n \<Rightarrow> n | None \<Rightarrow> 1);
          rng = push_bit 17 (of_nat seed) XOR (ucast pid OR 1)
      in rconnect_retry attempt clock deadline 0 CONNECT_BACKOFF_INITIAL_MS rng)"

section \<open>Calls\<close>

text \<open>The clock has nanoseconds; \<open>as_millis\<close> rounds down.\<close>

definition as_millis :: "nat \<Rightarrow> nat" where
  "as_millis d = d div 1000000"

definition rtimeout_value :: "nat \<Rightarrow> bytes" where
  "rtimeout_value t = dec_bytes (max 1 (min (as_millis t) (2 ^ 32 - 1))) @ [0x6D]"

definition rrequest_headers :: "bytes \<Rightarrow> nat option \<Rightarrow> nv list" where
  "rrequest_headers path timeout =
     [client_nv (ascii '':method'') (ascii ''POST''),
      client_nv (ascii '':scheme'') (ascii ''http''),
      client_nv (ascii '':path'') path,
      client_nv (ascii '':authority'') (ascii ''localhost''),
      client_nv (ascii ''te'') (ascii ''trailers''),
      client_nv (ascii ''content-type'') (ascii ''application/grpc'')]
     @ (case timeout of None \<Rightarrow> []
        | Some t \<Rightarrow> [client_nv (ascii ''grpc-timeout'') (rtimeout_value t)])"

text \<open>The parts of the library the error texts use.\<close>

record texts =
  path_debug :: "bytes \<Rightarrow> bytes"
  io_display :: "std_error \<Rightarrow> bytes"

definition rreconnect_once ::
    "texts \<Rightarrow> 'n cl_ops \<Rightarrow> 'n rconnect_env \<Rightarrow> net \<Rightarrow> 'n rclient \<Rightarrow> kernel \<Rightarrow> net
       \<Rightarrow> (status + unit) \<times> 'n rclient \<times> kernel \<times> net" where
  "rreconnect_once tx ops env w2 c k w =
     (case rconnect ops env (rc_path c) k w2 of
        (Inl e, k, _) \<Rightarrow>
          (Inl (status_new Unavailable (error_display (path_debug tx) (io_display tx) e)), c, k, w)
      | (Inr fresh, k, w2) \<Rightarrow>
          (Inr (), fresh\<lparr>rc_timeout := rc_timeout c\<rparr>, rclient_drop c k, w2))"

definition rsubmit_on ::
    "texts \<Rightarrow> 'n cl_ops \<Rightarrow> nat \<Rightarrow> bytes \<Rightarrow> bytes \<Rightarrow> 'n rclient \<Rightarrow> net
       \<Rightarrow> (status + int) \<times> 'n rclient \<times> net" where
  "rsubmit_on tx ops now path request c w =
     (let framed = encode_header False (of_nat (length request)) @ request;
          c = c\<lparr>rc_state := rcall_reset framed (rc_state c)\<rparr>;
          (n, sid) = cl_submit_request ops (rc_session c) (rrequest_headers path (rc_timeout c));
          c = c\<lparr>rc_session := n\<rparr>
      in if sid \<le> 0 then (Inl (status_new Internal (ascii ''nghttp2 submit_request failed'')), c, w)
         else let c = c\<lparr>rc_current_sid := sid,
                        rc_deadline_at := map_option (\<lambda>t. now + t) (rc_timeout c)\<rparr>
              in (case rflush_send ops c w of
                    (Inl e, c, w) \<Rightarrow>
                      (Inl (status_new Unavailable (io_display tx e)), c\<lparr>rc_broken := True\<rparr>, w)
                  | (Inr _, c, w) \<Rightarrow> (Inr sid, c, w)))"

definition rsubmit ::
    "texts \<Rightarrow> 'n cl_ops \<Rightarrow> 'n rconnect_env \<Rightarrow> net \<Rightarrow> nat \<Rightarrow> bytes \<Rightarrow> bytes
       \<Rightarrow> 'n rclient \<Rightarrow> kernel \<Rightarrow> net
       \<Rightarrow> (status + int) \<times> 'n rclient \<times> kernel \<times> net" where
  "rsubmit tx ops env w2 now path request c k w =
     (let (r, c, k, w) = (if rc_broken c then rreconnect_once tx ops env w2 c k w
                          else (Inr (), c, k, w))
      in (case r of
            Inl e \<Rightarrow> (Inl e, c, k, w)
          | Inr _ \<Rightarrow> (case rsubmit_on tx ops now path request c w of (r, c, w) \<Rightarrow> (r, c, k, w))))"

definition rset_timeout :: "nat option \<Rightarrow> 'n rclient \<Rightarrow> 'n rclient" where
  "rset_timeout timeout c = c\<lparr>rc_timeout := timeout\<rparr>"

definition rexpire_call :: "'n cl_ops \<Rightarrow> 'n rclient \<Rightarrow> net \<Rightarrow> 'n rclient \<times> net" where
  "rexpire_call ops c w =
     (let c = c\<lparr>rc_state := (rc_state c)
                  \<lparr>cs_grpc_status := Some (status_code DeadlineExceeded),
                   cs_grpc_message := Some (ascii ''deadline exceeded (client-side)''),
                   cs_closed := True\<rparr>,
                rc_deadline_at := None\<rparr>
      in if rc_current_sid c > 0
         then let c = c\<lparr>rc_session := cl_submit_rst ops (rc_session c) (rc_current_sid c) 8\<rparr>
              in snd (rflush_send ops c w)
         else (c, w))"

text \<open>One round of \<open>pump\<close>: the clock, and the answer of \<open>poll\<close> to the timeout it is given.\<close>

record rpump_env =
  rp_now :: nat
  rp_poll :: "nat \<Rightarrow> int + nat"

definition rmark_dead :: "'n rclient \<Rightarrow> 'n rclient" where
  "rmark_dead c = c\<lparr>rc_state := (rc_state c)\<lparr>cs_closed := True\<rparr>, rc_broken := True\<rparr>"

definition rpump_read ::
    "texts \<Rightarrow> 'n cl_ops \<Rightarrow> 'n rclient \<Rightarrow> net \<Rightarrow> (status + unit) \<times> 'n rclient \<times> net" where
  "rpump_read tx ops c w =
     (case sys_read (16 * 1024) w of
        (Inr bs, w) \<Rightarrow>
          if bs = [] then (Inr (), rmark_dead c, w)
          else (case run_rc ops (cl_mem_recv ops (rc_session c) bs) (rc_state c) of
                  (rc, _, n, st) \<Rightarrow>
                    let c = c\<lparr>rc_session := n, rc_state := st\<rparr>
                    in if rc < 0
                       then (Inl (status_new Internal (ascii ''nghttp2 mem_recv failed'')),
                             c\<lparr>rc_broken := True\<rparr>, w)
                       else (Inr (), c, w))
      | (Inl e, w) \<Rightarrow>
          if e = EINTR then (Inr (), c, w)
          else (Inl (status_new Unavailable (io_display tx (OsError e))), rmark_dead c, w))"

definition rpump ::
    "texts \<Rightarrow> 'n cl_ops \<Rightarrow> rpump_env \<Rightarrow> 'n rclient \<Rightarrow> net \<Rightarrow> (status + unit) \<times> 'n rclient \<times> net" where
  "rpump tx ops pe c w =
     (case rflush_send ops c w of
        (Inl e, c, w) \<Rightarrow>
          (Inl (status_new Unavailable (io_display tx e)), c\<lparr>rc_broken := True\<rparr>, w)
      | (Inr _, c, w) \<Rightarrow>
          (case rc_deadline_at c of
             None \<Rightarrow> rpump_read tx ops c w
           | Some deadline \<Rightarrow>
               let remaining = deadline - rp_now pe
               in if remaining = 0 then (Inr (), rexpire_call ops c w)
                  else (case rp_poll pe (min (as_millis remaining) (2 ^ 31 - 1)) of
                          Inr rc \<Rightarrow> if rc = 0 then (Inr (), rexpire_call ops c w)
                                    else rpump_read tx ops c w
                        | Inl e \<Rightarrow>
                            if e = EINTR then (Inr (), c, w)
                            else (Inl (status_new Unavailable (io_display tx (OsError e))),
                                  rmark_dead c, w))))"

definition debug_status :: "nat option \<Rightarrow> bytes" where
  "debug_status h = (case h of None \<Rightarrow> ascii ''None'' | Some n \<Rightarrow> ascii ''Some('' @ dec_bytes n @ ascii '')'')"

definition rfinal_status :: "'n rclient \<Rightarrow> status + unit" where
  "rfinal_status c =
     (let st = rc_state c
      in case cs_grpc_status st of
           Some code \<Rightarrow>
             if code = 0 then Inr () else Inl (from_wire_status code (cs_grpc_message st))
         | None \<Rightarrow>
             if cs_http_status st = Some 200 then Inr ()
             else Inl (status_new Unavailable
                    (ascii ''stream closed without grpc-status (http :status ''
                     @ debug_status (cs_http_status st) @ ascii '', nghttp2 err ''
                     @ dec_bytes (cs_close_error st) @ ascii '')'')))"

definition ris_idle :: "'n cl_ops \<Rightarrow> 'n rclient \<Rightarrow> bool" where
  "ris_idle ops c \<longleftrightarrow> \<not> cl_want_read ops (rc_session c) \<and> \<not> cl_want_write ops (rc_session c)"

definition unary_over :: "rcall \<Rightarrow> bool" where
  "unary_over st \<longleftrightarrow> cs_closed st \<or> (cs_messages st \<noteq> [] \<and> cs_grpc_status st \<noteq> None)"

fun runary_wait ::
    "texts \<Rightarrow> 'n cl_ops \<Rightarrow> rpump_env list \<Rightarrow> 'n rclient \<Rightarrow> net
       \<Rightarrow> ((status + unit) \<times> 'n rclient \<times> net) option" where
  "runary_wait tx ops pes c w =
     (if unary_over (rc_state c) then Some (Inr (), c, w)
      else case pes of
             [] \<Rightarrow> None
           | pe # pes \<Rightarrow>
               (case rpump tx ops pe c w of
                  (Inl e, c, w) \<Rightarrow> Some (Inl e, c, w)
                | (Inr _, c, w) \<Rightarrow> runary_wait tx ops pes c w))"

declare runary_wait.simps [simp del]

text \<open>What \<open>unary\<close> answers once the wait is over.\<close>

definition runary_answer :: "'n rclient \<Rightarrow> (status + bytes) \<times> 'n rclient" where
  "runary_answer c =
     (case rfinal_status c of
        Inl e \<Rightarrow> (Inl e, c)
      | Inr _ \<Rightarrow>
          (case cs_messages (rc_state c) of
             m # ms \<Rightarrow> (Inr m, c\<lparr>rc_state := (rc_state c)\<lparr>cs_messages := ms\<rparr>\<rparr>)
           | [] \<Rightarrow> (Inl (status_new Internal (ascii ''unary response had no message'')), c)))"

definition runary ::
    "texts \<Rightarrow> 'n cl_ops \<Rightarrow> 'n rconnect_env \<Rightarrow> net \<Rightarrow> nat \<Rightarrow> rpump_env list \<Rightarrow> bytes \<Rightarrow> bytes
       \<Rightarrow> 'n rclient \<Rightarrow> kernel \<Rightarrow> net
       \<Rightarrow> ((status + bytes) \<times> 'n rclient \<times> kernel \<times> net) option" where
  "runary tx ops env w2 now pes path request c k w =
     (case rsubmit tx ops env w2 now path request c k w of
        (Inl e, c, k, w) \<Rightarrow> Some (Inl e, c, k, w)
      | (Inr sid, c, k, w) \<Rightarrow>
          map_option (\<lambda>(r, c, w). (case r of
                Inl e \<Rightarrow> (Inl e, c, k, w)
              | Inr _ \<Rightarrow> (case runary_answer c of (r, c) \<Rightarrow> (r, c, k, w))))
            (runary_wait tx ops pes c w))"

definition rserver_streaming where
  "rserver_streaming = rsubmit"

fun rmessage ::
    "texts \<Rightarrow> 'n cl_ops \<Rightarrow> rpump_env list \<Rightarrow> 'n rclient \<Rightarrow> net
       \<Rightarrow> ((status + bytes option) \<times> 'n rclient \<times> net) option" where
  "rmessage tx ops pes c w =
     (case cs_messages (rc_state c) of
        m # ms \<Rightarrow> Some (Inr (Some m), c\<lparr>rc_state := (rc_state c)\<lparr>cs_messages := ms\<rparr>\<rparr>, w)
      | [] \<Rightarrow>
          if cs_closed (rc_state c) \<or> (ris_idle ops c \<and> cs_grpc_status (rc_state c) \<noteq> None)
          then Some (case rfinal_status c of Inl e \<Rightarrow> Inl e | Inr _ \<Rightarrow> Inr None, c, w)
          else (case pes of
                  [] \<Rightarrow> None
                | pe # pes \<Rightarrow>
                    (case rpump tx ops pe c w of
                       (Inl e, c, w) \<Rightarrow> Some (Inl e, c, w)
                     | (Inr _, c, w) \<Rightarrow> rmessage tx ops pes c w)))"

declare rmessage.simps [simp del]

section \<open>Typed calls\<close>

text \<open>\<open>dec\<close> is prost's decoder of the response type, with the text of its error.\<close>

definition decode_response :: "(bytes \<Rightarrow> bytes + 'm) \<Rightarrow> bytes \<Rightarrow> status + 'm" where
  "decode_response dec bs =
     (case dec bs of
        Inl e \<Rightarrow> Inl (status_new Internal (ascii ''decode response: '' @ e))
      | Inr m \<Rightarrow> Inr m)"

definition unary_msg ::
    "('q \<Rightarrow> bytes) \<Rightarrow> (bytes \<Rightarrow> bytes + 'm) \<Rightarrow> texts \<Rightarrow> 'n cl_ops \<Rightarrow> 'n rconnect_env \<Rightarrow> net \<Rightarrow> nat
       \<Rightarrow> rpump_env list \<Rightarrow> bytes \<Rightarrow> 'q \<Rightarrow> 'n rclient \<Rightarrow> kernel \<Rightarrow> net
       \<Rightarrow> ((status + 'm) \<times> 'n rclient \<times> kernel \<times> net) option" where
  "unary_msg enc dec tx ops env w2 now pes path req c k w =
     map_option (\<lambda>(r, rest). (case r of Inl e \<Rightarrow> Inl e | Inr bs \<Rightarrow> decode_response dec bs, rest))
       (runary tx ops env w2 now pes path (enc req) c k w)"

definition server_streaming_msg where
  "server_streaming_msg enc tx ops env w2 now path req = rserver_streaming tx ops env w2 now path (enc req)"

definition typed_message ::
    "(bytes \<Rightarrow> bytes + 'm) \<Rightarrow> texts \<Rightarrow> 'n cl_ops \<Rightarrow> rpump_env list \<Rightarrow> 'n rclient \<Rightarrow> net
       \<Rightarrow> ((status + 'm option) \<times> 'n rclient \<times> net) option" where
  "typed_message dec tx ops pes c w =
     map_option (\<lambda>(r, rest). (case r of
           Inl e \<Rightarrow> Inl e
         | Inr None \<Rightarrow> Inr None
         | Inr (Some bs) \<Rightarrow> map_sum id Some (decode_response dec bs), rest))
       (rmessage tx ops pes c w)"

section \<open>The two clients as one protocol machine\<close>

text \<open>Programs of nghttp2 during which the client's allocations succeed.\<close>

primrec roomy :: "'n cl_prog \<Rightarrow> bool" where
  "roomy (ClRet n rc out) \<longleftrightarrow> True"
| "roomy (ClCall cb n k) \<longleftrightarrow> (\<forall>al sid data. cb = ClData al sid data \<longrightarrow> al = al_all) \<and> (\<forall>r. roomy (k r))"

abbreviation core_state :: "rcall \<Rightarrow> call_state" where
  "core_state \<equiv> call_state.truncate"

lemma core_state_sel [simp]:
  "cs_req (core_state st) = cs_req st" "cs_req_off (core_state st) = cs_req_off st"
  "cs_http_status (core_state st) = cs_http_status st" "cs_grpc_status (core_state st) = cs_grpc_status st"
  "cs_grpc_message (core_state st) = cs_grpc_message st" "cs_inbuf (core_state st) = cs_inbuf st"
  "cs_messages (core_state st) = cs_messages st" "cs_closed (core_state st) = cs_closed st"
  by (simp_all add: call_state.defs)

text \<open>The loop decodes what the recursion of the core client decodes.\<close>

lemma percent_decode_bytes_drop:
  assumes "i < length v"
  shows "percent_decode_bytes (drop i v) =
    (if v ! i = 0x25 \<and> i + 2 < length v
     then case (to_digit16 (v ! (i + 1)), to_digit16 (v ! (i + 2))) of
            (Some h, Some l) \<Rightarrow> of_nat (h * 16 + l) # percent_decode_bytes (drop (i + 3) v)
          | _ \<Rightarrow> v ! i # percent_decode_bytes (drop (i + 1) v)
     else v ! i # percent_decode_bytes (drop (i + 1) v))"
proof (cases "i + 2 < length v")
  case True
  then have "drop i v = v ! i # v ! (i + 1) # v ! (i + 2) # drop (i + 3) v"
    and "drop (i + 1) v = v ! (i + 1) # v ! (i + 2) # drop (i + 3) v"
    by (simp_all add: Cons_nth_drop_Suc [symmetric] numeral_3_eq_3)
  with True show ?thesis by (simp split: option.splits)
next
  case False
  then consider "drop (i + 1) v = []" | c where "drop (i + 1) v = [c]"
    by (cases "drop (i + 1) v" rule: percent_decode_bytes.cases) (auto dest: arg_cong [where f = length])
  then show ?thesis using assms False by cases (simp_all add: Cons_nth_drop_Suc [symmetric])
qed

lemma rpercent_loop_core: "rpercent_loop v i out = out @ percent_decode_bytes (drop i v)"
proof (induction v i out rule: rpercent_loop.induct)
  case (1 v i out)
  then show ?case
    by (subst rpercent_loop.simps) (auto simp: percent_decode_bytes_drop split: option.splits)
qed

lemma rpercent_decode_core [simp]: "rpercent_decode = percent_decode"
  by (rule ext) (simp add: rpercent_decode_def percent_decode_def rpercent_loop_core)

lemma core_state_callbacks:
  "core_state (ron_header n v st) = cl_on_header n v (core_state st)"
  "core_state (ron_data data st) = cl_on_data al_all data (core_state st)"
  "core_state (ron_close err st) = cl_on_close (core_state st)"
  "rdata_read len st = (buf, eof, st') \<Longrightarrow> data_read len (core_state st) = (buf, eof, core_state st')"
  by (auto simp: ron_header_def cl_on_header_def ron_data_def cl_on_data_def rdeframe_def deframe_def
      ron_close_def cl_on_close_def rdata_read_def data_read_def call_state.defs Let_def
      split: prod.splits if_splits)

lemma run_rc_core:
  "roomy p \<Longrightarrow> run_rc ops p st = (rc, out, n, st') \<Longrightarrow> run_cl ops p (core_state st) = (rc, out, n, core_state st')"
proof (induction p arbitrary: st)
  case (ClCall cb n1 k)
  obtain r st1 where 1: "run_rc_cb ops n1 cb st = (r, st1)" by fastforce
  have "run_cl_cb ops n1 cb (core_state st) = (r, core_state st1)"
    using 1 ClCall.prems(1) core_state_callbacks(4) [of _ st]
    by (cases cb) (auto simp: core_state_callbacks(1-3) split: prod.splits)
  then show ?case using ClCall.IH [of "k r" st1] ClCall.prems 1 by simp
qed simp

interpretation rust_reader: frame_reader ron_data cs_messages "unat MAX_MESSAGE_LEN" "\<lambda>st. cs_inbuf st = []"
proof (standard, goal_cases)
  case (1 x y s)
  show ?case
    using deframe_append [of al_all MAX_MESSAGE_LEN "cs_inbuf s @ x" y "cs_messages s"]
    by (simp add: ron_data_def rdeframe_def split: prod.splits)
next
  case (2 s ps)
  then show ?case
    using core_reader.feed_frames [of "core_state s" ps] core_state_callbacks(2) [of "frames ps" s]
      core_state_sel(7) [of "ron_data (frames ps) s"] by simp
qed

lemma dec_bytes_fmt: "n < 10 ^ k \<Longrightarrow> 0 < k \<Longrightarrow> dec_bytes n = rev (fmt_digits k n)"
proof (induction k arbitrary: n)
  case (Suc k)
  show ?case
  proof (cases "n < 10")
    case False
    then have "0 < k" using Suc.prems(1) by (cases k) auto
    moreover have "n div 10 < 10 ^ k" using Suc.prems(1) by (simp add: less_mult_imp_div_less mult.commute)
    ultimately show ?thesis using False Suc.IH [of "n div 10"] by (simp add: dec_bytes.simps [of n])
  qed (simp add: dec_bytes.simps [of n])
qed simp

lemma rtimeout_value_fmt:
  assumes "1 \<le> ms" and "ms < 2 ^ 32"
  shows "rtimeout_value (ms * 1000000) = fmt_ms_value ms"
proof -
  have d: "dec_bytes ms = rev (fmt_digits 10 ms)" using dec_bytes_fmt [of ms 10] assms(2) by simp
  have "length (fmt_digits 10 ms) \<le> 10" using fmt_digits_length [of ms 10 10] assms(2) by simp
  then show ?thesis
    using assms d by (simp add: rtimeout_value_def fmt_ms_value_def as_millis_def)
qed

section \<open>Deadlines\<close>

definition rsame_call :: "'n rclient \<Rightarrow> 'n rclient \<Rightarrow> bool" where
  "rsame_call c c' \<longleftrightarrow> rc_fd c' = rc_fd c \<and> rc_timeout c' = rc_timeout c
     \<and> rc_current_sid c' = rc_current_sid c \<and> rc_path c' = rc_path c
     \<and> rc_deadline_at c' = rc_deadline_at c \<and> rc_broken c' = rc_broken c
     \<and> (cs_closed (rc_state c) \<longrightarrow> cs_closed (rc_state c'))"

lemma rsame_call_trans: "rsame_call a b \<Longrightarrow> rsame_call b c \<Longrightarrow> rsame_call a c"
  by (simp add: rsame_call_def)

lemma run_rc_closed: "cs_closed st \<Longrightarrow> run_rc ops p st = (rc, out, n, st') \<Longrightarrow> cs_closed st'"
proof (induction p arbitrary: st)
  case (ClCall cb n k)
  have "cs_closed (snd (run_rc_cb ops n cb st))"
    using ClCall.prems(1)
    by (cases cb) (auto simp: ron_header_def ron_data_def rdeframe_def ron_close_def rdata_read_def
        Let_def split: prod.splits)
  with ClCall show ?case by (auto split: prod.splits)
qed auto

lemma rflush_send_same: "rflush_send ops c w = (r, c', w') \<Longrightarrow> rsame_call c c'"
proof (induction ops c w arbitrary: r c' w' rule: rflush_send.induct)
  case (1 ops c w)
  obtain n p sess st where run: "run_rc ops (cl_mem_send ops (rc_session c)) (rc_state c) = (n, p, sess, st)"
    by (metis prod_cases4)
  have step: "rsame_call c (c\<lparr>rc_session := sess, rc_state := st\<rparr>)"
    using run_rc_closed [OF _ run] by (auto simp: rsame_call_def)
  obtain a w1 where wr: "rwrite_all (take (nat n) p) w = (a, w1)" by fastforce
  show ?case
    using "1.prems" "1.IH" [OF run [symmetric] refl refl _ wr [symmetric]] step run wr
    by (cases a) (auto simp: rflush_send.simps [of ops c w] split: if_splits intro: rsame_call_trans)
qed

lemma rexpire_call_closed:
  "rexpire_call ops c w = (c', w') \<Longrightarrow> cs_closed (rc_state c') \<and> rc_deadline_at c' = None"
proof -
  assume e: "rexpire_call ops c w = (c', w')"
  let ?c2 = "c\<lparr>rc_state := (rc_state c)\<lparr>cs_grpc_status := Some (status_code DeadlineExceeded),
     cs_grpc_message := Some (ascii ''deadline exceeded (client-side)''), cs_closed := True\<rparr>,
     rc_deadline_at := None, rc_session := cl_submit_rst ops (rc_session c) (rc_current_sid c) 8\<rparr>"
  have "rsame_call ?c2 (fst (snd (rflush_send ops ?c2 w)))"
    using rflush_send_same [of ops ?c2 w] by (metis prod.collapse)
  with e show ?thesis by (auto simp: rexpire_call_def rsame_call_def Let_def split: if_splits)
qed

lemma rpump_read_deadline:
  "rpump_read tx ops c w = (r, c', w') \<Longrightarrow> rc_deadline_at c' = rc_deadline_at c"
  by (auto simp: rpump_read_def rmark_dead_def Let_def split: sum.splits prod.splits if_splits)

lemma rpump_deadline:
  assumes "rc_deadline_at c = Some d" and "rpump tx ops pe c w = (Inr u, c', w')"
  shows "cs_closed (rc_state c') \<or> rc_deadline_at c' = Some d \<and> rp_now pe < d"
proof -
  obtain r c1 w1 where f: "rflush_send ops c w = (r, c1, w1)" by (metis prod_cases3)
  have "rc_deadline_at c1 = Some d" using rflush_send_same [OF f] assms(1) by (simp add: rsame_call_def)
  with f assms(2) show ?thesis
    using rexpire_call_closed [of ops c1 w1 c' w'] rpump_read_deadline [of tx ops c1 w1 _ c' w']
    by (auto simp: rpump_def Let_def rmark_dead_def split: sum.splits if_splits)
qed

definition rpump_round ::
    "texts \<Rightarrow> 'n cl_ops \<Rightarrow> rpump_env \<Rightarrow> 'n rclient \<times> net \<Rightarrow> (status + unit) \<times> 'n rclient \<times> net" where
  "rpump_round tx ops pe s = rpump tx ops pe (fst s) (snd s)"

interpretation rust_unary: deadline_wait "rpump_round tx ops" rp_now "\<lambda>s. rc_deadline_at (fst s)"
  "\<lambda>s. unary_over (rc_state (fst s))" "\<lambda>pes s. runary_wait tx ops pes (fst s) (snd s)"
proof (standard, goal_cases)
  case (1 s es)
  then show ?case by (simp add: runary_wait.simps)
next
  case (2 s e x s' es)
  then show ?case
    by (cases s, cases s') (simp add: runary_wait.simps [of tx ops "e # es"] rpump_round_def)
next
  case (3 s e u s' es)
  then show ?case
    by (cases s, cases s') (simp add: runary_wait.simps [of tx ops "e # es"] rpump_round_def)
next
  case (4 s d e u s')
  then show ?case
    using rpump_deadline [of "fst s" d tx ops e "snd s" u "fst s'" "snd s'"]
    by (auto simp: rpump_round_def unary_over_def)
qed

interpretation rust_stream: deadline_wait "rpump_round tx ops" rp_now "\<lambda>s. rc_deadline_at (fst s)"
  "\<lambda>s. cs_messages (rc_state (fst s)) \<noteq> [] \<or> cs_closed (rc_state (fst s))
     \<or> ris_idle ops (fst s) \<and> cs_grpc_status (rc_state (fst s)) \<noteq> None"
  "\<lambda>pes s. rmessage tx ops pes (fst s) (snd s)"
proof (standard, goal_cases)
  case (1 s es)
  then show ?case by (auto simp: rmessage.simps [of tx ops es] split: list.splits)
next
  case (2 s e x s' es)
  then show ?case
    by (cases s, cases s') (auto simp: rmessage.simps [of tx ops "e # es"] rpump_round_def)
next
  case (3 s e u s' es)
  then show ?case
    by (cases s, cases s') (auto simp: rmessage.simps [of tx ops "e # es"] rpump_round_def)
next
  case (4 s d e u s')
  then show ?case
    using rpump_deadline [of "fst s" d tx ops e "snd s" u "fst s'" "snd s'"] by (auto simp: rpump_round_def)
qed

section \<open>Descriptors\<close>

lemma connect_bounded_kernel:
  "connect_bounded env path k = (r, k') \<Longrightarrow>
     (case r of Inl _ \<Rightarrow> k' = k | Inr fd \<Rightarrow> k' = k\<lparr>k_open := fd # k_open k\<rparr>)"
  by (auto simp: connect_bounded_def Let_def close_open split: if_splits sum.splits option.splits)

lemma rconnect_kernel:
  "case rconnect ops env path k w of (r, k', _) \<Rightarrow>
     (case r of
        Inl _ \<Rightarrow> k' = k
      | Inr c \<Rightarrow> k' = k\<lparr>k_open := rc_fd c # k_open k\<rparr> \<and> rclient_drop c k' = k
          \<and> rc_path c = path \<and> rc_timeout c = None \<and> \<not> rc_broken c)"
proof -
  obtain r k1 where u: "connect_bounded env path k = (r, k1)" by fastforce
  show ?thesis
    using connect_bounded_kernel [OF u] u
    by (auto simp: rconnect_def Let_def rclient_drop_def close_open rsame_call_def
        dest!: rflush_send_same split: sum.splits prod.splits option.splits)
qed

section \<open>Verdicts\<close>

lemma rsubmit_error:
  "rsubmit tx ops env w2 now path req c k w = (Inl st, c', k', w') \<Longrightarrow> st_code st = Unavailable \<or> st_code st = Internal"
  by (auto simp: rsubmit_def rreconnect_once_def rsubmit_on_def status_new_def Let_def
      split: if_splits sum.splits prod.splits)

lemma rpump_error: "rpump tx ops pe c w = (Inl st, c', w') \<Longrightarrow> st_code st = Unavailable \<or> st_code st = Internal"
  by (auto simp: rpump_def rpump_read_def status_new_def Let_def
      split: if_splits sum.splits prod.splits option.splits)

lemma runary_wait_error:
  "runary_wait tx ops pes c w = Some (Inl st, c', w') \<Longrightarrow> st_code st = Unavailable \<or> st_code st = Internal"
proof (induction pes arbitrary: c w)
  case Nil
  then show ?case by (simp add: runary_wait.simps [of tx ops "[]"] split: if_splits)
next
  case (Cons pe pes)
  then show ?case
    by (auto simp: runary_wait.simps [of tx ops "pe # pes"] dest: rpump_error
        split: if_splits sum.splits prod.splits)
qed

lemma runary_answer_cases:
  assumes "runary_answer c = (r, c')"
  shows "case r of
      Inr m \<Rightarrow> cs_grpc_status (rc_state c') = Some 0
        \<or> cs_grpc_status (rc_state c') = None \<and> cs_http_status (rc_state c') = Some 200
    | Inl st \<Rightarrow> st_code st = Unavailable \<or> st_code st = Internal
        \<or> (\<exists>code. cs_grpc_status (rc_state c') = Some code \<and> code \<noteq> 0 \<and> st_code st = code_from_wire code)"
  using assms
  by (auto simp: runary_answer_def rfinal_status_def status_new_def from_wire_status_def Let_def
      split: option.splits if_splits list.splits sum.splits)

section \<open>A response cut in two\<close>

text \<open>
  nghttp2 reports header fields as it decodes them. Here a read ends inside the trailers of
  the first call, after \<open>grpc-status\<close>; the rest, with the close of stream 1, comes with the
  next read.
\<close>

definition split_ops :: "nat cl_ops" where
  "split_ops =
     \<lparr>cl_user_data = \<lambda>_ _. True, cl_submit_settings = \<lambda>n. (n, 0),
      cl_submit_request = \<lambda>n _. (n + 1, 2 * int n + 1), cl_submit_rst = \<lambda>n _ _. n,
      cl_mem_recv = \<lambda>n data.
        if data = [0]
        then ClCall (ClHeader 1 (ascii '':status'') (ascii ''200'')) n (\<lambda>_.
             ClCall (ClData al_all 1 (frame [7])) n (\<lambda>_.
             ClCall (ClHeader 1 (ascii ''grpc-status'') (ascii ''0'')) n (\<lambda>_. ClRet n 1 [])))
        else ClCall (ClClose 1 0) n (\<lambda>_. ClRet n 1 []),
      cl_mem_send = \<lambda>n. ClRet n 0 [], cl_want_read = \<lambda>_. True, cl_want_write = \<lambda>_. False\<rparr>"

definition split_client :: "nat option \<Rightarrow> nat rclient" where
  "split_client timeout =
     \<lparr>rc_fd = 5, rc_session = 0, rc_state = rcall_new, rc_timeout = timeout, rc_deadline_at = None,
      rc_current_sid = 0, rc_path = ascii ''/s'', rc_broken = False\<rparr>"

definition split_net :: net where
  "split_net = \<lparr>net_sends = [], net_reads = [RdData [0], RdData [1]], net_wire = [], net_emitted = []\<rparr>"

definition split_texts :: texts where
  "split_texts = \<lparr>path_debug = id, io_display = \<lambda>_. []\<rparr>"

definition split_env :: "nat rconnect_env" where
  "split_env =
     \<lparr>rx_socket = Inl 0, rx_connect = Inl 0, rx_poll = \<lambda>_. 0, rx_take_error = Inl 0,
      rx_set_blocking = Inl 0, rx_callbacks = 0, rx_session = (0, None)\<rparr>"

definition split_call :: "nat rclient \<Rightarrow> net \<Rightarrow> (status + bytes) \<times> nat rclient \<times> net" where
  "split_call c w =
     (case runary split_texts split_ops split_env split_net 0
             [\<lparr>rp_now = 0, rp_poll = \<lambda>_. Inr 1\<rparr>] (ascii ''/a/b'') [1] c \<lparr>k_open = [5], k_unlinked = []\<rparr> w of
        Some (r, c, _, w) \<Rightarrow> (r, c, w)
      | None \<Rightarrow> (Inr [], c, w))"

lemma ron_data_frame:
  "cs_inbuf st = [] \<Longrightarrow> cs_messages st = [] \<Longrightarrow> ron_data (frame [7]) st = st\<lparr>cs_messages := [[7]]\<rparr>"
  using deframe_frames [of MAX_MESSAGE_LEN al_all "[[7]]" "[]"]
  by (simp add: ron_data_def rdeframe_def frames_def MAX_MESSAGE_LEN_def al_all_def)

lemmas split_eval = split_call_def split_client_def split_net_def split_ops_def runary_def rsubmit_def
  rsubmit_on_def rflush_send.simps runary_wait.simps rpump_def rpump_read_def sys_read_def
  unary_over_def rcall_reset_def rcall_new_def ron_header_def ron_close_def runary_answer_def
  rfinal_status_def parse_u32_def parse_i32_def parse_digits_def is_ascii_digit_def

lemma split_first:
  "split_call (split_client None) split_net =
     (Inr [7], split_client None\<lparr>rc_session := 1, rc_current_sid := 1,
        rc_state := rcall_new\<lparr>cs_req := encode_header False 1 @ [1], cs_http_status := Some 200,
          cs_grpc_status := Some 0\<rparr>\<rparr>, split_net\<lparr>net_reads := [RdData [1]]\<rparr>)"
  by (simp add: split_eval ron_data_frame Let_def ascii_def)

lemma split_second:
  "\<exists>m. split_call (split_client None\<lparr>rc_session := 1, rc_current_sid := 1,
        rc_state := rcall_new\<lparr>cs_req := encode_header False 1 @ [1], cs_http_status := Some 200,
          cs_grpc_status := Some 0\<rparr>\<rparr>) (split_net\<lparr>net_reads := [RdData [1]]\<rparr>) =
     (Inl (status_new Unavailable m), split_client None\<lparr>rc_session := 2, rc_current_sid := 3,
        rc_state := rcall_new\<lparr>cs_req := encode_header False 1 @ [1], cs_closed := True\<rparr>\<rparr>,
      split_net\<lparr>net_reads := []\<rparr>)"
  by (simp add: split_eval Let_def) blast

section \<open>Properties\<close>

text \<open>
  C18. The Rust client and the core client are the same protocol machine: they send the same
  request headers for a timeout of a whole number of milliseconds, and whatever callbacks
  nghttp2 makes, both hand over the same bytes and end up with the same response state, apart
  from the close code that only the Rust client keeps.
\<close>

theorem clients_agree:
  assumes "roomy p" and "run_rc ops p st = (rc, out, n, st')"
    and "\<And>ms. timeout = Some ms \<Longrightarrow> 1 \<le> ms \<and> ms < 2 ^ 32"
  shows "run_cl ops p (core_state st) = (rc, out, n, core_state st')
    \<and> rrequest_headers path (map_option (\<lambda>ms. ms * 1000000) timeout) = request_headers path timeout"
  using run_rc_core [OF assms(1,2)] rtimeout_value_fmt assms(3)
  by (auto simp: rrequest_headers_def request_headers_def split: option.splits)

theorem clients_agree_witness:
  "let p = ClCall (ClData al_all 1 (frame [9])) () (\<lambda>_. ClRet () 0 []);
       ops = \<lparr>cl_user_data = \<lambda>_ _. True, cl_submit_settings = \<lambda>n. (n, 0), cl_submit_request = \<lambda>n _. (n, 1),
              cl_submit_rst = \<lambda>n _ _. n, cl_mem_recv = \<lambda>n _. p, cl_mem_send = \<lambda>n. ClRet n 0 [],
              cl_want_read = \<lambda>_. True, cl_want_write = \<lambda>_. False\<rparr>
   in run_cl ops p (core_state rcall_new) = (0, [], (), core_state (ron_data (frame [9]) rcall_new))
      \<and> rrequest_headers [] (Some 5000000) = request_headers [] (Some 5)"
proof -
  let ?p = "ClCall (ClData al_all 1 (frame [9])) () (\<lambda>_. ClRet () 0 [])"
  let ?ops = "\<lparr>cl_user_data = \<lambda>_ _. True, cl_submit_settings = \<lambda>n. (n, 0), cl_submit_request = \<lambda>n _. (n, 1),
      cl_submit_rst = \<lambda>n _ _. n, cl_mem_recv = \<lambda>n _. ?p, cl_mem_send = \<lambda>n. ClRet n 0 [],
      cl_want_read = \<lambda>_. True, cl_want_write = \<lambda>_. False\<rparr>"
  show ?thesis
    using clients_agree [of ?p ?ops rcall_new 0 "[]" "()" "ron_data (frame [9]) rcall_new" "Some 5" "[]"]
    by simp
qed

text \<open>
  A call with a timeout does not hang in the Rust client either: once a round of the wait
  sees the clock at or past the deadline, \<open>unary\<close> has returned, and so has every
  \<open>ServerStreaming::message\<close> of a stream submitted with that timeout.
\<close>

lemma rust_calls_return:
  assumes "rc_timeout c = Some t" and "pe \<in> set pes" and "now + t \<le> rp_now pe"
  shows "runary tx ops env w2 now pes path req c k w \<noteq> None
    \<and> (\<forall>sid c1 k1 w1. rserver_streaming tx ops env w2 now path req c k w = (Inr sid, c1, k1, w1) \<longrightarrow>
         rmessage tx ops pes c1 w1 \<noteq> None)"
proof -
  have armed: "rc_deadline_at c1 = Some (now + t)"
    if s: "rsubmit tx ops env w2 now path req c k w = (Inr sid, c1, k1, w1)" for sid c1 k1 w1
  proof -
    obtain c0 w0 where on: "rsubmit_on tx ops now path req c0 w0 = (Inr sid, c1, w1)"
      and t: "rc_timeout c0 = Some t"
      using s assms(1) by (auto simp: rsubmit_def rreconnect_once_def split: if_splits sum.splits prod.splits)
    from on t show ?thesis
      by (auto simp: rsubmit_on_def rsame_call_def Let_def dest!: rflush_send_same
          split: if_splits prod.splits sum.splits)
  qed
  have u: "runary_wait tx ops pes c1 w1 \<noteq> None" and m: "rmessage tx ops pes c1 w1 \<noteq> None"
    if "rsubmit tx ops env w2 now path req c k w = (Inr sid, c1, k1, w1)" for sid c1 k1 w1
    using rust_unary.wait_returns [of "(c1, w1)" "now + t" pe pes tx ops]
      rust_stream.wait_returns [of "(c1, w1)" "now + t" pe pes tx ops] armed [OF that] assms(2,3)
    by simp_all
  obtain r c1 k1 w1 where s: "rsubmit tx ops env w2 now path req c k w = (r, c1, k1, w1)"
    by (metis prod_cases4)
  have "runary tx ops env w2 now pes path req c k w \<noteq> None"
    using u [of _ c1 k1 w1] s by (cases r) (auto simp: runary_def)
  with m show ?thesis by (simp add: rserver_streaming_def)
qed




end
