(* ===== verification/Rust_Health.thy ===== *)
theory Rust_Health
  imports Ffi_Health Rust_Server
begin

text \<open>
  The health service of the Rust crate, \<open>rust/grpcuds/src/health.rs\<close>, with the prost-typed
  adapters of \<open>rust/grpcuds/src/server.rs\<close> it is registered through. The hash maps are maps;
  the mutex held over each operation makes it one step. Prost's codecs are parameters: \<open>dec\<close>
  decodes a request or gives the text of the error, \<open>enc\<close> encodes a response.
\<close>

section \<open>Typed adapters\<close>

definition decode_status :: "bytes \<Rightarrow> status" where
  "decode_status e = status_new Internal (ascii ''failed to decode request: '' @ e)"

definition add_unary_msg :: "(bytes \<Rightarrow> bytes + 'q) \<Rightarrow> ('p \<Rightarrow> bytes) \<Rightarrow> ('q \<Rightarrow> status + 'p) \<Rightarrow> bytes \<Rightarrow> status + bytes" where
  "add_unary_msg dec enc handler bs =
     (case dec bs of
        Inl e \<Rightarrow> Inl (decode_status e)
      | Inr req \<Rightarrow> map_sum id enc (handler req))"

text \<open>A streaming handler works on a state \<open>'s\<close>; \<open>send\<close> encodes and writes through the call's writer.\<close>

definition add_server_streaming_msg ::
    "(bytes \<Rightarrow> bytes + 'q) \<Rightarrow> ('q \<Rightarrow> writer \<Rightarrow> 's \<Rightarrow> status \<times> 's) \<Rightarrow> bytes \<Rightarrow> writer \<Rightarrow> 's \<Rightarrow> status \<times> 's" where
  "add_server_streaming_msg dec handler bs w s =
     (case dec bs of
        Inl e \<Rightarrow> (decode_status e, s)
      | Inr req \<Rightarrow> handler req w s)"

definition send_msg :: "('p \<Rightarrow> bytes) \<Rightarrow> bool \<Rightarrow> 'p \<Rightarrow> writer \<Rightarrow> rbox \<Rightarrow> bool \<times> rbox" where
  "send_msg enc io msg w b = writer_write_owned io (enc msg) w b"

text \<open>The other operations of a \<open>MessageWriter\<close> are those of the writer inside.\<close>

definition msg_finish :: "bool \<Rightarrow> status \<Rightarrow> writer \<Rightarrow> rbox \<Rightarrow> bool \<times> rbox" where
  "msg_finish io st w b = writer_finish io st w b"

definition msg_set_backpressure :: "bool \<Rightarrow> backpressure \<Rightarrow> writer \<Rightarrow> rbox \<Rightarrow> bool \<times> rbox" where
  "msg_set_backpressure io bp w b = writer_set_backpressure io bp w b"

section \<open>Registry\<close>

datatype serving_status = SUnknown | Serving | NotServing | ServiceUnknown

fun serving_wire :: "serving_status \<Rightarrow> int" where
  "serving_wire SUnknown = 0"
| "serving_wire Serving = 1"
| "serving_wire NotServing = 2"
| "serving_wire ServiceUnknown = 3"

record reporter =
  hr_statuses :: "bytes \<rightharpoonup> serving_status"
  hr_watchers :: "bytes \<rightharpoonup> writer list"

definition reporter_new :: reporter where
  "reporter_new = \<lparr>hr_statuses = [[] \<mapsto> Serving], hr_watchers = Map.empty\<rparr>"

text \<open>\<open>ws.retain(|w| w.send(&resp).is_ok())\<close>\<close>

fun retain_sent :: "(int \<Rightarrow> bytes) \<Rightarrow> bool \<Rightarrow> int \<Rightarrow> writer list \<Rightarrow> rbox \<Rightarrow> writer list \<times> rbox" where
  "retain_sent enc io resp [] b = ([], b)"
| "retain_sent enc io resp (w # ws) b =
     (case send_msg enc io resp w b of
        (ok, b) \<Rightarrow> (case retain_sent enc io resp ws b of
                      (ws, b) \<Rightarrow> (if ok then w # ws else ws, b)))"

definition reporter_set_status ::
    "(int \<Rightarrow> bytes) \<Rightarrow> bool \<Rightarrow> bytes \<Rightarrow> serving_status \<Rightarrow> reporter \<times> rbox \<Rightarrow> reporter \<times> rbox" where
  "reporter_set_status enc io service status s =
     (case s of (r, b) \<Rightarrow>
        let r = r\<lparr>hr_statuses := (hr_statuses r)(service \<mapsto> status)\<rparr>
        in (case hr_watchers r service of
              None \<Rightarrow> (r, b)
            | Some ws \<Rightarrow>
                (case retain_sent enc io (serving_wire status) ws b of
                   (ws, b) \<Rightarrow> (r\<lparr>hr_watchers := (hr_watchers r)(service \<mapsto> ws)\<rparr>, b))))"

definition reporter_check :: "reporter \<Rightarrow> bytes \<Rightarrow> serving_status option" where
  "reporter_check r service = hr_statuses r service"

definition reporter_watch ::
    "(int \<Rightarrow> bytes) \<Rightarrow> bool \<Rightarrow> bytes \<Rightarrow> writer \<Rightarrow> reporter \<times> rbox \<Rightarrow> reporter \<times> rbox" where
  "reporter_watch enc io service w s =
     (case s of (r, b) \<Rightarrow>
        let current = (case hr_statuses r service of Some st \<Rightarrow> st | None \<Rightarrow> ServiceUnknown);
            (sent, b) = send_msg enc io (serving_wire current) w b
        in if sent
           then (r\<lparr>hr_watchers := (hr_watchers r)(service \<mapsto>
                     (case hr_watchers r service of None \<Rightarrow> [] | Some ws \<Rightarrow> ws) @ [w])\<rparr>, b)
           else (r, b))"

section \<open>Service\<close>

definition health_check_handler ::
    "(bytes \<Rightarrow> bytes + bytes) \<Rightarrow> (int \<Rightarrow> bytes) \<Rightarrow> reporter \<Rightarrow> bytes \<Rightarrow> status + bytes" where
  "health_check_handler dec enc r =
     add_unary_msg dec enc
       (\<lambda>service. case reporter_check r service of
                    Some st \<Rightarrow> Inr (serving_wire st)
                  | None \<Rightarrow> Inl (status_new NotFound (ascii ''unknown service'')))"

definition health_watch_handler ::
    "(bytes \<Rightarrow> bytes + bytes) \<Rightarrow> (int \<Rightarrow> bytes) \<Rightarrow> bytes \<Rightarrow> writer \<Rightarrow> reporter \<times> rbox \<Rightarrow> status \<times> reporter \<times> rbox" where
  "health_watch_handler dec enc =
     add_server_streaming_msg dec
       (\<lambda>service w s. (status_ok, reporter_watch enc True service w s))"

definition add_health_service :: "builder \<Rightarrow> builder" where
  "add_health_service sb =
     builder_add (ascii ''/grpc.health.v1.Health/Watch'')
       (builder_add (ascii ''/grpc.health.v1.Health/Check'') sb)"

section \<open>Lemmas\<close>

lemma send_msg_sel [simp]:
  "fst (send_msg enc io m w b) \<longleftrightarrow> \<not> writer_closed w b"
  "rb_shared (snd (send_msg enc io m w b)) = rb_shared b"
  "rb_ops (snd (send_msg enc io m w b)) =
     rb_ops b @ (if writer_closed w b then [] else [wr_op w (WWrite (enc m))])"
  by (auto simp: send_msg_def writer_write_owned_def wr_op_def wop_kind_def)

lemma writer_closed_cong: "rb_shared b' = rb_shared b \<Longrightarrow> writer_closed w b' = writer_closed w b"
  by (simp add: writer_closed_def)

lemma retain_sent_eq:
  "\<exists>b'. retain_sent enc io resp ws b = (filter (\<lambda>w. \<not> writer_closed w b) ws, b')
     \<and> rb_shared b' = rb_shared b
     \<and> rb_ops b' = rb_ops b @ map (\<lambda>w. wr_op w (WWrite (enc resp))) (filter (\<lambda>w. \<not> writer_closed w b) ws)"
proof (induction ws arbitrary: b)
  case (Cons w ws)
  obtain ok b1 where 1: "send_msg enc io resp w b = (ok, b1)" by fastforce
  have s: "ok = (\<not> writer_closed w b)" "rb_shared b1 = rb_shared b"
    "rb_ops b1 = rb_ops b @ (if writer_closed w b then [] else [wr_op w (WWrite (enc resp))])"
    using send_msg_sel [of enc io resp w b] 1 by simp_all
  have "writer_closed v b1 = writer_closed v b" for v using s(2) by (rule writer_closed_cong)
  with Cons.IH [of b1] 1 s show ?case by auto
qed simp

definition watchers_of :: "reporter \<Rightarrow> bytes \<Rightarrow> writer list" where
  "watchers_of r k = (case hr_watchers r k of None \<Rightarrow> [] | Some ws \<Rightarrow> ws)"

lemma set_status_eq:
  "\<exists>r' b'. reporter_set_status enc io k st (r, b) = (r', b') \<and> rb_shared b' = rb_shared b
    \<and> rb_ops b' = rb_ops b @ map (\<lambda>w. wr_op w (WWrite (enc (serving_wire st))))
        (filter (\<lambda>w. \<not> writer_closed w b) (watchers_of r k))
    \<and> hr_statuses r' = (hr_statuses r)(k \<mapsto> st)
    \<and> hr_watchers r' = (case hr_watchers r k of None \<Rightarrow> hr_watchers r
        | Some ws \<Rightarrow> (hr_watchers r)(k \<mapsto> filter (\<lambda>w. \<not> writer_closed w b) ws))"
proof (cases "hr_watchers r k")
  case None
  then show ?thesis by (simp add: reporter_set_status_def watchers_of_def)
next
  case (Some vs)
  with retain_sent_eq [of enc io "serving_wire st" vs b] show ?thesis
    by (auto simp: reporter_set_status_def watchers_of_def)
qed

interpretation rust_registry: status_registry "\<lambda>s. reporter_check (fst s)" "reporter_set_status enc io"
  by standard (auto simp: reporter_check_def reporter_set_status_def Let_def split: option.splits prod.splits)

section \<open>What a watcher hears\<close>

text \<open>The operations queued for one call: its writers share one \<open>CallShared\<close>.\<close>

definition ops_for :: "writer \<Rightarrow> rbox \<Rightarrow> op_kind list" where
  "ops_for w b = map oo_kind (filter (\<lambda>oo. oo_shared oo = wr_shared w) (rb_ops b))"

text \<open>\<open>w\<close> is registered for \<open>svc\<close>, once, and for nothing else.\<close>

definition registered :: "bytes \<Rightarrow> writer \<Rightarrow> reporter \<Rightarrow> bool" where
  "registered svc w r \<longleftrightarrow>
     filter (\<lambda>v. wr_shared v = wr_shared w) (watchers_of r svc) = [w]
     \<and> (\<forall>k. k \<noteq> svc \<longrightarrow> filter (\<lambda>v. wr_shared v = wr_shared w) (watchers_of r k) = [])"

lemma set_status_registered:
  assumes "registered svc w r" and "\<not> writer_closed w b"
    and "reporter_set_status enc io k st (r, b) = (r', b')"
  shows "registered svc w r'" and "rb_shared b' = rb_shared b"
    and "ops_for w b' = ops_for w b @ (if k = svc then [WriteOp (enc (serving_wire st))] else [])"
proof -
  let ?open = "filter (\<lambda>w. \<not> writer_closed w b)"
  have e: "rb_shared b' = rb_shared b"
    "rb_ops b' = rb_ops b @ map (\<lambda>w. wr_op w (WWrite (enc (serving_wire st)))) (?open (watchers_of r k))"
    "hr_watchers r' = (case hr_watchers r k of None \<Rightarrow> hr_watchers r
        | Some ws \<Rightarrow> (hr_watchers r)(k \<mapsto> ?open ws))"
    using set_status_eq [of enc io k st r b] assms(3) by auto
  have ws: "watchers_of r' j = (if j = k then ?open (watchers_of r j) else watchers_of r j)" for j
    using e(3) by (auto simp: watchers_of_def split: option.splits)
  show "rb_shared b' = rb_shared b" by (rule e(1))
  have comm: "filter (\<lambda>v. wr_shared v = wr_shared w) (?open vs)
      = ?open (filter (\<lambda>v. wr_shared v = wr_shared w) vs)" for vs
    by (simp add: conj_commute)
  show "registered svc w r'"
    using assms(1,2) by (cases "svc = k") (auto simp: registered_def ws comm simp del: filter_filter)
  have "map oo_kind (filter (\<lambda>oo. oo_shared oo = wr_shared w) (map (\<lambda>v. wr_op v (WWrite m)) vs))
      = map (\<lambda>_. WriteOp m) (filter (\<lambda>v. wr_shared v = wr_shared w) vs)" for m vs
    by (induction vs) (simp_all add: wr_op_def wop_kind_def)
  then have "ops_for w b' = ops_for w b @ map (\<lambda>_. WriteOp (enc (serving_wire st)))
      (?open (filter (\<lambda>v. wr_shared v = wr_shared w) (watchers_of r k)))"
    by (simp add: ops_for_def e(2) comm del: filter_filter)
  with assms(1,2) show "ops_for w b' = ops_for w b @ (if k = svc then [WriteOp (enc (serving_wire st))] else [])"
    by (auto simp: registered_def simp del: filter_filter)
qed

lemma updates_registered:
  "registered svc w r \<Longrightarrow> \<not> writer_closed w b \<Longrightarrow>
     fold (\<lambda>(io, k, st). reporter_set_status enc io k st) kvs (r, b) = (r', b') \<Longrightarrow>
     ops_for w b' = ops_for w b @ map (\<lambda>(_, _, st). WriteOp (enc (serving_wire st))) (filter (\<lambda>(_, k, _). k = svc) kvs)"
proof (induction kvs arbitrary: r b)
  case (Cons kv kvs)
  obtain io k st where kv: "kv = (io, k, st)" by (metis prod_cases3)
  obtain r1 b1 where 1: "reporter_set_status enc io k st (r, b) = (r1, b1)" by fastforce
  note s = set_status_registered [OF Cons.prems(1,2) 1]
  have "\<not> writer_closed w b1" using Cons.prems(2) writer_closed_cong [OF s(2)] by simp
  with Cons.IH [OF s(1), of b1] Cons.prems(3) s(3) 1 kv show ?case by auto
qed simp

lemma watch_registers:
  assumes "\<And>k. filter (\<lambda>v. wr_shared v = wr_shared w) (watchers_of r k) = []" and "\<not> writer_closed w b"
    and "reporter_watch enc io svc w (r, b) = (r', b')"
  shows "registered svc w r'" and "rb_shared b' = rb_shared b"
    and "ops_for w b' = ops_for w b @ [WriteOp (enc (serving_wire
           (case reporter_check r svc of Some st \<Rightarrow> st | None \<Rightarrow> ServiceUnknown)))]"
proof -
  let ?m = "serving_wire (case hr_statuses r svc of Some st \<Rightarrow> st | None \<Rightarrow> ServiceUnknown)"
  have s: "fst (send_msg enc io ?m w b)" "rb_shared (snd (send_msg enc io ?m w b)) = rb_shared b"
    "rb_ops (snd (send_msg enc io ?m w b)) = rb_ops b @ [wr_op w (WWrite (enc ?m))]"
    using assms(2) by simp_all
  have r: "r' = r\<lparr>hr_watchers := (hr_watchers r)(svc \<mapsto> watchers_of r svc @ [w])\<rparr>"
      "b' = snd (send_msg enc io ?m w b)"
    using assms(2,3) s(1) by (simp_all add: reporter_watch_def watchers_of_def split_beta Let_def)
  then show "registered svc w r'"
    using assms(1) by (simp add: registered_def) (simp add: watchers_of_def)
  show "rb_shared b' = rb_shared b" using r(2) s(2) by simp
  show "ops_for w b' = ops_for w b @ [WriteOp (enc (serving_wire
           (case reporter_check r svc of Some st \<Rightarrow> st | None \<Rightarrow> ServiceUnknown)))]"
    using r(2) s(3) by (simp add: ops_for_def wr_op_def wop_kind_def reporter_check_def)
qed

section \<open>Properties\<close>

text \<open>
  What the Rust \<open>Check\<close> answers after any sequence of status changes: the status set last
  for the service, or else the one it had before; \<open>NOT_FOUND\<close> for a service without any, and
  \<open>INTERNAL\<close> for a request that does not decode.
\<close>

lemma rust_check_verdict:
  "health_check_handler dec enc (fst (fold (\<lambda>(k, st). reporter_set_status enc io k st) kvs s)) bs =
     (case dec bs of
        Inl e \<Rightarrow> Inl (status_new Internal (ascii ''failed to decode request: '' @ e))
      | Inr service \<Rightarrow>
          (case (case map_of (rev kvs) service of None \<Rightarrow> reporter_check (fst s) service | Some st \<Rightarrow> Some st) of
             Some st \<Rightarrow> Inr (enc (serving_wire st))
           | None \<Rightarrow> Inl (status_new NotFound (ascii ''unknown service''))))"
  using rust_registry.lookup_updates [where enc = enc and io = io and kvs = kvs and h = s]
  by (simp add: health_check_handler_def add_unary_msg_def decode_status_def split: sum.splits option.splits)

text \<open>
  C23. A watcher hears everything in order: from the moment an open call is registered with
  \<open>Watch\<close>, what is queued for it is the service's status at that moment (\<open>SERVICE_UNKNOWN\<close> if it
  has none), then every status set for that service, once each and in the order it was set,
  however many services and other watchers there are.
\<close>

theorem watch_hears_every_change:
  assumes "\<And>k. filter (\<lambda>v. wr_shared v = wr_shared w) (watchers_of r k) = []" and "\<not> writer_closed w b"
    and "reporter_watch enc io svc w (r, b) = (r1, b1)"
    and "fold (\<lambda>(io, k, st). reporter_set_status enc io k st) updates (r1, b1) = (r2, b2)"
  shows "ops_for w b2 = ops_for w b
    @ map (\<lambda>st. WriteOp (enc (serving_wire st)))
        ((case reporter_check r svc of Some st \<Rightarrow> st | None \<Rightarrow> ServiceUnknown)
         # map (\<lambda>(_, _, st). st) (filter (\<lambda>(_, k, _). k = svc) updates))"
proof -
  note w = watch_registers [OF assms(1-3)]
  have "\<not> writer_closed w b1" using assms(2) writer_closed_cong [OF w(2)] by simp
  from updates_registered [OF w(1) this assms(4)] w(3) show ?thesis by (auto simp: comp_def split_beta)
qed

theorem watch_hears_every_change_witness:
  "let w = \<lparr>wr_token = 1, wr_call_id = 1, wr_shared = 0, wr_deadline_at = None\<rparr>;
       b = \<lparr>rb_ops = [], rb_signal = 0, rb_shared = (\<lambda>_. shared_default), rb_fresh = 1\<rparr>;
       enc = (\<lambda>s :: int. [8, word_of_int s]);
       (r1, b1) = reporter_watch enc True [] w (reporter_new, b);
       (r2, b2) = fold (\<lambda>(io, k, st). reporter_set_status enc io k st)
                    [(False, [], NotServing), (False, [65], Serving), (True, [], Serving)] (r1, b1)
   in ops_for w b2 = [WriteOp [8, 1], WriteOp [8, 2], WriteOp [8, 1]]"
proof -
  let ?w = "\<lparr>wr_token = 1, wr_call_id = 1, wr_shared = 0, wr_deadline_at = None\<rparr>"
  let ?b = "\<lparr>rb_ops = [], rb_signal = 0, rb_shared = (\<lambda>_. shared_default), rb_fresh = 1\<rparr>"
  let ?enc = "\<lambda>s :: int. [8, word_of_int s] :: bytes"
  let ?u = "[(False, [], NotServing), (False, [65], Serving), (True, [], Serving)]"
  obtain r1 b1 where 1: "reporter_watch ?enc True [] ?w (reporter_new, ?b) = (r1, b1)" by fastforce
  obtain r2 b2 where 2: "fold (\<lambda>(io, k, st). reporter_set_status ?enc io k st) ?u (r1, b1) = (r2, b2)"
    by fastforce
  have "filter (\<lambda>v. wr_shared v = wr_shared ?w) (watchers_of reporter_new k) = []"
    and "\<not> writer_closed ?w ?b" for k
    by (simp_all add: watchers_of_def reporter_new_def writer_closed_def shared_default_def)
  from watch_hears_every_change [OF this 1 2] show ?thesis
    unfolding Let_def 1 2 prod.case by (simp add: ops_for_def reporter_check_def reporter_new_def)
qed

end
