(* ===== verification/Runtime.thy ===== *)
theory Runtime
  imports Prelude
begin

text \<open>
  The process-wide services: the log sink (\<open>grpcuds-core/src/logging.rs\<close>, its C registration in
  \<open>grpcuds-ffi-impl/src/logging.rs\<close> and its Rust face in \<open>grpcuds/src/logging.rs\<close>), and the
  allocator over \<open>malloc\<close> (\<open>grpcuds-core/src/allocator.rs\<close>) and the clock of the deadlines
  (\<open>monotonic_ms\<close> of \<open>grpcuds-core/src/lib.rs\<close>).
\<close>

section \<open>Logging\<close>

datatype log_level = LvError | LvInfo | LvDebug

fun level_rank :: "log_level \<Rightarrow> int" where
  "level_rank LvError = 0"
| "level_rank LvInfo = 1"
| "level_rank LvDebug = 2"

lemma level_rank_inj [simp]: "level_rank a = level_rank b \<longleftrightarrow> a = b"
  by (cases a; cases b) simp_all

text \<open>\<open>derive(PartialOrd)\<close> orders the severities as their discriminants.\<close>

instantiation log_level :: linorder
begin

definition less_eq_log_level :: "log_level \<Rightarrow> log_level \<Rightarrow> bool" where
  "less_eq_log_level a b \<longleftrightarrow> level_rank a \<le> level_rank b"

definition less_log_level :: "log_level \<Rightarrow> log_level \<Rightarrow> bool" where
  "less_log_level a b \<longleftrightarrow> level_rank a < level_rank b"

instance
  by standard (auto simp: less_eq_log_level_def less_log_level_def)

end

text \<open>
  The three atomics; a function is a number, 0 when none is registered. \<open>lg_events\<close> records
  the calls made to the sink: function, level, message, argument and user data.
\<close>

record logger =
  lg_fn :: nat
  lg_user :: nat
  lg_max :: int
  lg_events :: "(nat \<times> int \<times> bytes \<times> int \<times> nat) list"

definition logger_init :: logger where
  "logger_init = \<lparr>lg_fn = 0, lg_user = 0, lg_max = level_rank LvError, lg_events = []\<rparr>"

definition set_log_callback :: "nat option \<Rightarrow> log_level \<Rightarrow> nat \<Rightarrow> logger \<Rightarrow> logger" where
  "set_log_callback f max_level user_data g =
     g\<lparr>lg_max := level_rank max_level, lg_user := user_data, lg_fn := (case f of Some f \<Rightarrow> f | None \<Rightarrow> 0)\<rparr>"

definition log_event :: "log_level \<Rightarrow> bytes \<Rightarrow> int \<Rightarrow> logger \<Rightarrow> logger" where
  "log_event level msg arg g =
     (let f = lg_fn g
      in if f = 0 \<or> level_rank level > lg_max g then g
         else g\<lparr>lg_events := lg_events g @ [(f, level_rank level, msg, arg, lg_user g)]\<rparr>)"

definition log_error :: "bytes \<Rightarrow> int \<Rightarrow> logger \<Rightarrow> logger" where
  "log_error msg arg = log_event LvError msg arg"

definition log_info :: "bytes \<Rightarrow> int \<Rightarrow> logger \<Rightarrow> logger" where
  "log_info msg arg = log_event LvInfo msg arg"

definition log_debug :: "bytes \<Rightarrow> int \<Rightarrow> logger \<Rightarrow> logger" where
  "log_debug msg arg = log_event LvDebug msg arg"

text \<open>The C registration.\<close>

definition level_from_c :: "int \<Rightarrow> log_level" where
  "level_from_c level = (if level = 0 then LvError else if level = 1 then LvInfo else LvDebug)"

definition grpcuds_set_log_callback :: "nat option \<Rightarrow> int \<Rightarrow> nat \<Rightarrow> logger \<Rightarrow> logger" where
  "grpcuds_set_log_callback callback max_level user_data =
     set_log_callback callback (level_from_c max_level) user_data"

text \<open>The Rust face: one sink per process, reached through a trampoline.\<close>

definition LOG_TRAMPOLINE :: nat where "LOG_TRAMPOLINE = 1"

definition log_trampoline :: "'s option \<Rightarrow> int \<Rightarrow> bytes \<Rightarrow> int \<Rightarrow> ('s \<times> log_level \<times> bytes \<times> int) option" where
  "log_trampoline sink level msg arg =
     (case sink of
        None \<Rightarrow> None
      | Some s \<Rightarrow> Some (s, if level = 0 then LvError else if level = 1 then LvInfo else LvDebug, msg, arg))"

definition set_logger :: "log_level \<Rightarrow> 's \<Rightarrow> 's option \<times> logger \<Rightarrow> bool \<times> 's option \<times> logger" where
  "set_logger max_level sink s =
     (case s of (installed, g) \<Rightarrow>
        (case installed of
           Some _ \<Rightarrow> (False, installed, g)
         | None \<Rightarrow> (True, Some sink, set_log_callback (Some LOG_TRAMPOLINE) max_level 0 g)))"

section \<open>Allocator\<close>

text \<open>
  \<open>NATURAL_ALIGN\<close> on a 64-bit target. \<open>malloc\<close> and \<open>posix_memalign\<close> are the library's: given the
  heap and a request they answer an address (0 for failure), or an error code and an address.
\<close>

definition NATURAL_ALIGN :: nat where "NATURAL_ALIGN = 8 * 2"

record 'h libc_heap =
  lh_malloc :: "'h \<Rightarrow> nat \<Rightarrow> nat \<times> 'h"
  lh_memalign :: "'h \<Rightarrow> nat \<Rightarrow> nat \<Rightarrow> int \<times> nat \<times> 'h"
  lh_free :: "'h \<Rightarrow> nat \<Rightarrow> 'h"

definition sys_alloc :: "'h libc_heap \<Rightarrow> nat \<Rightarrow> nat \<Rightarrow> 'h \<Rightarrow> nat \<times> 'h" where
  "sys_alloc lh sz align h =
     (if sz = 0 then (align, h)
      else if align \<le> NATURAL_ALIGN then lh_malloc lh h sz
      else (case lh_memalign lh h align sz of
              (rc, p, h) \<Rightarrow> if rc = 0 then (p, h) else (0, h)))"

definition sys_dealloc :: "'h libc_heap \<Rightarrow> nat \<Rightarrow> nat \<Rightarrow> 'h \<Rightarrow> 'h" where
  "sys_dealloc lh ptr sz h = (if sz = 0 then h else lh_free lh h ptr)"

section \<open>Properties\<close>

text \<open>
  A sink hears exactly the events at or below its level: with a sink registered, of any
  sequence of events those whose severity is within the registered level are delivered, in
  order, each with the registered user data; with none registered, nothing is.
\<close>

lemma sink_hears_its_level:
  "lg_events (fold (\<lambda>(l, msg, arg). log_event l msg arg) evs (set_log_callback f max_level user g))
     = lg_events g @ (case f of
         None \<Rightarrow> []
       | Some fn \<Rightarrow> if fn = 0 then []
                   else map (\<lambda>(l, msg, arg). (fn, level_rank l, msg, arg, user))
                          (filter (\<lambda>(l, _, _). l \<le> max_level) evs))"
proof -
  have ev: "lg_events (log_event l msg arg g) = lg_events g @
      (if lg_fn g = 0 \<or> level_rank l > lg_max g then [] else [(lg_fn g, level_rank l, msg, arg, lg_user g)])"
    "lg_fn (log_event l msg arg g) = lg_fn g" "lg_max (log_event l msg arg g) = lg_max g"
    "lg_user (log_event l msg arg g) = lg_user g" for l msg arg g
    by (simp_all add: log_event_def Let_def)
  have "lg_events (fold (\<lambda>(l, msg, arg). log_event l msg arg) evs g) = lg_events g @
      (if lg_fn g = 0 then [] else map (\<lambda>(l, msg, arg). (lg_fn g, level_rank l, msg, arg, lg_user g))
         (filter (\<lambda>(l, _, _). level_rank l \<le> lg_max g) evs))" for g
    by (induction evs arbitrary: g) (auto simp: ev)
  then show ?thesis by (auto simp: set_log_callback_def less_eq_log_level_def split: option.splits)
qed

text \<open>
  The allocator keeps the contract of \<open>GlobalAlloc\<close>: with a C library whose \<open>malloc\<close> aligns to
  sixteen bytes and whose \<open>posix_memalign\<close> aligns as asked, every address it answers is 0 or
  aligned as the layout asks (a power of two), and releasing memory of a layout calls \<open>free\<close>
  exactly when obtaining it had called the library.
\<close>

lemma allocator_aligns:
  assumes malloc: "\<And>h n. 16 dvd fst (lh_malloc lh h n)"
    and memalign: "\<And>h a n rc p h'. lh_memalign lh h a n = (rc, p, h') \<Longrightarrow> rc = 0 \<Longrightarrow> a dvd p"
    and "align = 2 ^ k"
  shows "align dvd fst (sys_alloc lh sz align h)
    \<and> (sz = 0 \<longrightarrow> sys_alloc lh sz align h = (align, h) \<and> sys_dealloc lh align sz h = h)
    \<and> (sz \<noteq> 0 \<longrightarrow> sys_dealloc lh ptr sz h = lh_free lh h ptr)"
proof -
  have "align dvd 16" if "align \<le> NATURAL_ALIGN"
  proof -
    have "(2 :: nat) ^ k \<le> 2 ^ 4" using that assms(3) by (simp add: NATURAL_ALIGN_def)
    then have "k \<le> 4" using power_increasing_iff [of "2 :: nat" k 4] by simp
    then show ?thesis using assms(3) le_imp_power_dvd [of k 4 "2 :: nat"] by simp
  qed
  then have "align dvd fst (sys_alloc lh sz align h)"
    using dvd_trans [OF _ malloc [of h sz]] memalign
    by (auto simp: sys_alloc_def split: prod.splits)
  then show ?thesis by (simp add: sys_alloc_def sys_dealloc_def)
qed

section \<open>The clock\<close>

text \<open>\<open>monotonic_ms\<close>, from the seconds and nanoseconds the kernel answers.\<close>

definition monotonic_ms :: "nat \<Rightarrow> nat \<Rightarrow> nat" where
  "monotonic_ms tv_sec tv_nsec = (sat_mul64 tv_sec 1000 + tv_nsec div 1000000) mod 2 ^ 64"

text \<open>
  Within the range of the clock the milliseconds are those of the time, rounded down, so a later
  time never gives an earlier value.
\<close>

lemma monotonic_ms_floor:
  assumes "tv_sec < 2 ^ 54" and "tv_nsec < 10 ^ 9"
  shows "monotonic_ms tv_sec tv_nsec = (tv_sec * 10 ^ 9 + tv_nsec) div 10 ^ 6"
proof -
  have "tv_nsec div 1000000 < 1000" using assms(2) by (simp add: div_less_iff_less_mult)
  then have "tv_sec * 1000 + tv_nsec div 1000000 < 2 ^ 64" and "tv_sec * 1000 \<le> u64_max"
    using assms(1) by (simp_all add: u64_max_def)
  moreover have "(tv_sec * 10 ^ 9 + tv_nsec) div 10 ^ 6 = tv_sec * 1000 + tv_nsec div 1000000"
    using div_mult_self3 [of "1000000 :: nat" "tv_sec * 1000" tv_nsec] by (simp add: algebra_simps)
  ultimately show ?thesis by (simp add: monotonic_ms_def sat_mul64_def)
qed

end
