(* ===== verification/Wirelog.thy ===== *)
theory Wirelog
  imports Headers Posix Out_Queue
begin

unbundle bit_operations_syntax

text \<open>
  The development wire log, \<open>rust/grpcuds-core/src/wirelog.rs\<close>: bytes that cross a socket are
  appended to a capture file as the packets of an invented TCP connection, and the file is
  rotated when it would outgrow its cap.

  The global state is one record. It holds the file system as a map from paths to contents
  (one process writes a given path, as the module's documentation requires) and the answers
  the system will give: to \<open>open\<close> (with \<open>fstat\<close>), to \<open>write\<close>, and of the clock. The spin lock is
  the atomicity of each operation.
\<close>

section \<open>Constants and state\<close>

definition CLIENT_IP :: bytes where "CLIENT_IP = [10, 117, 117, 1]"
definition SERVER_IP :: bytes where "SERVER_IP = [10, 117, 117, 2]"
definition SERVER_PORT :: "16 word" where "SERVER_PORT = 80"
definition DEFAULT_FILE_BYTES :: nat where "DEFAULT_FILE_BYTES = 1024 * 1024"
definition DEFAULT_FILES :: nat where "DEFAULT_FILES = 3"
definition MIN_FILE_KB :: nat where "MIN_FILE_KB = 4"
definition MAX_FILE_KB :: nat where "MAX_FILE_KB = 1024 * 1024"
definition MAX_FILES :: nat where "MAX_FILES = 10"
definition MAX_SEGMENT :: nat where "MAX_SEGMENT = 1400"
definition PCAP_HEADER_LEN :: nat where "PCAP_HEADER_LEN = 24"
definition REC_OVERHEAD :: nat where "REC_OVERHEAD = 16 + 20 + 20"
definition WL_PATH_CAP :: nat where "WL_PATH_CAP = 512 - 8"

datatype wl_dir = ClientToServer | ServerToClient

record wirelog_conn =
  wl_client_port :: "16 word"
  wl_ip_octet :: byte
  wl_seq_c :: u32
  wl_seq_s :: u32

datatype wl_state = StUninit | StDisabled | StEnabled

record wl_globals =
  wg_state :: wl_state
  wg_next_port :: u32
  wg_fd :: int
  wg_written :: nat
  wg_max_file :: nat
  wg_keep_files :: nat
  wg_path :: bytes
  wg_files :: "bytes \<rightharpoonup> bytes"
  wg_opens :: "(int \<times> bool) list"
  wg_writes :: "sysret list"
  wg_clock :: "(u32 \<times> u32) list"

section \<open>Environment\<close>

fun env_digits :: "bytes \<Rightarrow> nat \<Rightarrow> nat option" where
  "env_digits [] v = Some v"
| "env_digits (c # cs) v =
     (if \<not> is_ascii_digit c then None
      else env_digits cs (sat_add64 (sat_mul64 v 10) (unat (c - 0x30))))"

definition env_u64 :: "bytes option \<Rightarrow> nat option" where
  "env_u64 var =
     (case var of
        None \<Rightarrow> None
      | Some s \<Rightarrow> if s = [] then None else env_digits s 0)"

section \<open>Files\<close>

text \<open>What of \<open>data\<close> reaches the file, and the answers that remain.\<close>

fun write_fully :: "sysret list \<Rightarrow> bytes \<Rightarrow> bytes \<times> sysret list" where
  "write_fully rs [] = ([], rs)"
| "write_fully [] data = ([], [])"
| "write_fully (SysErr e # rs) data = (if e = EINTR then write_fully rs data else ([], rs))"
| "write_fully (SysOk n # rs) data =
     (let n = min n (length data)
      in if n = 0 then ([], rs)
         else let (out, rs) = write_fully rs (drop n data) in (take n data @ out, rs))"

definition append_live :: "bytes \<Rightarrow> wl_globals \<Rightarrow> wl_globals" where
  "append_live data g =
     (case write_fully (wg_writes g) data of
        (out, rs) \<Rightarrow> g\<lparr>wg_writes := rs,
          wg_files := (wg_files g)(wg_path g \<mapsto> (case wg_files g (wg_path g) of Some c \<Rightarrow> c | None \<Rightarrow> []) @ out)\<rparr>)"

definition le16 :: "16 word \<Rightarrow> bytes" where
  "le16 w = [ucast w, ucast (drop_bit 8 w)]"

definition be16 :: "16 word \<Rightarrow> bytes" where
  "be16 w = [ucast (drop_bit 8 w), ucast w]"

definition le32 :: "u32 \<Rightarrow> bytes" where
  "le32 w = rev (to_be_bytes w)"

definition pcap_global_header :: bytes where
  "pcap_global_header =
     le32 0xa1b2c3d4 @ le16 2 @ le16 4 @ replicate 8 0 @ le32 65535 @ le32 101"

definition open_live :: "wl_globals \<Rightarrow> bool \<times> wl_globals" where
  "open_live g =
     (let (fd, stat_ok) = (case wg_opens g of [] \<Rightarrow> (- 1, False) | a # _ \<Rightarrow> a);
          g = g\<lparr>wg_opens := tl (wg_opens g)\<rparr>
      in if fd < 0 then (False, g)
         else let contents = (case wg_files g (wg_path g) of Some c \<Rightarrow> c | None \<Rightarrow> []);
                  g = g\<lparr>wg_files := (wg_files g)(wg_path g \<mapsto> contents)\<rparr>
              in if \<not> stat_ok then (False, g)
                 else let g = g\<lparr>wg_fd := fd, wg_written := length contents\<rparr>
                      in if wg_written g = 0
                         then (True, (append_live pcap_global_header g)\<lparr>wg_written := PCAP_HEADER_LEN\<rparr>)
                         else (True, g))"

text \<open>The name of the \<open>n\<close>-th rotated file; empty when the allocation fails.\<close>

definition suffixed :: "alloc \<Rightarrow> bytes \<Rightarrow> nat \<Rightarrow> bytes" where
  "suffixed al path n =
     (if \<not> al_bytes al (length path + 4) then [] else path @ [0x2E, 0x30 + of_nat n])"

definition fs_unlink :: "bytes \<Rightarrow> (bytes \<rightharpoonup> bytes) \<Rightarrow> (bytes \<rightharpoonup> bytes)" where
  "fs_unlink p fs = fs(p := None)"

definition fs_rename :: "bytes \<Rightarrow> bytes \<Rightarrow> (bytes \<rightharpoonup> bytes) \<Rightarrow> (bytes \<rightharpoonup> bytes)" where
  "fs_rename a b fs = (case fs a of None \<Rightarrow> fs | Some c \<Rightarrow> (fs(a := None))(b \<mapsto> c))"

primrec roll_files :: "alloc \<Rightarrow> bytes \<Rightarrow> nat \<Rightarrow> (bytes \<rightharpoonup> bytes) \<Rightarrow> (bytes \<rightharpoonup> bytes)" where
  "roll_files al path 0 fs = fs"
| "roll_files al path (Suc i) fs =
     (if i = 0 then fs
      else roll_files al path i
        (let from = suffixed al path i; to = suffixed al path (Suc i)
         in if from \<noteq> [] \<and> to \<noteq> [] then fs_rename from to fs else fs))"

definition rotate_files :: "alloc \<Rightarrow> bytes \<Rightarrow> nat \<Rightarrow> (bytes \<rightharpoonup> bytes) \<Rightarrow> (bytes \<rightharpoonup> bytes)" where
  "rotate_files al path rotated fs =
     (if rotated = 0 then fs_unlink path fs
      else let oldest = suffixed al path rotated;
               fs = (if oldest \<noteq> [] then fs_unlink oldest fs else fs);
               fs = roll_files al path rotated fs;
               p1 = suffixed al path 1
           in if p1 \<noteq> [] then fs_rename path p1 fs else fs)"

definition rotate_log :: "alloc \<Rightarrow> wl_globals \<Rightarrow> wl_globals" where
  "rotate_log al g =
     (let g = g\<lparr>wg_fd := - 1,
                wg_files := rotate_files al (wg_path g) (wg_keep_files g - 1) (wg_files g)\<rparr>;
          (ok, g) = open_live g
      in if \<not> ok then g\<lparr>wg_state := StDisabled\<rparr> else g)"

definition append_record :: "alloc \<Rightarrow> bytes \<Rightarrow> wl_globals \<Rightarrow> wl_globals" where
  "append_record al rec g =
     (if wg_fd g < 0 then g
      else let g = (if wg_written g + length rec > wg_max_file g then rotate_log al g else g)
           in if wg_fd g < 0 then g
              else (append_live rec g)\<lparr>wg_written := wg_written g + length rec\<rparr>)"

text \<open>First use. \<open>getenv\<close> is the process environment.\<close>

definition ensure_init :: "(bytes \<Rightarrow> bytes option) \<Rightarrow> wl_globals \<Rightarrow> bool \<times> wl_globals" where
  "ensure_init getenv g =
     (case wg_state g of
        StEnabled \<Rightarrow> (True, g)
      | StDisabled \<Rightarrow> (False, g)
      | StUninit \<Rightarrow>
          (case getenv (ascii ''GRPCUDS_WIRELOG'') of
             None \<Rightarrow> (False, g\<lparr>wg_state := StDisabled\<rparr>)
           | Some env \<Rightarrow>
               let path = take WL_PATH_CAP env
               in if path = [] \<or> length path \<ge> WL_PATH_CAP
                  then (False, g\<lparr>wg_state := StDisabled\<rparr>)
                  else let g = g\<lparr>wg_path := path,
                         wg_max_file := (case env_u64 (getenv (ascii ''GRPCUDS_WIRELOG_FILE_KB'')) of
                             Some kb \<Rightarrow> max MIN_FILE_KB (min kb MAX_FILE_KB) * 1024
                           | None \<Rightarrow> DEFAULT_FILE_BYTES),
                         wg_keep_files := (case env_u64 (getenv (ascii ''GRPCUDS_WIRELOG_FILES'')) of
                             Some n \<Rightarrow> max 1 (min n MAX_FILES)
                           | None \<Rightarrow> DEFAULT_FILES)\<rparr>;
                         (ok, g) = open_live g
                       in if \<not> ok then (False, g\<lparr>wg_state := StDisabled\<rparr>)
                          else (True, g\<lparr>wg_state := StEnabled\<rparr>)))"

section \<open>Packets\<close>

text \<open>
  The sum of the 16-bit words; it stays far below \<open>2 ^ 32\<close> on the twenty bytes it is used for.
\<close>

fun be16_sum :: "bytes \<Rightarrow> nat" where
  "be16_sum (a # b # r) = unat a * 256 + unat b + be16_sum r"
| "be16_sum _ = 0"

lemma carry_less:
  fixes n :: nat
  assumes "n > 0xFFFF"
  shows "n mod 65536 + n div 65536 < n"
proof -
  have "0 < n div 65536" using assms by (simp add: div_greater_zero_iff)
  then show ?thesis using div_mult_mod_eq [of n 65536] by linarith
qed

function fold_carries :: "nat \<Rightarrow> nat" where
  "fold_carries n = (if n > 0xFFFF then fold_carries (n mod 65536 + n div 65536) else n)"
  by pat_completeness auto
termination
  by (relation "measure id") (simp_all add: carry_less)

declare fold_carries.simps [simp del]

definition ipv4_checksum :: "bytes \<Rightarrow> 16 word" where
  "ipv4_checksum hdr = NOT (of_nat (fold_carries (be16_sum hdr)))"

definition ip_header :: "bytes \<Rightarrow> nat \<Rightarrow> bytes \<Rightarrow> bytes \<Rightarrow> bytes" where
  "ip_header csum len src dst =
     [0x45, 0] @ be16 (of_nat (40 + len)) @ be16 0 @ be16 0x4000 @ [64, 6] @ csum @ src @ dst"

definition tcp_header :: "16 word \<Rightarrow> 16 word \<Rightarrow> u32 \<Rightarrow> u32 \<Rightarrow> byte \<Rightarrow> bytes" where
  "tcp_header sport dport seq ack flags =
     be16 sport @ be16 dport @ to_be_bytes seq @ to_be_bytes ack @ [0x50, flags]
     @ be16 0xFFFF @ [0, 0] @ [0, 0]"

definition build_record ::
    "u32 \<times> u32 \<Rightarrow> 16 word \<Rightarrow> byte \<Rightarrow> wl_dir \<Rightarrow> u32 \<Rightarrow> u32 \<Rightarrow> byte \<Rightarrow> bytes \<Rightarrow> bytes" where
  "build_record now client_port ip_octet dir seq ack flags payload =
     (let total = REC_OVERHEAD + length payload;
          client_ip = take 3 CLIENT_IP @ [ip_octet];
          (src_ip, dst_ip, sport, dport) =
            (case dir of
               ClientToServer \<Rightarrow> (client_ip, SERVER_IP, client_port, SERVER_PORT)
             | ServerToClient \<Rightarrow> (SERVER_IP, client_ip, SERVER_PORT, client_port));
          csum = ipv4_checksum (ip_header [0, 0] (length payload) src_ip dst_ip)
      in le32 (fst now) @ le32 (snd now) @ le32 (of_nat (total - 16)) @ le32 (of_nat (total - 16))
         @ ip_header (be16 csum) (length payload) src_ip dst_ip
         @ tcp_header sport dport seq ack flags @ payload)"

definition emit ::
    "alloc \<Rightarrow> 16 word \<Rightarrow> byte \<Rightarrow> wl_dir \<Rightarrow> u32 \<Rightarrow> u32 \<Rightarrow> byte \<Rightarrow> bytes \<Rightarrow> wl_globals \<Rightarrow> wl_globals" where
  "emit al client_port ip_octet dir seq ack flags payload g =
     (let now = (case wg_clock g of [] \<Rightarrow> (0, 0) | t # _ \<Rightarrow> t);
          g = g\<lparr>wg_clock := tl (wg_clock g)\<rparr>;
          rec = build_record now client_port ip_octet dir seq ack flags payload
      in if length rec \<le> REC_OVERHEAD + MAX_SEGMENT then append_record al rec g else g)"

section \<open>Interface\<close>

definition F_SYN :: byte where "F_SYN = 0x02"
definition F_SYNACK :: byte where "F_SYNACK = 0x12"
definition F_ACK :: byte where "F_ACK = 0x10"
definition F_PSHACK :: byte where "F_PSHACK = 0x18"

definition conn_open ::
    "alloc \<Rightarrow> (bytes \<Rightarrow> bytes option) \<Rightarrow> wl_globals \<Rightarrow> wirelog_conn option \<times> wl_globals" where
  "conn_open al getenv g =
     (case ensure_init getenv g of
        (False, g) \<Rightarrow> (None, g)
      | (True, g) \<Rightarrow>
          let seq = wg_next_port g;
              g = g\<lparr>wg_next_port := seq + 1\<rparr>;
              client_port = 40000 + ucast (seq mod 20000);
              ip_octet = 1 + ucast ((seq div 20000) mod 200);
              g = emit al client_port ip_octet ClientToServer 0 0 F_SYN [] g;
              g = emit al client_port ip_octet ServerToClient 0 1 F_SYNACK [] g;
              g = emit al client_port ip_octet ClientToServer 1 1 F_ACK [] g
          in (Some \<lparr>wl_client_port = client_port, wl_ip_octet = ip_octet, wl_seq_c = 1, wl_seq_s = 1\<rparr>, g))"

text \<open>\<open>bytes.chunks(n)\<close>\<close>

function seg_chunks :: "nat \<Rightarrow> 'a list \<Rightarrow> 'a list list" where
  "seg_chunks n xs = (if xs = [] \<or> n = 0 then [] else take n xs # seg_chunks n (drop n xs))"
  by pat_completeness auto
termination
  by (relation "measure (\<lambda>(_, xs). length xs)") auto

declare seg_chunks.simps [simp del]

definition log_chunk :: "alloc \<Rightarrow> wl_dir \<Rightarrow> bytes \<Rightarrow> wirelog_conn \<times> wl_globals \<Rightarrow> wirelog_conn \<times> wl_globals" where
  "log_chunk al dir chunk s =
     (case s of (wl, g) \<Rightarrow>
        let (seq, ack) = (case dir of
               ClientToServer \<Rightarrow> (wl_seq_c wl, wl_seq_s wl)
             | ServerToClient \<Rightarrow> (wl_seq_s wl, wl_seq_c wl));
            g = emit al (wl_client_port wl) (wl_ip_octet wl) dir seq ack F_PSHACK chunk g
        in (case dir of
              ClientToServer \<Rightarrow> (wl\<lparr>wl_seq_c := wl_seq_c wl + of_nat (length chunk)\<rparr>, g)
            | ServerToClient \<Rightarrow> (wl\<lparr>wl_seq_s := wl_seq_s wl + of_nat (length chunk)\<rparr>, g)))"

definition wl_log :: "alloc \<Rightarrow> wl_dir \<Rightarrow> bytes \<Rightarrow> wirelog_conn \<times> wl_globals \<Rightarrow> wirelog_conn \<times> wl_globals" where
  "wl_log al dir bs s = fold (log_chunk al dir) (seg_chunks MAX_SEGMENT bs) s"

section \<open>Checksums and records\<close>

lemma fold_carries_spec:
  "fold_carries n \<le> 65535 \<and> fold_carries n mod 65535 = n mod 65535 \<and> (0 < n \<longrightarrow> 0 < fold_carries n)"
proof (induction n rule: fold_carries.induct)
  case (1 n)
  show ?case
  proof (cases "n > 65535")
    case True
    let ?m = "n mod 65536 + n div 65536"
    have n: "n = ?m + 65535 * (n div 65536)" using div_mult_mod_eq [of n 65536] by linarith
    have "?m mod 65535 = n mod 65535" using n by (metis mod_mult_self2)
    moreover have "0 < ?m" using True by (simp add: div_greater_zero_iff)
    ultimately show ?thesis using 1 True by (simp add: fold_carries.simps [of n])
  qed (simp add: fold_carries.simps [of n])
qed

lemma be16_value: "unat (ucast (drop_bit 8 w) :: byte) * 256 + unat (ucast w :: byte) = unat (w :: 16 word)"
proof -
  have "unat (drop_bit 8 w) < 256"
    using unsigned_less [of w, where ?'a = nat] by (simp add: drop_bit_eq_div unat_div)
  then have "unat (ucast (drop_bit 8 w) :: byte) = unat w div 256"
    by (simp add: unsigned_ucast_eq drop_bit_eq_div unat_div take_bit_eq_mod)
  moreover have "unat (ucast w :: byte) = unat w mod 256" by (simp add: unsigned_ucast_eq take_bit_eq_mod)
  ultimately show ?thesis by (simp add: div_mult_mod_eq)
qed

lemma checksum_verifies:
  fixes w :: "16 word"
  assumes "w = NOT (of_nat (fold_carries n))" and "0 < n"
  shows "fold_carries (n + unat w) = 65535"
proof -
  note f = fold_carries_spec [of n]
  have "NOT (of_nat (fold_carries n)) = 0xFFFF - (of_nat (fold_carries n) :: 16 word)"
    by (simp add: not_eq_complement)
  then have w: "unat w = 65535 - fold_carries n"
    using f assms(1) by (simp add: unat_sub word_le_nat_alt unat_of_nat)
  have "(n + unat w) mod 65535 = (fold_carries n + unat w) mod 65535"
    using f mod_add_left_eq [of n 65535 "unat w"] mod_add_left_eq [of "fold_carries n" 65535 "unat w"] by simp
  also have "\<dots> = 0" using w f by simp
  finally have "fold_carries (n + unat w) mod 65535 = 0" using fold_carries_spec [of "n + unat w"] by simp
  then show ?thesis
    using fold_carries_spec [of "n + unat w"] assms(2) by (auto simp: mod_eq_0_iff_dvd dest: dvd_imp_le)
qed

lemma ip_header_sum:
  assumes "length src = 4" and "length dst = 4"
  shows "be16_sum (ip_header (be16 w) len src dst) = be16_sum (ip_header [0, 0] len src dst) + unat w"
    and "0 < be16_sum (ip_header [0, 0] len src dst)"
    and "length (ip_header (be16 w) len src dst) = 20"
  using be16_value [of w] assms by (simp_all add: ip_header_def be16_def)

lemma build_record_parts:
  "\<exists>src dst. length src = 4 \<and> length dst = 4
     \<and> build_record now port oct dir seq ack flags payload
       = (le32 (fst now) @ le32 (snd now) @ le32 (of_nat (40 + length payload)) @ le32 (of_nat (40 + length payload)))
         @ ip_header (be16 (ipv4_checksum (ip_header [0, 0] (length payload) src dst))) (length payload) src dst
         @ (case dir of ClientToServer \<Rightarrow> tcp_header port SERVER_PORT seq ack flags
            | ServerToClient \<Rightarrow> tcp_header SERVER_PORT port seq ack flags) @ payload"
proof -
  have "length (take 3 CLIENT_IP @ [oct]) = 4" "length SERVER_IP = 4" by (simp_all add: CLIENT_IP_def SERVER_IP_def)
  then show ?thesis
    by (intro exI [of _ "case dir of ClientToServer \<Rightarrow> take 3 CLIENT_IP @ [oct] | ServerToClient \<Rightarrow> SERVER_IP"]
        exI [of _ "case dir of ClientToServer \<Rightarrow> SERVER_IP | ServerToClient \<Rightarrow> take 3 CLIENT_IP @ [oct]"])
      (cases dir; simp add: build_record_def REC_OVERHEAD_def Let_def)
qed

lemma length_words [simp]:
  "length (le32 w) = 4" "length (be16 v) = 2" "length (le16 v) = 2" "length (tcp_header a b c d e) = 20"
  by (simp_all add: le32_def be16_def le16_def tcp_header_def)

lemma length_record: "length (build_record now port oct dir seq ack flags payload) = 56 + length payload"
  using build_record_parts [of now port oct dir seq ack flags payload]
  by (auto simp: ip_header_sum split: wl_dir.splits)

section \<open>Rotation\<close>

definition rolled :: "bytes \<Rightarrow> nat \<Rightarrow> bytes" where
  "rolled path n = path @ [0x2E, 0x30 + of_nat n]"

lemma suffixed_ok [simp]: "suffixed al_all path n = rolled path n"
  by (simp add: suffixed_def al_all_def rolled_def)

lemma rolled_nonempty [simp]: "rolled path n \<noteq> []"
  by (simp add: rolled_def)

lemma rolled_inj: "i < 10 \<Longrightarrow> j < 10 \<Longrightarrow> rolled path i = rolled path j \<longleftrightarrow> i = j"
  by (auto simp: rolled_def word_of_nat_eq_iff take_bit_nat_eq_self)

lemma roll_files_eq:
  assumes "i < 10" and "fs (rolled path i) = None"
  shows "(\<forall>j. 2 \<le> j \<and> j \<le> i \<longrightarrow> roll_files al_all path i fs (rolled path j) = fs (rolled path (j - 1)))
    \<and> (2 \<le> i \<longrightarrow> roll_files al_all path i fs (rolled path 1) = None)
    \<and> (\<forall>q. (\<forall>j. 1 \<le> j \<and> j \<le> i \<longrightarrow> q \<noteq> rolled path j) \<longrightarrow> roll_files al_all path i fs q = fs q)"
  using assms
proof (induction i arbitrary: fs)
  case (Suc i)
  show ?case
  proof (cases "i = 0")
    case False
    let ?fs = "fs_rename (rolled path i) (rolled path (Suc i)) fs"
    have ne: "rolled path a \<noteq> rolled path b" if "a \<noteq> b" "a \<le> Suc i" "b \<le> Suc i" for a b
      using rolled_inj [of a b path] that Suc.prems(1) by simp
    have r: "?fs (rolled path (Suc i)) = fs (rolled path i)" "?fs (rolled path i) = None"
      "\<And>q. q \<noteq> rolled path i \<Longrightarrow> q \<noteq> rolled path (Suc i) \<Longrightarrow> ?fs q = fs q"
      using Suc.prems ne [of i "Suc i"] by (auto simp: fs_rename_def split: option.splits)
    have step: "roll_files al_all path (Suc i) fs = roll_files al_all path i ?fs" using False by simp
    note ih = Suc.IH [of ?fs, OF _ r(2)]
    have 1: "roll_files al_all path i ?fs (rolled path j) = fs (rolled path (j - 1))" if "2 \<le> j" "j \<le> Suc i" for j
    proof (cases "j = Suc i")
      case True
      have "roll_files al_all path i ?fs (rolled path (Suc i)) = ?fs (rolled path (Suc i))"
        using ih Suc.prems(1) ne [of "Suc i"] by force
      with True r(1) show ?thesis by simp
    next
      case False
      then have "roll_files al_all path i ?fs (rolled path j) = ?fs (rolled path (j - 1))"
        using ih Suc.prems(1) that by simp
      also have "\<dots> = fs (rolled path (j - 1))"
      proof (rule r(3))
        show "rolled path (j - 1) \<noteq> rolled path i" and "rolled path (j - 1) \<noteq> rolled path (Suc i)"
          by (rule ne; use False that in simp)+
      qed
      finally show ?thesis .
    qed
    have 2: "roll_files al_all path i ?fs (rolled path 1) = None"
    proof (cases "i = 1")
      case True
      then show ?thesis using r(2) by simp
    qed (use ih Suc.prems(1) False in simp)
    have 3: "roll_files al_all path i ?fs q = fs q" if "\<forall>j. 1 \<le> j \<and> j \<le> Suc i \<longrightarrow> q \<noteq> rolled path j" for q
      using ih Suc.prems(1) that r(3) [of q] False by simp
    show ?thesis unfolding step using 1 2 3 by blast
  qed auto
qed simp

text \<open>After a rotation every file is one place further, the oldest is gone and the live name is free.\<close>

lemma rotate_files_eq:
  assumes "rotated < 10"
  shows "rotate_files al_all path rotated fs path = None"
    and "0 < rotated \<Longrightarrow> rotate_files al_all path rotated fs (rolled path 1) = fs path"
    and "2 \<le> j \<Longrightarrow> j \<le> rotated \<Longrightarrow> rotate_files al_all path rotated fs (rolled path j) = fs (rolled path (j - 1))"
    and "q \<noteq> path \<Longrightarrow> (\<And>j. 1 \<le> j \<Longrightarrow> j \<le> rotated \<Longrightarrow> q \<noteq> rolled path j) \<Longrightarrow>
      rotate_files al_all path rotated fs q = fs q"
proof -
  let ?fs = "fs_unlink (rolled path rotated) fs"
  let ?roll = "roll_files al_all path rotated ?fs"
  have path: "path \<noteq> rolled path j" for j by (simp add: rolled_def)
  have ne: "rolled path a \<noteq> rolled path b" if "a \<noteq> b" "a \<le> rotated" "b \<le> rotated" for a b
    using rolled_inj [of a b path] that assms by simp
  note roll = roll_files_eq [OF assms, of ?fs path]
  have none: "?fs (rolled path rotated) = None" by (simp add: fs_unlink_def)
  have p: "?roll path = fs path" using roll [OF none] path by (simp add: fs_unlink_def)
  have one: "?roll (rolled path 1) = None" if "0 < rotated"
    using roll [OF none] that none by (cases "rotated = 1") auto
  have eq: "rotate_files al_all path rotated fs = fs_rename path (rolled path 1) ?roll" if "0 < rotated"
    using that by (simp add: rotate_files_def Let_def)
  have ren: "fs_rename path (rolled path 1) ?roll path = None"
    "fs_rename path (rolled path 1) ?roll (rolled path 1) = fs path"
    "\<And>q. q \<noteq> path \<Longrightarrow> q \<noteq> rolled path 1 \<Longrightarrow> fs_rename path (rolled path 1) ?roll q = ?roll q"
    if "0 < rotated"
    using p one [OF that] path [of 1] by (auto simp: fs_rename_def split: option.splits)
  show "rotate_files al_all path rotated fs path = None"
    using ren(1) eq by (cases "rotated = 0") (simp_all add: rotate_files_def fs_unlink_def)
  show "0 < rotated \<Longrightarrow> rotate_files al_all path rotated fs (rolled path 1) = fs path"
    using ren(2) eq by simp
  show "rotate_files al_all path rotated fs (rolled path j) = fs (rolled path (j - 1))"
    if "2 \<le> j" "j \<le> rotated"
  proof -
    have "rotate_files al_all path rotated fs (rolled path j) = ?roll (rolled path j)"
      using eq ren(3) [of "rolled path j"] path [of j] ne [of j 1] that by auto
    also have "\<dots> = ?fs (rolled path (j - 1))" using roll [OF none] that by blast
    also have "\<dots> = fs (rolled path (j - 1))"
      using ne [of "j - 1" rotated] that unfolding fs_unlink_def by (intro fun_upd_other) simp
    finally show ?thesis .
  qed
  show "rotate_files al_all path rotated fs q = fs q"
    if "q \<noteq> path" "\<And>j. 1 \<le> j \<Longrightarrow> j \<le> rotated \<Longrightarrow> q \<noteq> rolled path j"
  proof (cases "rotated = 0")
    case True
    then show ?thesis using that(1) by (simp add: rotate_files_def fs_unlink_def)
  next
    case False
    then have "rotate_files al_all path rotated fs q = ?roll q"
      using eq ren(3) [of q] that(1) that(2) [of 1] by simp
    also have "\<dots> = ?fs q" using roll [OF none] that(2) by blast
    also have "\<dots> = fs q" using that(2) [of rotated] False by (simp add: fs_unlink_def)
    finally show ?thesis .
  qed
qed

section \<open>The size of the live file\<close>

definition live_file :: "wl_globals \<Rightarrow> bytes" where
  "live_file g = (case wg_files g (wg_path g) of Some c \<Rightarrow> c | None \<Rightarrow> [])"

text \<open>
  The counter is never below the size of the open file, and the configuration is one that
  \<open>ensure_init\<close> produces.
\<close>

definition wl_inv :: "wl_globals \<Rightarrow> bool" where
  "wl_inv g \<longleftrightarrow> (0 \<le> wg_fd g \<longrightarrow> length (live_file g) \<le> wg_written g)
     \<and> 4096 \<le> wg_max_file g \<and> 1 \<le> wg_keep_files g \<and> wg_keep_files g \<le> 10"

lemma write_fully_length: "length (fst (write_fully rs data)) \<le> length data"
  by (induction rs data rule: write_fully.induct) (auto simp: Let_def split_beta)

lemma append_live_sel [simp]:
  "wg_path (append_live data g) = wg_path g" "wg_max_file (append_live data g) = wg_max_file g"
  "wg_keep_files (append_live data g) = wg_keep_files g" "wg_fd (append_live data g) = wg_fd g"
  "wg_written (append_live data g) = wg_written g" "wg_next_port (append_live data g) = wg_next_port g"
  by (simp_all add: append_live_def split_beta)

lemma append_live_length: "length (live_file (append_live data g)) \<le> length (live_file g) + length data"
  using write_fully_length [of "wg_writes g" data]
  by (simp add: live_file_def append_live_def split_beta)

lemma live_file_written [simp]: "live_file (g\<lparr>wg_written := n\<rparr>) = live_file g"
  by (simp add: live_file_def)

lemma pcap_header_length [simp]: "length pcap_global_header = 24"
  by (simp add: pcap_global_header_def)

lemma open_live_spec:
  assumes "open_live g = (ok, g')" and "wg_fd g < 0"
  shows "wg_max_file g' = wg_max_file g" and "wg_keep_files g' = wg_keep_files g"
    and "wg_next_port g' = wg_next_port g" and "ok \<longleftrightarrow> 0 \<le> wg_fd g'"
    and "ok \<Longrightarrow> length (live_file g') \<le> wg_written g'"
    and "ok \<Longrightarrow> live_file g = [] \<Longrightarrow> wg_written g' = 24"
proof -
  obtain fd st where a: "(case wg_opens g of [] \<Rightarrow> (- 1, False) | a # _ \<Rightarrow> a) = (fd, st)" by fastforce
  let ?g = "g\<lparr>wg_opens := tl (wg_opens g), wg_files := (wg_files g)(wg_path g \<mapsto> live_file g),
      wg_fd := fd, wg_written := length (live_file g)\<rparr>"
  have live: "live_file ?g = live_file g" by (simp add: live_file_def)
  have cases: "g' = ?g \<and> ok \<and> 0 \<le> fd \<and> live_file g \<noteq> []
      \<or> g' = (append_live pcap_global_header ?g)\<lparr>wg_written := 24\<rparr> \<and> ok \<and> 0 \<le> fd \<and> live_file g = []
      \<or> \<not> ok \<and> wg_fd g' = wg_fd g \<and> wg_max_file g' = wg_max_file g \<and> wg_keep_files g' = wg_keep_files g
        \<and> wg_next_port g' = wg_next_port g"
    using assms(1) a
    by (auto simp: open_live_def live_file_def PCAP_HEADER_LEN_def Let_def split: if_splits option.splits)
  then show "wg_max_file g' = wg_max_file g" "wg_keep_files g' = wg_keep_files g"
    "wg_next_port g' = wg_next_port g" "ok \<longleftrightarrow> 0 \<le> wg_fd g'"
    using assms(2) by auto
  show "ok \<Longrightarrow> length (live_file g') \<le> wg_written g'"
    using cases live append_live_length [of pcap_global_header ?g] by auto
  show "ok \<Longrightarrow> live_file g = [] \<Longrightarrow> wg_written g' = 24" using cases by auto
qed

lemma rotate_log_spec:
  assumes "wl_inv g" and "0 \<le> wg_fd (rotate_log al_all g)"
  shows "wl_inv (rotate_log al_all g)" and "wg_written (rotate_log al_all g) = 24"
    and "wg_max_file (rotate_log al_all g) = wg_max_file g"
proof -
  let ?g = "g\<lparr>wg_fd := - 1, wg_files := rotate_files al_all (wg_path g) (wg_keep_files g - 1) (wg_files g)\<rparr>"
  obtain ok g' where o: "open_live ?g = (ok, g')" by fastforce
  have r: "rotate_log al_all g = (if \<not> ok then g'\<lparr>wg_state := StDisabled\<rparr> else g')"
    using o by (simp add: rotate_log_def Let_def)
  note s = open_live_spec [OF o, simplified]
  have ok: ok using assms(2) r s(4) by (cases ok) auto
  have "wg_keep_files g - 1 < 10" using assms(1) by (auto simp: wl_inv_def)
  then have "live_file ?g = []" using rotate_files_eq(1) by (simp add: live_file_def)
  with ok r s assms show "wl_inv (rotate_log al_all g)" "wg_written (rotate_log al_all g) = 24"
    "wg_max_file (rotate_log al_all g) = wg_max_file g"
    by (auto simp: wl_inv_def)
qed

section \<open>Streams\<close>

lemma concat_chunks: "0 < n \<Longrightarrow> concat (seg_chunks n xs) = xs"
  by (induction n xs rule: seg_chunks.induct) (simp add: seg_chunks.simps [of _ "_ :: 'a list"])

lemma chunks_bounded: "c \<in> set (seg_chunks n xs) \<Longrightarrow> c \<noteq> [] \<and> length c \<le> n"
proof (induction n xs rule: seg_chunks.induct)
  case (1 n xs)
  then show ?case by (cases "xs = [] \<or> n = 0") (auto simp: seg_chunks.simps [of n xs])
qed

text \<open>The sequence number of a direction advances by exactly the bytes logged, modulo \<open>2 ^ 32\<close>.\<close>

lemma log_chunks_seq:
  "wl_seq_c (fst (fold (log_chunk al dir) cs (wl, g)))
     = (if dir = ClientToServer then wl_seq_c wl + of_nat (length (concat cs)) else wl_seq_c wl)"
  "wl_seq_s (fst (fold (log_chunk al dir) cs (wl, g)))
     = (if dir = ServerToClient then wl_seq_s wl + of_nat (length (concat cs)) else wl_seq_s wl)"
  by (induction cs arbitrary: wl g) (auto simp: log_chunk_def Let_def add.assoc split: wl_dir.splits)

lemma wl_log_seq:
  "wl_seq_c (fst (wl_log al ClientToServer bs (wl, g))) = wl_seq_c wl + of_nat (length bs)"
  "wl_seq_s (fst (wl_log al ClientToServer bs (wl, g))) = wl_seq_s wl"
  "wl_seq_s (fst (wl_log al ServerToClient bs (wl, g))) = wl_seq_s wl + of_nat (length bs)"
  "wl_seq_c (fst (wl_log al ServerToClient bs (wl, g))) = wl_seq_c wl"
  using concat_chunks [of MAX_SEGMENT bs] by (simp_all add: wl_log_def log_chunks_seq MAX_SEGMENT_def)

text \<open>The first four million connections of a process have different addresses.\<close>

lemma tuple_value:
  assumes "conn_open al getenv g = (Some c, g')"
  shows "\<exists>n. n = unat (wg_next_port (snd (ensure_init getenv g)))
    \<and> unat (wl_client_port c) = 40000 + n mod 20000 \<and> unat (wl_ip_octet c) = 1 + n div 20000 mod 200"
proof -
  obtain g1 where g1: "ensure_init getenv g = (True, g1)"
    using assms by (auto simp: conn_open_def split: prod.splits bool.splits)
  let ?n = "wg_next_port g1"
  have "unat (?n mod 20000) < 20000" and "unat (?n div 20000 mod 200) < 200"
    by (simp_all add: unat_mod unat_div)
  moreover have "unat ?n div 20000 < 4294967296"
    using div_le_dividend [of "unat ?n" 20000] unsigned_less [of ?n, where ?'a = nat] by simp
  ultimately have "unat (40000 + ucast (?n mod 20000) :: 16 word) = 40000 + unat ?n mod 20000"
    and "unat (1 + ucast (?n div 20000 mod 200) :: byte) = 1 + unat ?n div 20000 mod 200"
    by (simp_all add: unat_word_ariths unsigned_ucast_eq take_bit_nat_eq_self unat_mod unat_div)
  with assms g1 show ?thesis by (auto simp: conn_open_def Let_def)
qed

lemma tuples_distinct:
  assumes "conn_open al getenv g = (Some c, g')" and "conn_open al' getenv' h = (Some d, h')"
    and "a = unat (wg_next_port (snd (ensure_init getenv g)))" "a < 4000000"
    and "b = unat (wg_next_port (snd (ensure_init getenv' h)))" "b < 4000000" and "a \<noteq> b"
  shows "(wl_client_port c, wl_ip_octet c) \<noteq> (wl_client_port d, wl_ip_octet d)"
proof
  assume eq: "(wl_client_port c, wl_ip_octet c) = (wl_client_port d, wl_ip_octet d)"
  have "a mod 20000 = b mod 20000" "a div 20000 mod 200 = b div 20000 mod 200"
    using tuple_value [OF assms(1)] tuple_value [OF assms(2)] assms(3,5) eq by auto
  moreover have "a div 20000 < 200" "b div 20000 < 200" using assms(4,6) by (simp_all add: div_less_iff_less_mult)
  ultimately have "a = b" by (metis div_mult_mod_eq mod_less)
  with assms(7) show False by blast
qed

section \<open>Properties\<close>



text \<open>
  A rotation keeps every capture but the oldest: the live file becomes the first rotated
  one, each rotated file moves one place up, the last is dropped, the live name is free again,
  and no other file of the directory is touched.
\<close>

lemma rotation_shifts:
  assumes "rotated < MAX_FILES"
  shows "rotate_files al_all path rotated fs path = None
    \<and> (0 < rotated \<longrightarrow> rotate_files al_all path rotated fs (suffixed al_all path 1) = fs path)
    \<and> (\<forall>j. 2 \<le> j \<and> j \<le> rotated \<longrightarrow>
         rotate_files al_all path rotated fs (suffixed al_all path j) = fs (suffixed al_all path (j - 1)))
    \<and> (\<forall>q. q \<noteq> path \<and> (\<forall>j. 1 \<le> j \<and> j \<le> rotated \<longrightarrow> q \<noteq> suffixed al_all path j) \<longrightarrow>
         rotate_files al_all path rotated fs q = fs q)"
  using rotate_files_eq [where path = path and rotated = rotated and fs = fs] assms by (simp add: MAX_FILES_def)

text \<open>
  Every record is a well-formed packet: the ones' complement sum over its IPv4 header,
  checksum included, is all ones, the recorded length is the number of bytes that follow the
  record header, and the payload comes last, as it was given.
\<close>

lemma record_wellformed:
  "let r = build_record now port oct dir seq ack flags payload
   in fold_carries (be16_sum (take 20 (drop 16 r))) = 0xFFFF
      \<and> take 4 (drop 8 r) = le32 (of_nat (length r - 16))
      \<and> drop 56 r = payload \<and> length r = REC_OVERHEAD + length payload"
proof -
  obtain src dst tcp where sd: "length src = 4" "length dst = 4" "length tcp = 20" and
    r: "build_record now port oct dir seq ack flags payload
       = (le32 (fst now) @ le32 (snd now) @ le32 (of_nat (40 + length payload)) @ le32 (of_nat (40 + length payload)))
         @ ip_header (be16 (ipv4_checksum (ip_header [0, 0] (length payload) src dst))) (length payload) src dst
         @ tcp @ payload"
    using build_record_parts [of now port oct dir seq ack flags payload] by (cases dir) auto
  let ?h = "ip_header (be16 (ipv4_checksum (ip_header [0, 0] (length payload) src dst))) (length payload) src dst"
  note h = ip_header_sum [OF sd(1,2)]
  have "fold_carries (be16_sum ?h) = 65535"
    unfolding h(1) by (rule checksum_verifies) (simp_all add: ipv4_checksum_def h(2))
  with h(3) sd show ?thesis by (simp add: r Let_def REC_OVERHEAD_def length_record)
qed

end
