(* ===== verification/Codegen_Text.thy ===== *)
theory Codegen_Text
  imports Main
begin

text \<open>
  What the two code generators share: the string functions of the Rust standard library they use,
  over strings as UTF-8 bytes, and a lexer for the C, C++ and Rust text they write. The lexer
  knows line and block comments, string literals and the three kinds of brackets; it is what the
  properties of the generated text are stated with.
\<close>

section \<open>Strings\<close>

abbreviation DQ :: string where "DQ \<equiv> [CHR 0x22]"
abbreviation SQ :: string where "SQ \<equiv> [CHR 0x27]"
abbreviation BSL :: string where "BSL \<equiv> [CHR 0x5C]"
abbreviation blank :: string where "blank \<equiv> []"

text \<open>The text a sequence of \<open>writeln!\<close> appends.\<close>

definition unlines :: "string list \<Rightarrow> string" where
  "unlines ls = concat (map (\<lambda>l. l @ [CHR 0x0A]) ls)"

text \<open>\<open>str::split(c)\<close>: the parts between the separators, one more than there are separators.\<close>

fun split_on :: "char \<Rightarrow> string \<Rightarrow> string list" where
  "split_on d [] = [] # []"
| "split_on d (c # cs) =
     (if c = d then [] # split_on d cs
      else (case split_on d cs of p # ps \<Rightarrow> (c # p) # ps | [] \<Rightarrow> [c] # []))"

text \<open>\<open>[String]::join("_")\<close>\<close>

fun join_with :: "string \<Rightarrow> string list \<Rightarrow> string" where
  "join_with d [] = []"
| "join_with d [p] = p"
| "join_with d (p # ps) = p @ d @ join_with d ps"

text \<open>\<open>replace('.', "_")\<close> and \<open>trim_start_matches\<close> with a character.\<close>

definition dots_to_underscores :: "string \<Rightarrow> string" where
  "dots_to_underscores = map (\<lambda>c. if c = CHR ''.'' then CHR ''_'' else c)"

definition trim_start_char :: "char \<Rightarrow> string \<Rightarrow> string" where
  "trim_start_char d = dropWhile (\<lambda>c. c = d)"

text \<open>\<open>trim_start_matches("::")\<close>\<close>

fun trim_start_colons :: "string \<Rightarrow> string" where
  "trim_start_colons (a # b # cs) =
     (if a = CHR '':'' \<and> b = CHR '':'' then trim_start_colons cs else a # b # cs)"
| "trim_start_colons s = s"

definition strip_suffix :: "string \<Rightarrow> string \<Rightarrow> string option" where
  "strip_suffix suf s =
     (if length suf \<le> length s \<and> drop (length s - length suf) s = suf
      then Some (take (length s - length suf) s) else None)"

definition ends_with :: "string \<Rightarrow> string \<Rightarrow> bool" where
  "ends_with suf s \<longleftrightarrow> length suf \<le> length s \<and> drop (length s - length suf) s = suf"

text \<open>The ASCII classes of \<open>char\<close> and their case conversions.\<close>

definition byte_of :: "char \<Rightarrow> nat" where "byte_of = of_char"

definition is_ascii_uppercase :: "char \<Rightarrow> bool" where
  "is_ascii_uppercase c \<longleftrightarrow> 65 \<le> byte_of c \<and> byte_of c \<le> 90"

definition is_ascii_lowercase :: "char \<Rightarrow> bool" where
  "is_ascii_lowercase c \<longleftrightarrow> 97 \<le> byte_of c \<and> byte_of c \<le> 122"

definition is_ascii_digit :: "char \<Rightarrow> bool" where
  "is_ascii_digit c \<longleftrightarrow> 48 \<le> byte_of c \<and> byte_of c \<le> 57"

definition is_ascii_alphanumeric :: "char \<Rightarrow> bool" where
  "is_ascii_alphanumeric c \<longleftrightarrow> is_ascii_uppercase c \<or> is_ascii_lowercase c \<or> is_ascii_digit c"

definition to_ascii_lowercase :: "char \<Rightarrow> char" where
  "to_ascii_lowercase c = (if is_ascii_uppercase c then char_of (byte_of c + 32) else c)"

definition to_ascii_uppercase :: "char \<Rightarrow> char" where
  "to_ascii_uppercase c = (if is_ascii_lowercase c then char_of (byte_of c - 32) else c)"

text \<open>A byte inside a multi-byte UTF-8 sequence, which starts no new \<open>char\<close>.\<close>

definition utf8_continuation :: "char \<Rightarrow> bool" where
  "utf8_continuation c \<longleftrightarrow> 128 \<le> byte_of c \<and> byte_of c \<le> 191"

text \<open>
  \<open>str::trim\<close>: the UTF-8 encodings of the characters with the Unicode property \<open>White_Space\<close>,
  removed at both ends.
\<close>

definition white_space :: "string list" where
  "white_space =
     map (\<lambda>n. [char_of (n :: nat)]) [9, 10, 11, 12, 13, 32]
     @ [CHR 0xC2, CHR 0x85] # [CHR 0xC2, CHR 0xA0] # [CHR 0xE1, CHR 0x9A, CHR 0x80]
     # map (\<lambda>n. [CHR 0xE2, CHR 0x80, char_of n]) ([128..<139] @ [168, 169, 175])
     @ [CHR 0xE2, CHR 0x81, CHR 0x9F] # [CHR 0xE3, CHR 0x80, CHR 0x80] # []"

definition starts_with :: "string \<Rightarrow> string \<Rightarrow> bool" where
  "starts_with p s \<longleftrightarrow> take (length p) s = p"

fun strip_codes :: "nat \<Rightarrow> string list \<Rightarrow> string \<Rightarrow> string" where
  "strip_codes 0 ws s = s"
| "strip_codes (Suc n) ws s =
     (case find (\<lambda>w. starts_with w s) ws of
        Some w \<Rightarrow> strip_codes n ws (drop (length w) s)
      | None \<Rightarrow> s)"

definition trim :: "string \<Rightarrow> string" where
  "trim s =
     (let s = strip_codes (length s) white_space s
      in rev (strip_codes (length s) (map rev white_space) (rev s)))"

lemma strip_suffix_Some: "strip_suffix suf s = Some b \<longleftrightarrow> s = b @ suf"
  by (auto simp: strip_suffix_def) (metis append_take_drop_id)

section \<open>Lexical structure of the generated text\<close>

datatype lex_mode = Code | Slash | LineComment | BlockComment | BlockStar | Literal string

datatype lex = Lex lex_mode "char list" "string list"

text \<open>
  A state is the mode, the brackets open at this point, innermost first, and the string literals
  read so far. \<open>None\<close> is ill-formed text: a bracket that closes none or the wrong one, or a
  literal that does not end on its line.
\<close>

definition close_bracket :: "char \<Rightarrow> char list \<Rightarrow> string list \<Rightarrow> lex option" where
  "close_bracket b st ls = (if st \<noteq> [] \<and> hd st = b then Some (Lex Code (tl st) ls) else None)"

definition lex_code :: "char \<Rightarrow> char list \<Rightarrow> string list \<Rightarrow> lex option" where
  "lex_code c st ls =
     (if c = CHR 0x22 then Some (Lex (Literal []) st ls)
      else if c = CHR ''('' \<or> c = CHR ''['' \<or> c = CHR ''{'' then Some (Lex Code (c # st) ls)
      else if c = CHR '')'' then close_bracket (CHR ''('') st ls
      else if c = CHR '']'' then close_bracket (CHR ''['') st ls
      else if c = CHR ''}'' then close_bracket (CHR ''{'') st ls
      else Some (Lex Code st ls))"

fun lex_char :: "lex \<Rightarrow> char \<Rightarrow> lex option" where
  "lex_char (Lex Code st ls) c =
     (if c = CHR ''/'' then Some (Lex Slash st ls) else lex_code c st ls)"
| "lex_char (Lex Slash st ls) c =
     (if c = CHR ''/'' then Some (Lex LineComment st ls)
      else if c = CHR ''*'' then Some (Lex BlockComment st ls) else lex_code c st ls)"
| "lex_char (Lex LineComment st ls) c =
     Some (Lex (if c = CHR 0x0A then Code else LineComment) st ls)"
| "lex_char (Lex BlockComment st ls) c =
     Some (Lex (if c = CHR ''*'' then BlockStar else BlockComment) st ls)"
| "lex_char (Lex BlockStar st ls) c =
     Some (Lex (if c = CHR ''/'' then Code else if c = CHR ''*'' then BlockStar else BlockComment) st ls)"
| "lex_char (Lex (Literal a) st ls) c =
     (if c = CHR 0x22 then Some (Lex Code st (ls @ [a]))
      else if c = CHR 0x0A then None else Some (Lex (Literal (a @ [c])) st ls))"

fun lex_run :: "lex \<Rightarrow> string \<Rightarrow> lex option" where
  "lex_run s [] = Some s"
| "lex_run s (c # cs) = (case lex_char s c of None \<Rightarrow> None | Some s' \<Rightarrow> lex_run s' cs)"

text \<open>The literals of a text, \<open>None\<close> when it is ill-formed or leaves something open.\<close>

definition lex_text :: "string \<Rightarrow> string list option" where
  "lex_text t =
     (case lex_run (Lex Code [] []) t of
        Some (Lex Code [] ls) \<Rightarrow> Some ls
      | _ \<Rightarrow> None)"

text \<open>The literals that are method paths.\<close>

definition is_path :: "string \<Rightarrow> bool" where
  "is_path l \<longleftrightarrow> l \<noteq> [] \<and> hd l = CHR ''/''"

definition path_literals :: "string \<Rightarrow> string list option" where
  "path_literals t = map_option (filter is_path) (lex_text t)"

section \<open>Evaluating the lexer\<close>

named_theorems lex_eval

lemma lex_run_append:
  "lex_run s (a @ b) = (case lex_run s a of None \<Rightarrow> None | Some s' \<Rightarrow> lex_run s' b)"
  by (induction a arbitrary: s) (simp_all split: option.split)

lemma lex_unlines_Nil [lex_eval]: "lex_run s (unlines []) = Some s"
  by (simp add: unlines_def)

lemma lex_unlines_Cons [lex_eval]:
  "lex_run s (unlines (l # ls)) =
     (case lex_run s (l @ [CHR 0x0A]) of None \<Rightarrow> None | Some s' \<Rightarrow> lex_run s' (unlines ls))"
  by (simp add: unlines_def lex_run_append [symmetric])

lemma lex_unlines_append [lex_eval]:
  "lex_run s (unlines (a @ b)) =
     (case lex_run s (unlines a) of None \<Rightarrow> None | Some s' \<Rightarrow> lex_run s' (unlines b))"
  by (simp add: unlines_def lex_run_append [symmetric])

text \<open>
  The characters that are neither a bracket, a quote nor a slash, as one rewrite rule each and
  mode: the evaluation of a line is then one step per character.
\<close>

lemma lex_ordinary:
  "list_all (\<lambda>c. \<forall>st ls cs. lex_run (Lex Code st ls) (c # cs) = lex_run (Lex Code st ls) cs)
     (CHR 0x0A # CHR 0x27 # CHR 0x5C #
      '' !#$%&*+,-.0123456789:;<=>?@ABCDEFGHIJKLMNOPQRSTUVWXYZ^_`abcdefghijklmnopqrstuvwxyz|~'')"
  by (simp add: lex_code_def)

lemmas lex_ordinary_each [lex_eval] = lex_ordinary [unfolded list.pred_inject simp_thms]

lemma lex_code_rules [lex_eval]:
  "lex_run (Lex Code st ls) (CHR ''/'' # cs) = lex_run (Lex Slash st ls) cs"
  "lex_run (Lex Code st ls) (CHR 0x22 # cs) = lex_run (Lex (Literal []) st ls) cs"
  "lex_run (Lex Code st ls) (CHR ''('' # cs) = lex_run (Lex Code (CHR ''('' # st) ls) cs"
  "lex_run (Lex Code st ls) (CHR ''['' # cs) = lex_run (Lex Code (CHR ''['' # st) ls) cs"
  "lex_run (Lex Code st ls) (CHR ''{'' # cs) = lex_run (Lex Code (CHR ''{'' # st) ls) cs"
  "lex_run (Lex Code (CHR ''('' # st) ls) (CHR '')'' # cs) = lex_run (Lex Code st ls) cs"
  "lex_run (Lex Code (CHR ''['' # st) ls) (CHR '']'' # cs) = lex_run (Lex Code st ls) cs"
  "lex_run (Lex Code (CHR ''{'' # st) ls) (CHR ''}'' # cs) = lex_run (Lex Code st ls) cs"
  by (simp_all add: lex_code_def close_bracket_def)

lemma lex_mode_rules [lex_eval]:
  "lex_run (Lex Slash st ls) (CHR ''/'' # cs) = lex_run (Lex LineComment st ls) cs"
  "lex_run (Lex Slash st ls) (CHR ''*'' # cs) = lex_run (Lex BlockComment st ls) cs"
  "c \<noteq> CHR ''/'' \<Longrightarrow> c \<noteq> CHR ''*'' \<Longrightarrow>
     lex_run (Lex Slash st ls) (c # cs) = lex_run (Lex Code st ls) (c # cs)"
  "lex_run (Lex LineComment st ls) (c # cs) =
     lex_run (Lex (if c = CHR 0x0A then Code else LineComment) st ls) cs"
  "lex_run (Lex BlockComment st ls) (c # cs) =
     lex_run (Lex (if c = CHR ''*'' then BlockStar else BlockComment) st ls) cs"
  "lex_run (Lex BlockStar st ls) (CHR ''/'' # cs) = lex_run (Lex Code st ls) cs"
  "lex_run (Lex BlockStar st ls) (CHR '' '' # cs) = lex_run (Lex BlockComment st ls) cs"
  "lex_run (Lex (Literal a) st ls) (c # cs) =
     (if c = CHR 0x22 then lex_run (Lex Code st (ls @ [a])) cs
      else if c = CHR 0x0A then None else lex_run (Lex (Literal (a @ [c])) st ls) cs)"
  by simp_all

lemma lex_Nil [lex_eval]: "lex_run s [] = Some s"
  by simp

text \<open>
  Names from the descriptors: what has no bracket, quote, slash, star or line end leaves every mode
  as it is.
\<close>

definition special :: "string" where
  "special = CHR 0x22 # CHR 0x0A # ''/*()[]{}''"

definition plain :: "string \<Rightarrow> bool" where
  "plain s \<longleftrightarrow> list_all (\<lambda>c. c \<notin> set special) s"

lemma plain_append [simp]: "plain (a @ b) \<longleftrightarrow> plain a \<and> plain b"
  by (simp add: plain_def)

lemma plain_Nil [simp]: "plain []"
  by (simp add: plain_def)

lemma plain_Cons [simp]: "plain (c # s) \<longleftrightarrow> c \<notin> set special \<and> plain s"
  by (simp add: plain_def)

lemma plain_concat: "plain (concat ss) \<longleftrightarrow> list_all plain ss"
  by (induction ss) simp_all

lemma plain_join [simp]: "list_all plain ps \<Longrightarrow> plain d \<Longrightarrow> plain (join_with d ps)"
  by (induction d ps rule: join_with.induct) simp_all

lemma split_on_neq_Nil: "split_on d s \<noteq> []"
  by (induction s) (auto split: list.split)

lemma split_on_chars: "p \<in> set (split_on d s) \<Longrightarrow> set p \<subseteq> set s"
  by (induction s arbitrary: p) (auto split: if_splits list.splits, blast+)

lemma plain_subset: "plain s \<Longrightarrow> set t \<subseteq> set s \<Longrightarrow> plain t"
  by (auto simp: plain_def list_all_iff)

lemma plain_split_on [simp]: "plain s \<Longrightarrow> list_all plain (split_on d s)"
  using plain_subset split_on_chars by (fastforce simp: list_all_iff)

lemma plain_dots [simp]: "plain s \<Longrightarrow> plain (dots_to_underscores s)"
  by (auto simp: plain_def dots_to_underscores_def list_all_iff special_def)

lemma plain_trim_start [simp]: "plain s \<Longrightarrow> plain (trim_start_char d s)"
  unfolding trim_start_char_def by (rule plain_subset) (auto dest: set_dropWhileD)

lemma set_trim_start_colons: "set (trim_start_colons s) \<subseteq> set s"
  by (induction s rule: trim_start_colons.induct) auto

lemma plain_trim_colons [simp]: "plain s \<Longrightarrow> plain (trim_start_colons s)"
  using plain_subset set_trim_start_colons by blast

lemma lex_plain [lex_eval]:
  assumes "plain s"
  shows "lex_run (Lex Code st ls) (s @ r) = lex_run (Lex Code st ls) r"
    and "lex_run (Lex LineComment st ls) (s @ r) = lex_run (Lex LineComment st ls) r"
    and "lex_run (Lex BlockComment st ls) (s @ r) = lex_run (Lex BlockComment st ls) r"
    and "lex_run (Lex (Literal a) st ls) (s @ r) = lex_run (Lex (Literal (a @ s)) st ls) r"
  using assms
  by (induction s arbitrary: a) (simp_all add: special_def lex_code_def)

lemma lex_comment_tail [lex_eval]:
  "CHR 0x0A \<notin> set s \<Longrightarrow> lex_run (Lex LineComment st ls) (s @ r) = lex_run (Lex LineComment st ls) r"
  by (induction s) auto

declare lex_run.simps [simp del]

text \<open>File names may also contain slashes; they stand in comments and literals only.\<close>

definition quotable :: "string \<Rightarrow> bool" where
  "quotable s \<longleftrightarrow> CHR 0x22 \<notin> set s \<and> CHR 0x0A \<notin> set s"

lemma quotable_append [simp]: "quotable (a @ b) \<longleftrightarrow> quotable a \<and> quotable b"
  by (auto simp: quotable_def)

lemma quotable_Nil [simp]: "quotable []"
  by (simp add: quotable_def)

lemma quotable_Cons [simp]: "quotable (c # s) \<longleftrightarrow> c \<noteq> CHR 0x22 \<and> c \<noteq> CHR 0x0A \<and> quotable s"
  by (auto simp: quotable_def)

lemma plain_quotable [simp]: "plain s \<Longrightarrow> quotable s"
  by (auto simp: plain_def list_all_iff special_def quotable_def)

lemma lex_quotable [lex_eval]:
  assumes "quotable s"
  shows "lex_run (Lex LineComment st ls) (s @ r) = lex_run (Lex LineComment st ls) r"
    and "lex_run (Lex (Literal a) st ls) (s @ r) = lex_run (Lex (Literal (a @ s)) st ls) r"
  using assms by (induction s arbitrary: a) (simp_all add: lex_mode_rules)

section \<open>Well-formed pieces of text\<close>

text \<open>Lines that are complete in themselves and contain exactly the given literals.\<close>

definition emits :: "string list \<Rightarrow> string list \<Rightarrow> bool" where
  "emits lines lits \<longleftrightarrow>
     (\<forall>st ls. lex_run (Lex Code st ls) (unlines lines) = Some (Lex Code st (ls @ lits)))"

lemma emits_run [lex_eval]:
  "emits lines lits \<Longrightarrow> lex_run (Lex Code st ls) (unlines lines) = Some (Lex Code st (ls @ lits))"
  by (simp add: emits_def)

lemma emits_Nil [simp]: "emits [] []"
  by (simp add: emits_def lex_unlines_append lex_unlines_Nil)

lemma emits_append: "emits a la \<Longrightarrow> emits b lb \<Longrightarrow> emits (a @ b) (la @ lb)"
  by (simp add: emits_def lex_unlines_append lex_unlines_Nil)

lemma emits_concat:
  "(\<And>x. x \<in> set xs \<Longrightarrow> emits (f x) (g x)) \<Longrightarrow> emits (concat (map f xs)) (concat (map g xs))"
  by (induction xs) (simp_all add: emits_append)

lemma emits_concat_none:
  "(\<And>x. x \<in> set xs \<Longrightarrow> emits (f x) []) \<Longrightarrow> emits (concat (map f xs)) []"
  by (induction xs) (use emits_append [of _ "[]" _ "[]"] in auto)

lemma emits_concat_each:
  "(\<And>x. x \<in> set xs \<Longrightarrow> emits (f x) [g x]) \<Longrightarrow> emits (concat (map f xs)) (map g xs)"
  using emits_append by (induction xs) fastforce+

lemma emits_lex_text: "emits lines lits \<Longrightarrow> lex_text (unlines lines) = Some lits"
  by (simp add: emits_def lex_text_def)

end
