(* ===== verification/Plugin_Names.thy ===== *)
theory Plugin_Names
  imports Codegen_Text
begin

text \<open>
  The plugin \<open>protoc-gen-grpcudspp\<close>, first part: the descriptors protoc hands it, the functions
  that turn protobuf names into C and C++ ones, and the chainable setters of the C++ mode.
\<close>

section \<open>Descriptors\<close>

record method_desc =
  md_name :: string
  md_input :: string
  md_output :: string
  md_client_streaming :: bool
  md_server_streaming :: bool

record service_desc =
  sd_name :: string
  sd_methods :: "method_desc list"

datatype field_label = LabelOptional | LabelRequired | LabelRepeated

datatype field_type =
    TyDouble | TyFloat | TyInt64 | TyUint64 | TyInt32 | TyFixed64 | TyFixed32 | TyBool | TyString
  | TyGroup | TyMessage | TyBytes | TyUint32 | TyEnum | TySfixed32 | TySfixed64 | TySint32 | TySint64

record field_desc =
  fd_name :: string
  fd_label :: field_label
  fd_type :: field_type
  fd_type_name :: string

datatype message_desc =
  MessageDesc (msg_name: string) (msg_fields: "field_desc list") (msg_nested: "message_desc list")
    (msg_map_entry: bool)

record file_desc =
  fl_name :: string
  fl_package :: string
  fl_messages :: "message_desc list"
  fl_services :: "service_desc list"

record response_file =
  rf_name :: string
  rf_content :: string

section \<open>Names\<close>

definition c_type :: "string \<Rightarrow> string" where
  "c_type proto_ref = dots_to_underscores (trim_start_char (CHR ''.'') proto_ref)"

definition qualified_type :: "string \<Rightarrow> string" where
  "qualified_type proto_ref = ''::'' @ dots_to_underscores (trim_start_char (CHR ''.'') proto_ref)"

definition message_c_type :: "string \<Rightarrow> string list \<Rightarrow> string" where
  "message_c_type pkg path =
     ''::'' @ join_with ''_'' ((if pkg \<noteq> [] then split_on (CHR ''.'') pkg else []) @ path)"

definition guard_for :: "string \<Rightarrow> string" where
  "guard_for name =
     map (\<lambda>c. if is_ascii_alphanumeric c then to_ascii_uppercase c else CHR ''_'')
       (filter (\<lambda>c. \<not> utf8_continuation c) name) @ ''_''"

fun scalar_c_type :: "field_type \<Rightarrow> string option" where
  "scalar_c_type TyBool = Some ''bool''"
| "scalar_c_type TyInt32 = Some ''int32_t''"
| "scalar_c_type TySint32 = Some ''int32_t''"
| "scalar_c_type TySfixed32 = Some ''int32_t''"
| "scalar_c_type TyUint32 = Some ''uint32_t''"
| "scalar_c_type TyFixed32 = Some ''uint32_t''"
| "scalar_c_type TyInt64 = Some ''int64_t''"
| "scalar_c_type TySint64 = Some ''int64_t''"
| "scalar_c_type TySfixed64 = Some ''int64_t''"
| "scalar_c_type TyUint64 = Some ''uint64_t''"
| "scalar_c_type TyFixed64 = Some ''uint64_t''"
| "scalar_c_type TyFloat = Some ''float''"
| "scalar_c_type TyDouble = Some ''double''"
| "scalar_c_type _ = None"

text \<open>The full name of a service and the path of a method, as every emitter computes them.\<close>

definition full_name :: "string \<Rightarrow> string \<Rightarrow> string" where
  "full_name pkg svc_name = (if pkg = [] then svc_name else pkg @ ''.'' @ svc_name)"

definition method_path :: "string \<Rightarrow> string \<Rightarrow> string" where
  "method_path full name = ''/'' @ full @ ''/'' @ name"

text \<open>The response types of one flavour, each once, in the order of their first use.\<close>

definition add_unique :: "string \<Rightarrow> string list \<Rightarrow> string list" where
  "add_unique t out = (if t \<in> set out then out else out @ [t])"

definition collect_resp_types :: "service_desc list \<Rightarrow> bool \<Rightarrow> string list" where
  "collect_resp_types svcs streaming =
     fold (\<lambda>svc. fold (\<lambda>m out.
         if md_server_streaming m = streaming then add_unique (qualified_type (md_output m)) out else out)
       (sd_methods svc)) svcs []"

section \<open>Setters\<close>

definition field_setter :: "string \<Rightarrow> field_desc \<Rightarrow> string list option" where
  "field_setter wrap f =
     (let fname = fd_name f; setter = ''set_'' @ fname
      in if fd_label f = LabelRepeated then None
         else case fd_type f of
           TyString \<Rightarrow> Some [
             ''    '' @ wrap @ ''& '' @ setter @ ''(const char* v) {'',
             ''        std::strncpy(m_.'' @ fname @ '', v, sizeof(m_.'' @ fname @ '') - 1);'',
             ''        m_.'' @ fname @ ''[sizeof(m_.'' @ fname @ '') - 1] = '' @ SQ @ BSL @
               ''0'' @ SQ @ '';'',
             ''        return *this;'',
             ''    }'']
         | TyBytes \<Rightarrow> Some [
             ''    '' @ wrap @ ''& '' @ setter @ ''(const void* p, std::size_t n) {'',
             ''        std::size_t cap = sizeof(m_.'' @ fname @ ''.bytes);'',
             ''        if (n > cap) n = cap;'',
             ''        std::memcpy(m_.'' @ fname @ ''.bytes, p, n);'',
             ''        m_.'' @ fname @ ''.size = (pb_size_t)n;'',
             ''        return *this;'',
             ''    }'']
         | TyMessage \<Rightarrow> None
         | TyGroup \<Rightarrow> None
         | TyEnum \<Rightarrow> (let ctype = qualified_type (fd_type_name f) in Some [
             ''    '' @ wrap @ ''& '' @ setter @ ''('' @ ctype @ '' v) { m_.'' @ fname @
               '' = v; return *this; }''])
         | other \<Rightarrow>
            (case scalar_c_type other of
               None \<Rightarrow> None
             | Some ctype \<Rightarrow> Some [
             ''    '' @ wrap @ ''& '' @ setter @ ''('' @ ctype @ '' v) { m_.'' @ fname @
               '' = v; return *this; }'']))"

definition mutator_class :: "string \<Rightarrow> string \<Rightarrow> string list \<Rightarrow> string list" where
  "mutator_class wrap ctype body =
     (if body = [] then []
      else [
        ''class '' @ wrap @ '' {'',
        '' public:'',
        ''    explicit '' @ wrap @ ''('' @ ctype @ ''& m) : m_(m) {}'']
        @ body @ [
        '' private:'',
        ''    '' @ ctype @ ''& m_;'',
        ''};'',
        blank])"

fun write_one_mutator :: "string \<Rightarrow> string list \<Rightarrow> message_desc \<Rightarrow> string list" where
  "write_one_mutator pkg parents (MessageDesc name flds nested map_entry) =
     (if map_entry then []
      else
        let path = parents @ [name];
            wrap = join_with ''_'' path @ ''Mut'';
            ctype = message_c_type pkg path;
            body = concat (map (\<lambda>f. case field_setter wrap f of Some ls \<Rightarrow> ls | None \<Rightarrow> []) flds)
        in mutator_class wrap ctype body @ concat (map (write_one_mutator pkg path) nested))"

section \<open>Names and setters in the generated text\<close>

text \<open>
  What protoc guarantees of the names: identifiers and dotted names have none of the characters
  that mean something to the lexer. A file name may contain slashes, but is relative.
\<close>

definition plain_method :: "method_desc \<Rightarrow> bool" where
  "plain_method m \<longleftrightarrow> plain (md_name m) \<and> plain (md_input m) \<and> plain (md_output m)"

definition plain_service :: "service_desc \<Rightarrow> bool" where
  "plain_service svc \<longleftrightarrow> plain (sd_name svc) \<and> list_all plain_method (sd_methods svc)"

definition plain_field :: "field_desc \<Rightarrow> bool" where
  "plain_field f \<longleftrightarrow> plain (fd_name f) \<and> plain (fd_type_name f)"

fun plain_message :: "message_desc \<Rightarrow> bool" where
  "plain_message (MessageDesc name flds nested _) \<longleftrightarrow>
     plain name \<and> list_all plain_field flds \<and> list_all plain_message nested"

definition plain_file :: "file_desc \<Rightarrow> bool" where
  "plain_file f \<longleftrightarrow>
     quotable (fl_name f) \<and> \<not> is_path (fl_name f) \<and> plain (fl_package f)
     \<and> list_all plain_message (fl_messages f) \<and> list_all plain_service (fl_services f)"

lemma plain_names [simp]:
  "plain t \<Longrightarrow> plain (c_type t)"
  "plain t \<Longrightarrow> plain (qualified_type t)"
  "plain pkg \<Longrightarrow> list_all plain path \<Longrightarrow> plain (message_c_type pkg path)"
  "plain pkg \<Longrightarrow> plain svc \<Longrightarrow> plain (full_name pkg svc)"
  "plain full \<Longrightarrow> plain name \<Longrightarrow> quotable (method_path full name)"
  by (simp_all add: c_type_def qualified_type_def message_c_type_def full_name_def method_path_def
      special_def)

lemma is_path_method_path [simp]: "is_path (method_path full name)"
  by (simp add: is_path_def method_path_def)

lemma is_path_simps [simp]: "\<not> is_path []" "is_path (c # s) \<longleftrightarrow> c = CHR ''/''"
  by (simp_all add: is_path_def)

lemma plain_not_path [simp]: "plain s \<Longrightarrow> \<not> is_path s"
  by (cases s) (auto simp: special_def)

text \<open>The paths of a file's methods, in order.\<close>

definition service_paths :: "string \<Rightarrow> service_desc \<Rightarrow> string list" where
  "service_paths pkg svc =
     map (\<lambda>m. method_path (full_name pkg (sd_name svc)) (md_name m)) (sd_methods svc)"

definition file_paths :: "file_desc \<Rightarrow> string list" where
  "file_paths f = concat (map (service_paths (fl_package f)) (fl_services f))"

lemma filter_file_paths [simp]: "filter is_path (file_paths f) = file_paths f"
  by (auto simp: file_paths_def service_paths_def)

lemma base_not_path:
  assumes "plain_file f" and "strip_suffix ''.proto'' (fl_name f) = Some base" and "plain ext"
  shows "quotable base \<and> \<not> is_path (base @ ext)"
  using assms by (cases base) (auto simp: strip_suffix_Some plain_file_def)

lemma byte_of_upper: "byte_of (to_ascii_uppercase c) = (if is_ascii_lowercase c then byte_of c - 32 else byte_of c)"
  by (auto simp: to_ascii_uppercase_def is_ascii_lowercase_def byte_of_def)

lemma special_bytes: "c \<in> set special \<Longrightarrow> byte_of c \<in> {10, 34, 40, 41, 42, 47, 91, 93, 123, 125}"
  by (auto simp: special_def byte_of_def)

lemma upper_not_special: "is_ascii_alphanumeric c \<Longrightarrow> to_ascii_uppercase c \<notin> set special"
  using special_bytes [of "to_ascii_uppercase c"]
  by (auto simp: byte_of_upper is_ascii_alphanumeric_def is_ascii_uppercase_def
      is_ascii_lowercase_def is_ascii_digit_def)

lemma plain_guard [simp]: "plain (guard_for name)"
  using upper_not_special by (auto simp: guard_for_def plain_def list_all_iff special_def)

lemma field_setter_emits:
  assumes "plain wrap" and "plain_field f"
  shows "emits (case field_setter wrap f of Some ls \<Rightarrow> ls | None \<Rightarrow> []) []"
  unfolding emits_def using assms
  by (cases "fd_label f = LabelRepeated"; cases "fd_type f")
    (simp_all add: field_setter_def Let_def plain_field_def lex_eval)

lemma mutator_class_emits:
  assumes "plain wrap" and "plain ctype" and "emits body []"
  shows "emits (mutator_class wrap ctype body) []"
  unfolding emits_def using assms by (simp add: mutator_class_def lex_eval)

lemma write_one_mutator_emits:
  assumes "plain pkg" and "list_all plain parents" and "plain_message d"
  shows "emits (write_one_mutator pkg parents d) []"
  using assms
proof (induction pkg parents d rule: write_one_mutator.induct)
  case (1 pkg parents name flds nested map_entry)
  let ?path = "parents @ [name]" let ?wrap = "join_with ''_'' ?path @ ''Mut''"
  let ?body = "concat (map (\<lambda>f. case field_setter ?wrap f of Some ls \<Rightarrow> ls | None \<Rightarrow> []) flds)"
  have wrap: "plain ?wrap" and ctype: "plain (message_c_type pkg ?path)"
    using "1.prems" by (simp_all add: special_def)
  have "emits ?body []"
    using "1.prems" field_setter_emits [OF wrap]
    by (intro emits_concat_none) (simp add: list_all_iff)
  moreover have "emits (concat (map (write_one_mutator pkg ?path) nested)) []" if "\<not> map_entry"
    using "1.IH" [OF that] "1.prems" by (intro emits_concat_none) (auto simp: list_all_iff)
  ultimately show ?case
    using emits_append [OF mutator_class_emits [OF wrap ctype]] by (auto simp: Let_def)
qed

text \<open>
  The response types are collected without repetition: the qualified output types of the methods of
  that flavour, each where it occurs first.
\<close>

definition flavour_types :: "service_desc list \<Rightarrow> bool \<Rightarrow> string list" where
  "flavour_types svcs streaming =
     map (\<lambda>m. qualified_type (md_output m))
       (filter (\<lambda>m. md_server_streaming m = streaming) (concat (map sd_methods svcs)))"

lemma fold_add_unique: "distinct acc \<Longrightarrow>
    distinct (fold add_unique ts acc) \<and> set (fold add_unique ts acc) = set acc \<union> set ts"
  by (induction ts arbitrary: acc) (auto simp: add_unique_def)

lemma collect_flavour:
  "collect_resp_types svcs streaming = fold add_unique (flavour_types svcs streaming) []"
proof -
  have one: "fold (\<lambda>m out. if md_server_streaming m = streaming
        then add_unique (qualified_type (md_output m)) out else out) ms acc
      = fold add_unique (map (\<lambda>m. qualified_type (md_output m))
          (filter (\<lambda>m. md_server_streaming m = streaming) ms)) acc" for ms acc
    by (induction ms arbitrary: acc) auto
  have "fold (\<lambda>svc. fold (\<lambda>m out. if md_server_streaming m = streaming
        then add_unique (qualified_type (md_output m)) out else out) (sd_methods svc)) svcs acc
      = fold add_unique (flavour_types svcs streaming) acc" for acc
    by (induction svcs arbitrary: acc) (simp_all add: one flavour_types_def)
  then show ?thesis by (simp add: collect_resp_types_def)
qed

lemma collect_resp_types_set:
  "distinct (collect_resp_types svcs streaming)"
  "set (collect_resp_types svcs streaming) = set (flavour_types svcs streaming)"
  using fold_add_unique [of "[]" "flavour_types svcs streaming"] by (simp_all add: collect_flavour)

lemma collect_plain: "list_all plain_service svcs \<Longrightarrow> list_all plain (collect_resp_types svcs streaming)"
  by (auto simp: collect_resp_types_set flavour_types_def list_all_iff plain_service_def plain_method_def)

text \<open>The two ways to name a message's C struct agree.\<close>

lemma join_split_on: "join_with ''_'' (split_on (CHR ''.'') s) = dots_to_underscores s"
proof (induction s)
  case (Cons c s)
  obtain p ps where "split_on (CHR ''.'') s = p # ps"
    using split_on_neq_Nil [of "CHR ''.''" s] by (meson neq_Nil_conv)
  with Cons show ?case by (cases ps) (auto simp: dots_to_underscores_def)
qed (simp add: dots_to_underscores_def)

lemma join_append:
  "xs \<noteq> [] \<Longrightarrow> ys \<noteq> [] \<Longrightarrow> join_with d (xs @ ys) = join_with d xs @ d @ join_with d ys"
proof (induction d xs rule: join_with.induct)
  case (2 d p)
  then show ?case by (cases ys) simp_all
qed simp_all

lemma dots_join:
  "list_all (\<lambda>p. CHR ''.'' \<notin> set p) ps \<Longrightarrow> dots_to_underscores (join_with ''.'' ps) = join_with ''_'' ps"
proof (induction ps rule: induct_list012)
  case (2 p)
  then show ?case by (auto simp: dots_to_underscores_def intro: map_idI)
next
  case (3 p q ps)
  then show ?case by (auto simp: dots_to_underscores_def intro!: map_idI)
qed (simp add: dots_to_underscores_def)

text \<open>protoc rejects two services of a file, or two methods of a service, with the same name.\<close>

definition unique_names :: "file_desc \<Rightarrow> bool" where
  "unique_names f \<longleftrightarrow>
     distinct (map sd_name (fl_services f))
     \<and> list_all (\<lambda>svc. distinct (map md_name (sd_methods svc))) (fl_services f)"

lemma plain_no_slash: "plain s \<Longrightarrow> takeWhile (\<lambda>c. c \<noteq> CHR ''/'') (s @ CHR ''/'' # t) = s"
  by (induction s) (auto simp: special_def)

lemma method_path_inj:
  assumes "plain full" and "plain full'" and "method_path full n = method_path full' n'"
  shows "full = full' \<and> n = n'"
  using assms plain_no_slash [of full n] plain_no_slash [of full' n'] by (simp add: method_path_def)

lemma file_paths_distinct:
  assumes "plain_file f" and "unique_names f"
  shows "distinct (file_paths f)"
proof -
  have pkg: "plain (fl_package f)" using assms(1) by (simp add: plain_file_def)
  have "distinct (concat (map (service_paths (fl_package f)) svcs))"
    if "distinct (map sd_name svcs)" and "list_all (\<lambda>svc. distinct (map md_name (sd_methods svc))) svcs"
      and "list_all plain_service svcs" for svcs
    using that
  proof (induction svcs)
    case (Cons svc svcs)
    let ?full = "\<lambda>svc. full_name (fl_package f) (sd_name svc)"
    have same: "svc' = svc'' \<or> sd_name svc' = sd_name svc''" if "?full svc' = ?full svc''" for svc' svc''
      using that by (auto simp: full_name_def split: if_splits)
    have own: "distinct (service_paths (fl_package f) svc)"
      using Cons.prems(2) by (simp add: service_paths_def distinct_map inj_on_def method_path_def)
    have "p \<notin> set (service_paths (fl_package f) svc')"
      if "p \<in> set (service_paths (fl_package f) svc)" and "svc' \<in> set svcs" for p svc'
    proof
      assume "p \<in> set (service_paths (fl_package f) svc')"
      with that obtain n n' where "method_path (?full svc) n = method_path (?full svc') n'"
        by (auto simp: service_paths_def)
      with method_path_inj [of "?full svc" "?full svc'"] pkg Cons.prems(3) that(2)
      have "?full svc = ?full svc'" by (auto simp: plain_service_def list_all_iff)
      with same [of svc svc'] Cons.prems(1) that(2) show False by force
    qed
    with own Cons show ?case by auto
  qed simp
  with assms show ?thesis by (simp add: unique_names_def plain_file_def file_paths_def)
qed

section \<open>Properties\<close>

text \<open>
  The setters work on the struct the stubs use: the C struct \<open>message_c_type\<close> names for a message
  of the file, at a path of nested message names, is the type \<open>qualified_type\<close> names for a reference
  to that message, which protoc writes as the package and the path with a leading dot.
\<close>

lemma struct_names_agree:
  assumes "path \<noteq> []" and "list_all (\<lambda>p. p \<noteq> [] \<and> CHR ''.'' \<notin> set p) path"
    and "pkg = [] \<or> hd pkg \<noteq> CHR ''.''"
  shows "message_c_type pkg path
    = qualified_type (''.'' @ (if pkg = [] then [] else pkg @ ''.'') @ join_with ''.'' path)"
proof -
  obtain p ps where path: "path = p # ps" using assms(1) by (cases path) auto
  then have "hd (join_with ''.'' path) \<noteq> CHR ''.''" and "join_with ''.'' path \<noteq> []"
    using assms(2) by (cases ps; cases p; auto)+
  then have "trim_start_char (CHR ''.'') (''.'' @ (if pkg = [] then [] else pkg @ ''.'') @ join_with ''.'' path)
      = (if pkg = [] then [] else pkg @ ''.'') @ join_with ''.'' path"
    using assms(3) by (cases pkg; cases "join_with ''.'' path") (auto simp: trim_start_char_def)
  moreover have "dots_to_underscores (join_with ''.'' path) = join_with ''_'' path"
    using assms(2) by (intro dots_join) (auto simp: list_all_iff)
  moreover have "join_with ''_'' (split_on (CHR ''.'') pkg @ path)
      = dots_to_underscores pkg @ ''_'' @ join_with ''_'' path"
    using assms(1) by (simp add: join_append split_on_neq_Nil join_split_on)
  ultimately show ?thesis
    by (auto simp: message_c_type_def qualified_type_def dots_to_underscores_def)
qed

end
