(* ===== verification/Plugin_C.thy ===== *)
theory Plugin_C
  imports Plugin_Names
begin

text \<open>
  The plugin \<open>protoc-gen-grpcudspp\<close>, C mode: \<open>generate_file_c\<close> and \<open>write_c_service\<close>, loop by loop.
  An emitter returns the lines its \<open>writeln!\<close> calls append, for the header and for the source.
\<close>

section \<open>Rejected methods\<close>

definition C_RESERVED :: "string list" where
  "C_RESERVED = [
    ''auto'', ''break'', ''case'', ''char'', ''const'', ''continue'', ''default'', ''do'',
    ''double'', ''else'', ''enum'', ''extern'', ''float'', ''for'', ''goto'', ''if'',
    ''inline'', ''int'', ''long'', ''register'', ''restrict'', ''return'', ''short'',
    ''signed'', ''sizeof'', ''static'', ''struct'', ''switch'', ''typedef'', ''union'',
    ''unsigned'', ''void'', ''volatile'', ''while'', ''_Bool'', ''_Atomic'', ''_Complex'',
    ''_Imaginary'', ''_Generic'', ''_Noreturn'', ''_Static_assert'', ''_Thread_local'',
    ''_Alignas'', ''_Alignof'', ''bool'', ''true'', ''false'', ''NULL'', ''user_data'',
    ''service'']"

definition c_method_error :: "method_desc \<Rightarrow> string option" where
  "c_method_error m =
     (let name = md_name m
      in if md_client_streaming m
         then Some (''method '' @ name @ '': client-streaming RPCs are not supported'')
         else if name \<in> set C_RESERVED \<or> starts_with ''_'' name
         then Some (''method '' @ name @
           '': the name is reserved in the generated C surface (C keyword, standard macro, '' @
           ''leading underscore, or generator-occupied identifier)'')
         else None)"

text \<open>The loop with its early return: the first error.\<close>

fun c_methods_error :: "method_desc list \<Rightarrow> string option" where
  "c_methods_error [] = None"
| "c_methods_error (m # ms) = (case c_method_error m of Some e \<Rightarrow> Some e | None \<Rightarrow> c_methods_error ms)"

section \<open>The service table\<close>

definition c_table_method :: "string \<Rightarrow> method_desc \<Rightarrow> string list" where
  "c_table_method pre m =
     (let name = md_name m; req = c_type (md_input m); resp = c_type (md_output m)
      in blank #
        (if md_server_streaming m then [
          ''    /* Server-streaming '' @ name @ '': push messages with'',
          ''     * '' @ pre @ ''_'' @ name @ ''_send() (I/O thread; see docs/THREADING.md for'',
          ''     * producer threads), end with '' @ pre @ ''_'' @ name @ ''_finish(). Return'',
          ''     * GRPCUDS_OK to keep the stream open; any other status finishes'',
          ''     * the call with it. NULL = method not registered. */'',
          ''    int ('' @ ''*'' @ name @ '')(grpcuds_call_ref ref, const '' @ req @ ''* req,'',
          ''                  void* user_data);'']
         else [
          ''    /* Unary '' @ name @ '': fill `resp`, return GRPCUDS_OK. Any other gRPC'',
          ''     * status finishes the call with that status instead. Return'',
          ''     * GRPCUDS_HANDLER_DEFERRED to keep the call open and complete it'',
          ''     * later with '' @ pre @ ''_'' @ name @ ''_respond() or grpcuds_call_finish().'',
          ''     * NULL = method not registered. */'',
          ''    int ('' @ ''*'' @ name @ '')(grpcuds_call_ref ref, const '' @ req @ ''* req, ''
            @ resp @ ''* resp,'',
          ''                  void* user_data);'']))"

definition c_table :: "string \<Rightarrow> string \<Rightarrow> method_desc list \<Rightarrow> string list" where
  "c_table full pre ms = [
      ''/* ==== '' @ full @ '' : server ==================================== */'',
      blank,
      ''typedef struct '' @ pre @ ''_service {'',
      ''    /* Handed back to every handler below. */'',
      ''    void* user_data;'']
    @ concat (map (c_table_method pre) ms) @ [
      ''} '' @ pre @ ''_service;'',
      blank,
      ''/* Register every non-NULL handler on `s`. `svc` must outlive the server'',
      '' * (a static or main-scope struct). 0, or the first register failure. */'',
      ''int '' @ pre @ ''_register(grpcuds_server* s, const '' @ pre @ ''_service* svc);'',
      blank]"

section \<open>Server-side helpers\<close>

definition c_helper :: "string \<Rightarrow> method_desc \<Rightarrow> string list" where
  "c_helper pre m =
     (let name = md_name m; resp = c_type (md_output m)
      in if md_server_streaming m then [
          ''/* Encode + queue one '' @ resp @ '' on the open '' @ name @ '' stream. */'',
          ''static inline int '' @ pre @ ''_'' @ name @ ''_send(grpcuds_call_ref ref,'',
          ''                                       const '' @ resp @ ''* msg) {'',
          ''    uint8_t buf[GRPCUDSC_MAX_MESSAGE_SIZE];'',
          ''    pb_ostream_t os = pb_ostream_from_buffer(buf, sizeof(buf));'',
          ''    if (!pb_encode(&os, '' @ resp @ ''_fields, msg)) return GRPCUDS_ERR_CODEC;'',
          ''    return grpcuds_call_write(ref.call, ref.call_id, buf, os.bytes_written);'',
          ''}'',
          blank,
          ''/* End the '' @ name @ '' stream with a gRPC status. */'',
          ''static inline int '' @ pre @ ''_'' @ name @
            ''_finish(grpcuds_call_ref ref, int status) {'',
          ''    return grpcuds_call_finish(ref.call, ref.call_id, status);'',
          ''}'',
          blank]
         else [
          ''/* Complete a deferred unary '' @ name @ '': encode + write + finish OK. */'',
          ''static inline int '' @ pre @ ''_'' @ name @ ''_respond(grpcuds_call_ref ref,'',
          ''                                          const '' @ resp @ ''* resp) {'',
          ''    uint8_t buf[GRPCUDSC_MAX_MESSAGE_SIZE];'',
          ''    pb_ostream_t os = pb_ostream_from_buffer(buf, sizeof(buf));'',
          ''    if (!pb_encode(&os, '' @ resp @ ''_fields, resp)) return GRPCUDS_ERR_CODEC;'',
          ''    int rc = grpcuds_call_write(ref.call, ref.call_id, buf, os.bytes_written);'',
          ''    if (rc != 0) return rc;'',
          ''    return grpcuds_call_finish(ref.call, ref.call_id, GRPCUDS_OK);'',
          ''}'',
          blank])"

section \<open>Client wrappers\<close>

definition c_stream_start :: "string \<Rightarrow> string \<Rightarrow> method_desc \<Rightarrow> string list" where
  "c_stream_start full pre m =
     (let name = md_name m; req = c_type (md_input m); path = method_path full name
      in [
        ''/* Open the '' @ name @ '' stream. NULL on encode/transport failure. */'',
        ''static inline grpcuds_stream* '' @ pre @ ''_'' @ name @ ''_start(grpcuds_client* c,'',
        ''                                                    const '' @ req @ ''* req) {'',
        ''    uint8_t buf[GRPCUDSC_MAX_MESSAGE_SIZE];'',
        ''    pb_ostream_t os = pb_ostream_from_buffer(buf, sizeof(buf));'',
        ''    if (!pb_encode(&os, '' @ req @ ''_fields, req)) return NULL;'',
        ''    return grpcuds_client_server_streaming(c, '' @ DQ @ path @ DQ @
          '', buf, os.bytes_written);'',
        ''}'',
        blank])"

definition c_stream_next :: "string \<Rightarrow> method_desc \<Rightarrow> string list" where
  "c_stream_next pre m =
     (let name = md_name m; resp = c_type (md_output m)
      in [
        ''/* 1 = a message was decoded into `out`; 0 = stream end (check'',
        '' * grpcuds_stream_status); GRPCUDS_ERR_CODEC on a decode failure. */'',
        ''static inline int '' @ pre @ ''_'' @ name @ ''_next(grpcuds_stream* s, '' @ resp @
          ''* out) {'',
        ''    size_t len = 0;'',
        ''    const uint8_t* bytes = grpcuds_stream_next(s, &len);'',
        ''    if (!bytes) return 0;'',
        ''    '' @ resp @ '' zero = '' @ resp @ ''_init_zero;'',
        ''    *out = zero;'',
        ''    pb_istream_t is = pb_istream_from_buffer(bytes, len);'',
        ''    return pb_decode(&is, '' @ resp @ ''_fields, out) ? 1 : GRPCUDS_ERR_CODEC;'',
        ''}'',
        blank])"

definition c_unary_call :: "string \<Rightarrow> string \<Rightarrow> method_desc \<Rightarrow> string list" where
  "c_unary_call full pre m =
     (let name = md_name m; req = c_type (md_input m); resp = c_type (md_output m);
          path = method_path full name
      in [
        ''/* Unary '' @ name @ ''. Returns the gRPC status (0 = OK, `resp` filled),'',
        '' * GRPCUDS_ERR_TRANSPORT, or GRPCUDS_ERR_CODEC. */'',
        ''static inline int '' @ pre @ ''_'' @ name @ ''(grpcuds_client* c, const '' @ req @
          ''* req,'',
        ''                                  '' @ resp @ ''* resp) {'',
        ''    uint8_t buf[GRPCUDSC_MAX_MESSAGE_SIZE];'',
        ''    pb_ostream_t os = pb_ostream_from_buffer(buf, sizeof(buf));'',
        ''    if (!pb_encode(&os, '' @ req @ ''_fields, req)) return GRPCUDS_ERR_CODEC;'',
        ''    grpcuds_response* r = grpcuds_client_unary(c, '' @ DQ @ path @ DQ @
          '', buf, os.bytes_written);'',
        ''    if (!r) return GRPCUDS_ERR_TRANSPORT;'',
        ''    int status = grpcuds_response_status(r);'',
        ''    if (status == GRPCUDS_OK) {'',
        ''        size_t len = 0;'',
        ''        const uint8_t* body = grpcuds_response_body(r, &len);'',
        ''        '' @ resp @ '' zero = '' @ resp @ ''_init_zero;'',
        ''        *resp = zero;'',
        ''        pb_istream_t is = pb_istream_from_buffer(body, len);'',
        ''        if (!pb_decode(&is, '' @ resp @
          ''_fields, resp)) status = GRPCUDS_ERR_CODEC;'',
        ''    }'',
        ''    grpcuds_response_free(r);'',
        ''    return status;'',
        ''}'',
        blank])"

definition c_client_method :: "string \<Rightarrow> string \<Rightarrow> method_desc \<Rightarrow> string list" where
  "c_client_method full pre m =
     (if md_server_streaming m then c_stream_start full pre m @ c_stream_next pre m
      else c_unary_call full pre m)"

definition c_client :: "string \<Rightarrow> string \<Rightarrow> method_desc list \<Rightarrow> string list" where
  "c_client full pre ms = [
      ''/* ==== '' @ full @ '' : client ==================================== */'',
      blank]
    @ concat (map (c_client_method full pre) ms)"

section \<open>Trampolines and registration\<close>

definition c_trampoline :: "string \<Rightarrow> method_desc \<Rightarrow> string list" where
  "c_trampoline pre m =
     (let name = md_name m; req = c_type (md_input m); resp = c_type (md_output m)
      in [
          ''static int '' @ pre @ ''_'' @ name @ ''_tr(void* call, int32_t call_id,'',
          ''                              const uint8_t* req_bytes, size_t req_len,'',
          ''                              void* user_data) {'',
          ''    const '' @ pre @ ''_service* svc = (const '' @ pre @ ''_service*'' @
            '')user_data;'',
          ''    '' @ req @ '' request = '' @ req @ ''_init_zero;'',
          ''    pb_istream_t is = pb_istream_from_buffer(req_bytes, req_len);'',
          ''    if (!pb_decode(&is, '' @ req @ ''_fields, &request)) {'',
          ''        return GRPCUDS_INVALID_ARGUMENT;'',
          ''    }'',
          ''    grpcuds_call_ref ref;'',
          ''    ref.call = call;'',
          ''    ref.call_id = call_id;'']
        @ (if md_server_streaming m then [
          ''    return svc->'' @ name @ ''(ref, &request, svc->user_data);'']
         else [
          ''    '' @ resp @ '' response = '' @ resp @ ''_init_zero;'',
          ''    int rc = svc->'' @ name @ ''(ref, &request, &response, svc->user_data);'',
          ''    if (rc == GRPCUDS_HANDLER_DEFERRED) return GRPCUDS_OK;'',
          ''    if (rc != GRPCUDS_OK) return rc;'',
          ''    return '' @ pre @ ''_'' @ name @ ''_respond(ref, &response) == 0'',
          ''               ? GRPCUDS_OK'',
          ''               : GRPCUDS_INTERNAL;''])
        @ [
          ''}'',
          blank])"

definition c_register_method :: "string \<Rightarrow> string \<Rightarrow> method_desc \<Rightarrow> string list" where
  "c_register_method full pre m =
     (let name = md_name m; path = method_path full name
      in [
        ''    if (svc->'' @ name @ '') {'',
        ''        rc = grpcuds_server_register_method(s, '' @ DQ @ path @ DQ @ '','',
        ''                                            '' @ pre @ ''_'' @ name @ ''_tr, (void*''
          @ '')svc);'',
        ''        if (rc != 0) return rc;'',
        ''    }''])"

definition c_register :: "string \<Rightarrow> string \<Rightarrow> method_desc list \<Rightarrow> string list" where
  "c_register full pre ms = [
      ''int '' @ pre @ ''_register(grpcuds_server* s, const '' @ pre @ ''_service* svc) {'',
      ''    int rc = 0;'',
      ''    (void)rc;'']
    @ concat (map (c_register_method full pre) ms) @ [
      ''    return 0;'',
      ''}'',
      blank]"

definition write_c_service :: "string \<Rightarrow> service_desc \<Rightarrow> string + string list \<times> string list" where
  "write_c_service pkg svc =
     (let full = full_name pkg (sd_name svc); pre = dots_to_underscores full; ms = sd_methods svc
      in case c_methods_error ms of
           Some e \<Rightarrow> Inl e
         | None \<Rightarrow>
             Inr (c_table full pre ms @ concat (map (c_helper pre) ms) @ c_client full pre ms,
                  concat (map (c_trampoline pre) ms) @ c_register full pre ms))"

section \<open>The file\<close>

definition c_header_prologue :: "string \<Rightarrow> string \<Rightarrow> string \<Rightarrow> string \<Rightarrow> string list" where
  "c_header_prologue name base source guard = [
      ''// Generated by protoc-gen-grpcudspp (C mode) from '' @ name @ ''. DO NOT EDIT.'',
      ''//'',
      ''// Plain-C service stubs over the grpcuds C ABI. Server side: fill a'',
      ''// <Service>_service table and _register() it '' @ [CHR 0xE2, CHR 0x80, CHR 0x94] @
        '' the trampolines in'',
      ''// '' @ source @ '' do the nanopb decode/encode. Client side: typed call'',
      ''// wrappers, static inline below. Compile '' @ source @ '' into SERVER'',
      ''// binaries only; clients need just this header.'',
      ''#ifndef '' @ guard,
      ''#define '' @ guard,
      blank,
      ''#include <stddef.h>'',
      ''#include <stdint.h>'',
      blank,
      ''#include <pb_decode.h>'',
      ''#include <pb_encode.h>'',
      blank,
      ''#include <grpcuds.h>'',
      blank,
      ''#include '' @ DQ @ base @ ''.pb.h'' @ DQ,
      blank,
      ''// On-stack scratch for one encoded message. To raise it, define it'',
      ''// PROJECT-WIDE (-DGRPCUDSC_MAX_MESSAGE_SIZE=...): sync unary responses'',
      ''// are encoded inside the generated .c, so a per-TU override in your'',
      ''// code alone would silently not apply there.'',
      ''#ifndef GRPCUDSC_MAX_MESSAGE_SIZE'',
      ''#define GRPCUDSC_MAX_MESSAGE_SIZE 1024'',
      ''#endif'',
      blank,
      ''#ifdef __cplusplus'',
      ''extern '' @ DQ @ ''C'' @ DQ @ '' {'',
      ''#endif'',
      blank]"

definition c_source_prologue :: "string \<Rightarrow> string \<Rightarrow> string list" where
  "c_source_prologue name header = [
      ''// Generated by protoc-gen-grpcudspp (C mode) from '' @ name @ ''. DO NOT EDIT.'',
      ''//'',
      ''// Server trampolines + registration. Compile into SERVER binaries only'',
      ''// (the client-side wrappers are static inline in '' @ header @ '').'',
      ''#include '' @ DQ @ header @ DQ,
      blank]"

definition c_header_epilogue :: "string \<Rightarrow> string list" where
  "c_header_epilogue guard = [
      ''#ifdef __cplusplus'',
      ''}  // extern '' @ DQ @ ''C'' @ DQ,
      ''#endif'',
      blank,
      ''#endif  // '' @ guard]"

text \<open>The loop over the services, with its early return.\<close>

fun c_services :: "string \<Rightarrow> service_desc list \<Rightarrow> string + string list \<times> string list" where
  "c_services pkg [] = Inr ([], [])"
| "c_services pkg (svc # svcs) =
     (case write_c_service pkg svc of
        Inl e \<Rightarrow> Inl e
      | Inr (h, s) \<Rightarrow>
          (case c_services pkg svcs of
             Inl e \<Rightarrow> Inl e
           | Inr (hs, ss) \<Rightarrow> Inr (h @ hs, s @ ss)))"

definition generate_file_c :: "file_desc \<Rightarrow> string + response_file \<times> response_file" where
  "generate_file_c proto =
     (let name = fl_name proto
      in case strip_suffix ''.proto'' name of
           None \<Rightarrow> Inl (''file name does not end in .proto: '' @ name)
         | Some base \<Rightarrow>
             (let header = base @ ''.grpcuds.h''; source = base @ ''.grpcuds.c'';
                  guard = guard_for header
              in case c_services (fl_package proto) (fl_services proto) of
                   Inl e \<Rightarrow> Inl e
                 | Inr (hs, ss) \<Rightarrow>
                     Inr (\<lparr>rf_name = header, rf_content = unlines (
                             c_header_prologue name base source guard @ hs @ c_header_epilogue guard)\<rparr>,
                          \<lparr>rf_name = source, rf_content = unlines (c_source_prologue name header @ ss)\<rparr>)))"

section \<open>The generated text\<close>

named_theorems c_emits

lemma c_table_method_emits: "plain pre \<Longrightarrow> plain_method m \<Longrightarrow> emits (c_table_method pre m) []"
  unfolding emits_def by (simp add: c_table_method_def plain_method_def Let_def lex_eval)

lemma c_table_emits [c_emits]:
  assumes "plain full" and "plain pre" and "list_all plain_method ms"
  shows "emits (c_table full pre ms) []"
proof -
  have "emits (concat (map (c_table_method pre) ms)) []"
    using assms c_table_method_emits by (intro emits_concat_none) (simp add: list_all_iff)
  then show ?thesis unfolding emits_def using assms by (simp add: c_table_def lex_eval)
qed

lemma c_helper_emits: "plain pre \<Longrightarrow> plain_method m \<Longrightarrow> emits (c_helper pre m) []"
  unfolding emits_def by (simp add: c_helper_def plain_method_def Let_def lex_eval)

lemma c_client_method_emits:
  "plain full \<Longrightarrow> plain pre \<Longrightarrow> plain_method m \<Longrightarrow>
     emits (c_client_method full pre m) [method_path full (md_name m)]"
  unfolding emits_def
  by (simp add: c_client_method_def c_stream_start_def c_stream_next_def c_unary_call_def
      plain_method_def Let_def lex_eval)

lemma c_trampoline_emits: "plain pre \<Longrightarrow> plain_method m \<Longrightarrow> emits (c_trampoline pre m) []"
  unfolding emits_def by (simp add: c_trampoline_def plain_method_def Let_def lex_eval)

lemma c_register_method_emits:
  "plain full \<Longrightarrow> plain pre \<Longrightarrow> plain_method m \<Longrightarrow>
     emits (c_register_method full pre m) [method_path full (md_name m)]"
  unfolding emits_def by (simp add: c_register_method_def plain_method_def Let_def lex_eval)

lemma write_c_service_emits:
  assumes "plain pkg" and "plain_service svc" and "write_c_service pkg svc = Inr (h, s)"
  shows "emits h (service_paths pkg svc)" and "emits s (service_paths pkg svc)"
proof -
  let ?full = "full_name pkg (sd_name svc)" let ?ms = "sd_methods svc"
  let ?pre = "dots_to_underscores ?full" and ?path = "\<lambda>m. method_path ?full (md_name m)"
  have full: "plain ?full" and pre: "plain ?pre" and ms: "\<And>m. m \<in> set ?ms \<Longrightarrow> plain_method m"
    and all: "list_all plain_method ?ms"
    using assms by (simp_all add: plain_service_def list_all_iff)
  have client: "emits (concat (map (c_client_method ?full ?pre) ?ms)) (map ?path ?ms)"
    and register: "emits (concat (map (c_register_method ?full ?pre) ?ms)) (map ?path ?ms)"
    using full pre ms by (auto intro!: emits_concat_each c_client_method_emits c_register_method_emits)
  have none: "emits (concat (map (c_helper ?pre) ?ms)) []"
    "emits (concat (map (c_trampoline ?pre) ?ms)) []"
    using pre ms by (auto intro!: emits_concat_none c_helper_emits c_trampoline_emits)
  note run = c_table_emits [OF full pre all] client register none
  show "emits h (service_paths pkg svc)"
    unfolding emits_def using assms(3) run full pre
    by (auto simp: write_c_service_def Let_def c_client_def service_paths_def lex_eval
        split: option.splits)
  show "emits s (service_paths pkg svc)"
    unfolding emits_def using assms(3) run full pre
    by (auto simp: write_c_service_def Let_def c_register_def service_paths_def lex_eval
        split: option.splits)
qed

lemma c_services_emits:
  assumes "plain pkg" and "list_all plain_service svcs" and "c_services pkg svcs = Inr (h, s)"
  shows "emits h (concat (map (service_paths pkg) svcs)) \<and> emits s (concat (map (service_paths pkg) svcs))"
  using assms(2,3)
proof (induction svcs arbitrary: h s)
  case (Cons svc svcs)
  then obtain h1 s1 h2 s2 where "write_c_service pkg svc = Inr (h1, s1)"
    and "c_services pkg svcs = Inr (h2, s2)" and "h = h1 @ h2" "s = s1 @ s2"
    by (auto split: sum.splits)
  with Cons write_c_service_emits [OF assms(1)] show ?case by (auto intro!: emits_append)
qed simp

lemma generate_file_c_literals:
  assumes "plain_file f" and "generate_file_c f = Inr (h, s)"
  shows "path_literals (rf_content h) = Some (file_paths f)"
    and "path_literals (rf_content s) = Some (file_paths f)"
proof -
  let ?lits = "concat (map (service_paths (fl_package f)) (fl_services f))"
  obtain base hs ss where base: "strip_suffix ''.proto'' (fl_name f) = Some base"
    and svcs: "c_services (fl_package f) (fl_services f) = Inr (hs, ss)"
    and h: "rf_content h = unlines (c_header_prologue (fl_name f) base (base @ ''.grpcuds.c'')
        (guard_for (base @ ''.grpcuds.h'')) @ hs @ c_header_epilogue (guard_for (base @ ''.grpcuds.h'')))"
    and s: "rf_content s = unlines (c_source_prologue (fl_name f) (base @ ''.grpcuds.h'') @ ss)"
    using assms(2) by (auto simp: generate_file_c_def Let_def split: option.splits sum.splits)
  have run: "emits hs ?lits" "emits ss ?lits"
    using c_services_emits [OF _ _ svcs] assms(1) by (simp_all add: plain_file_def)
  have names: "quotable base" "quotable (fl_name f)" "\<not> is_path (base @ ''.pb.h'')"
    "\<not> is_path (base @ ''.grpcuds.h'')"
    using base_not_path [OF assms(1) base, of "''.pb.h''"] assms(1)
      base_not_path [OF assms(1) base, of "''.grpcuds.h''"] by (simp_all add: plain_file_def special_def)
  show "path_literals (rf_content h) = Some (file_paths f)"
    and "path_literals (rf_content s) = Some (file_paths f)"
    unfolding h s path_literals_def lex_text_def using run names
    by (simp_all add: c_header_prologue_def c_header_epilogue_def c_source_prologue_def lex_eval
        file_paths_def [symmetric])
qed

end
