(* ===== verification/Plugin_Cpp.thy ===== *)
theory Plugin_Cpp
  imports Plugin_Names
begin

text \<open>
  The plugin \<open>protoc-gen-grpcudspp\<close>, C++ mode: \<open>generate_file\<close> and the functions that write the
  service classes, the client stub, the trampolines and the template specializations.
\<close>

section \<open>Prologue and epilogue\<close>

definition write_header_prologue :: "string \<Rightarrow> string \<Rightarrow> string \<Rightarrow> bool \<Rightarrow> string list" where
  "write_header_prologue header nanopb name need_cstring =
     (let guard = guard_for header
      in [
        ''// Generated by protoc-gen-grpcudspp. DO NOT EDIT.'',
        ''// source: '' @ name,
        ''#ifndef '' @ guard,
        ''#define '' @ guard,
        blank]
      @ (if need_cstring then [
        ''#include <cstddef>'',
        ''#include <cstring>'']
         else [])
      @ [
        ''#include <memory>'',
        blank,
        ''#include <grpcudspp/grpcudspp.h>'',
        ''#include <grpcudspp/client.h>'',
        ''#include '' @ DQ @ nanopb @ DQ,
        blank])"

definition write_header_epilogue :: "string \<Rightarrow> string list" where
  "write_header_epilogue header =
     (let guard = guard_for header
      in [
        ''#endif  // '' @ guard])"

definition write_source_prologue :: "string \<Rightarrow> string \<Rightarrow> string list" where
  "write_source_prologue header name = [
      ''// Generated by protoc-gen-grpcudspp. DO NOT EDIT.'',
      ''// source: '' @ name,
      ''#include '' @ DQ @ header @ DQ,
      blank,
      ''#include <pb_decode.h>'',
      ''#include <pb_encode.h>'',
      blank,
      ''// Stack buffer size for per-call encode / decode. 1024 B covers the typical'',
      ''// BLE control / event payload while keeping each trampoline'' @ SQ @ ''s stack frame'',
      ''// cheap on an embedded device. If a handler legitimately needs larger messages'',
      ''// (GATT blob write, 4 KB advertising-data dump, '' @ [CHR 0xE2, CHR 0x80, CHR 0xA6] @
        '') override at compile time:'',
      ''//'',
      ''//     // CMake'',
      ''//     target_compile_definitions(my-app PRIVATE GRPCUDSPP_MAX_MESSAGE_SIZE=4096)'',
      ''//'',
      ''//     // bare cc'',
      ''//     -DGRPCUDSPP_MAX_MESSAGE_SIZE=4096'',
      ''//'',
      ''// The override must be supplied to *every* translation unit that includes a'',
      ''// generated `*.grpc.pb.cc` or you'' @ SQ @ ''ll end up with inconsistent buffer sizes'',
      ''// across trampolines. See docs/MIGRATING_FROM_GRPC_CPP.md ('' @ DQ @ ''Variable-size'',
      ''// fields'' @ DQ @ '') for the longer rationale.'',
      ''#ifndef GRPCUDSPP_MAX_MESSAGE_SIZE'',
      ''#define GRPCUDSPP_MAX_MESSAGE_SIZE 1024'',
      ''#endif'',
      blank]"

section \<open>The service class\<close>

definition decl_head :: "method_desc \<Rightarrow> string list" where
  "decl_head m =
     (let name = md_name m; req = qualified_type (md_input m); resp = qualified_type (md_output m)
      in if md_server_streaming m then [
          ''        virtual grpcuds::Status '' @ name @ ''('',
          ''            grpcuds::ServerContext* context,'',
          ''            const '' @ req @ ''* request,'',
          ''            grpcuds::ServerWriter<'' @ resp @ ''>* writer) {'']
         else [
          ''        virtual grpcuds::Status '' @ name @ ''('',
          ''            grpcuds::ServerContext* context,'',
          ''            const '' @ req @ ''* request,'',
          ''            '' @ resp @ ''* response) {''])"

definition decl_body :: "method_desc \<Rightarrow> string list" where
  "decl_body m =
     (let unused = if md_server_streaming m then ''(void)writer;'' else ''(void)response;''
      in [
        ''            (void)context;'',
        ''            (void)request;'',
        ''            '' @ unused,
        ''            return grpcuds::Status(grpcuds::UNIMPLEMENTED);'',
        ''        }'',
        blank])"

definition decl_deferred :: "method_desc \<Rightarrow> string list" where
  "decl_deferred m =
     (let name = md_name m; req = qualified_type (md_input m); resp = qualified_type (md_output m);
          resp_sym = trim_start_colons resp
      in [
        ''        // Deferred variant: override INSTEAD of the synchronous '' @ name @
          '' above'',
        ''        // to complete the call later (any thread) via `responder`.'',
        ''        virtual void '' @ name @ ''('',
        ''            grpcuds::ServerContext* context,'',
        ''            const '' @ req @ ''* request,'',
        ''            grpcuds::UnaryResponder<'' @ resp @ ''> responder) {'',
        ''            '' @ resp @ '' response = '' @ resp_sym @ ''_init_zero;'',
        ''            grpcuds::Status status = '' @ name @ ''(context, request, &response);'',
        ''            if (status.ok()) {'',
        ''                responder.Respond(response);'',
        ''            } else {'',
        ''                responder.Fail(status);'',
        ''            }'',
        ''        }'',
        blank])"

definition write_method_decl :: "method_desc \<Rightarrow> string + string list" where
  "write_method_decl m =
     (if md_client_streaming m
      then Inl (''method '' @ md_name m @ '': client-streaming RPCs are not supported'')
      else Inr (decl_head m @ decl_body m
                @ (if \<not> md_server_streaming m then decl_deferred m else [])))"

fun write_method_decls :: "method_desc list \<Rightarrow> string + string list" where
  "write_method_decls [] = Inr []"
| "write_method_decls (m # ms) =
     (case write_method_decl m of
        Inl e \<Rightarrow> Inl e
      | Inr ls \<Rightarrow> (case write_method_decls ms of Inl e \<Rightarrow> Inl e | Inr lss \<Rightarrow> Inr (ls @ lss)))"

section \<open>The client stub\<close>

definition stub_method :: "string \<Rightarrow> method_desc \<Rightarrow> string list" where
  "stub_method full m =
     (let name = md_name m; path = method_path full name;
          req = qualified_type (md_input m); resp = qualified_type (md_output m);
          req_fields = trim_start_char (CHR '':'') req @ ''_fields'';
          resp_fields = trim_start_char (CHR '':'') resp @ ''_fields''
      in (if md_server_streaming m then [
          ''        grpcuds::ClientReader<'' @ resp @ ''> '' @ name @ ''(const '' @ req @
            ''& request) {'',
          ''            return client_.ServerStreaming<'' @ req @ '', '' @ resp @ ''>('',
          ''                '' @ DQ @ path @ DQ @ '', request, '' @ req_fields @ '', '' @
            resp_fields @ '');'',
          ''        }'']
         else [
          ''        grpcuds::Status '' @ name @ ''(const '' @ req @ ''& request, '' @ resp @
            ''* response) {'',
          ''            return client_.Unary('' @ DQ @ path @ DQ @ '', request, '' @ req_fields
            @ '','',
          ''                                 response, '' @ resp_fields @ '');'',
          ''        }''])
        @ blank # [])"

definition write_stub_header :: "string \<Rightarrow> service_desc \<Rightarrow> string list" where
  "write_stub_header pkg svc =
     (let full = full_name pkg (sd_name svc)
      in [
        ''#ifdef GRPCUDSPP_HAVE_NANOPB'',
        ''    // Typed client stub over a connected grpcuds::Client. The Client must'',
        ''    // outlive the Stub; calls are blocking, one in flight at a time.'',
        ''    class Stub final {'',
        ''     public:'',
        ''        explicit Stub(grpcuds::Client& client) : client_(client) {}'',
        blank]
      @ concat (map (stub_method full) (sd_methods svc)) @ [
        ''     private:'',
        ''        grpcuds::Client& client_;'',
        ''    };'',
        blank,
        ''    static std::unique_ptr<Stub> NewStub(grpcuds::Client& client) {'',
        ''        return std::unique_ptr<Stub>(new Stub(client));'',
        ''    }'',
        ''#endif  // GRPCUDSPP_HAVE_NANOPB''])"

definition trampoline_decl :: "method_desc \<Rightarrow> string list" where
  "trampoline_decl m =
     (let name = md_name m
      in [
        ''        static int '' @ (name @ ''Trampoline'') @ ''(void* call, int32_t call_id,'',
        ''                                       const uint8_t* req_bytes, size_t req_len,'',
        ''                                       void* user_data);''])"

definition write_service_header :: "string \<Rightarrow> service_desc \<Rightarrow> string + string list" where
  "write_service_header pkg svc =
     (let svc_name = sd_name svc; full = full_name pkg svc_name
      in case write_method_decls (sd_methods svc) of
           Inl e \<Rightarrow> Inl e
         | Inr decls \<Rightarrow> Inr ([
             ''class '' @ svc_name @ '' final {'',
             '' public:'',
             ''    static const char* service_full_name() {'',
             ''        return '' @ DQ @ full @ DQ @ '';'',
             ''    }'',
             blank,
             ''    class Service : public grpcuds::Service {'',
             ''     public:'',
             ''        ~Service() override = default;'',
             blank]
           @ decls @ [
             ''        void BindToServer(grpcuds_server* server) override;'',
             blank,
             ''     private:'']
           @ concat (map trampoline_decl (sd_methods svc)) @ [
             ''    };'',
             blank]
           @ write_stub_header pkg svc @ [
             ''};'',
             blank]))"

section \<open>The service source\<close>

definition write_method_trampoline :: "string \<Rightarrow> method_desc \<Rightarrow> string list" where
  "write_method_trampoline svc_name m =
     (let name = md_name m; req = qualified_type (md_input m); resp = qualified_type (md_output m);
          req_sym = trim_start_colons req;
          req_fields = req_sym @ ''_fields''; req_init = req_sym @ ''_init_zero''
      in [
          ''int '' @ svc_name @ ''::Service::'' @ name @
            ''Trampoline(void* call, int32_t call_id,'',
          ''                                       const uint8_t* req_bytes, size_t req_len,'',
          ''                                       void* user_data) {'',
          ''    auto* self = static_cast<Service*>(user_data);'',
          ''    '' @ req @ '' request = '' @ req_init @ '';'',
          ''    pb_istream_t istream = pb_istream_from_buffer(req_bytes, req_len);'',
          ''    if (!pb_decode(&istream, '' @ req_fields @ '', &request)) {'',
          ''        grpcuds_call_finish(call, call_id, GRPCUDS_INVALID_ARGUMENT);'',
          ''        return GRPCUDS_INVALID_ARGUMENT;'',
          ''    }'',
          ''    grpcuds::ServerContext context(call, call_id);'']
        @ (if md_server_streaming m then [
          ''    grpcuds::ServerWriter<'' @ resp @ ''> writer(call, call_id);'',
          ''    grpcuds::Status status = self->'' @ name @ ''(&context, &request, &writer);'',
          ''    if (!status.ok()) {'',
          ''        grpcuds_call_finish_msg(call, call_id, static_cast<int>(status.error_code()), reinterpret_cast<const uint8_t*>(status.error_message().data()), status.error_message().size());'',
          ''    }'',
          ''    return static_cast<int>(status.error_code());'']
         else [
          ''    grpcuds::UnaryResponder<'' @ resp @ ''> responder(call, call_id);'',
          ''    self->'' @ name @ ''(&context, &request, responder);'',
          ''    return GRPCUDS_OK;''])
        @ [
          ''}''])"

definition bind_method :: "string \<Rightarrow> method_desc \<Rightarrow> string list" where
  "bind_method full m =
     (let name = md_name m; path = method_path full name
      in [
        ''    grpcuds_server_register_method(server, '' @ DQ @ path @ DQ @ '', &Service::'' @
          name @ ''Trampoline, this);''])"

definition write_service_source :: "string \<Rightarrow> service_desc \<Rightarrow> string list" where
  "write_service_source pkg svc =
     (let svc_name = sd_name svc; full = full_name pkg svc_name
      in [
        ''void '' @ svc_name @ ''::Service::BindToServer(grpcuds_server* server) {'']
      @ concat (map (bind_method full) (sd_methods svc)) @ [
        ''}'',
        blank]
      @ concat (map (\<lambda>m. write_method_trampoline svc_name m @ blank # []) (sd_methods svc)))"

section \<open>Template specializations\<close>

definition write_server_writer_spec :: "string \<Rightarrow> string list" where
  "write_server_writer_spec ty =
     (let flds = trim_start_colons ty @ ''_fields''
      in [
        blank,
        ''template <> bool ServerWriter<'' @ ty @ ''>::Write(const '' @ ty @ ''& message) {'',
        ''    uint8_t buf[GRPCUDSPP_MAX_MESSAGE_SIZE];'',
        ''    pb_ostream_t ostream = pb_ostream_from_buffer(buf, sizeof(buf));'',
        ''    if (!pb_encode(&ostream, '' @ flds @ '', &message)) return false;'',
        ''    return raw_.Write(buf, ostream.bytes_written);'',
        ''}''])"

definition write_unary_responder_spec :: "string \<Rightarrow> string list" where
  "write_unary_responder_spec ty =
     (let flds = trim_start_colons ty @ ''_fields''
      in [
        blank,
        ''template <> bool UnaryResponder<'' @ ty @ ''>::Respond(const '' @ ty @
          ''& response) {'',
        ''    uint8_t buf[GRPCUDSPP_MAX_MESSAGE_SIZE];'',
        ''    pb_ostream_t ostream = pb_ostream_from_buffer(buf, sizeof(buf));'',
        ''    if (!pb_encode(&ostream, '' @ flds @ '', &response)) {'',
        ''        raw_.Finish(Status(INTERNAL, '' @ DQ @ ''response encode failed'' @ DQ @
          ''));'',
        ''        return false;'',
        ''    }'',
        ''    if (!raw_.Write(buf, ostream.bytes_written)) return false;'',
        ''    return raw_.Finish(Status::Ok());'',
        ''}''])"

definition writer_decl :: "string \<Rightarrow> string list" where
  "writer_decl t = [
      ''template <> bool ServerWriter<'' @ t @ ''>::Write(const '' @ t @ ''& message);'']"

definition responder_decl :: "string \<Rightarrow> string list" where
  "responder_decl t = [
      ''template <> bool UnaryResponder<'' @ t @ ''>::Respond(const '' @ t @ ''& response);'']"

definition spec_decls :: "string list \<Rightarrow> string list \<Rightarrow> string list" where
  "spec_decls writers responders =
     (if writers \<noteq> [] \<or> responders \<noteq> [] then [
        ''namespace grpcuds {'',
        blank]
      @ concat (map writer_decl writers) @ concat (map responder_decl responders) @ [
        blank,
        ''}  // namespace grpcuds'',
        blank]
      else [])"

definition spec_defs :: "string list \<Rightarrow> string list \<Rightarrow> string list" where
  "spec_defs writers responders =
     (if writers \<noteq> [] \<or> responders \<noteq> [] then [
        ''namespace grpcuds {'']
      @ concat (map write_server_writer_spec writers)
      @ concat (map write_unary_responder_spec responders) @ [
        ''}  // namespace grpcuds'']
      else [])"

section \<open>The file\<close>

definition namespace_open :: "string \<Rightarrow> string list" where
  "namespace_open p = [
      ''namespace '' @ p @ '' {'']"

definition namespace_close :: "string \<Rightarrow> string list" where
  "namespace_close p = [
      ''}  // namespace '' @ p]"

definition namespaces_open :: "string \<Rightarrow> string list" where
  "namespaces_open pkg =
     (if pkg \<noteq> [] then concat (map namespace_open (split_on (CHR ''.'') pkg)) @ blank # [] else [])"

definition namespaces_close :: "string \<Rightarrow> string list" where
  "namespaces_close pkg =
     (if pkg \<noteq> [] then concat (map namespace_close (rev (split_on (CHR ''.'') pkg))) @ blank # [] else [])"

fun write_services :: "string \<Rightarrow> service_desc list \<Rightarrow> string + string list \<times> string list" where
  "write_services pkg [] = Inr ([], [])"
| "write_services pkg (svc # svcs) =
     (case write_service_header pkg svc of
        Inl e \<Rightarrow> Inl e
      | Inr h \<Rightarrow>
          (case write_services pkg svcs of
             Inl e \<Rightarrow> Inl e
           | Inr (hs, ss) \<Rightarrow> Inr (h @ hs, write_service_source pkg svc @ ss)))"

definition generate_file_cpp :: "file_desc \<Rightarrow> string + response_file \<times> response_file" where
  "generate_file_cpp proto =
     (let name = fl_name proto; pkg = fl_package proto
      in case strip_suffix ''.proto'' name of
           None \<Rightarrow> Inl (''file name does not end in .proto: '' @ name)
         | Some base \<Rightarrow>
             (let header = base @ ''.grpc.pb.h''; source = base @ ''.grpc.pb.cc'';
                  nanopb = base @ ''.pb.h'';
                  mutators = concat (map (write_one_mutator pkg []) (fl_messages proto));
                  writers = collect_resp_types (fl_services proto) True;
                  responders = collect_resp_types (fl_services proto) False
              in case write_services pkg (fl_services proto) of
                   Inl e \<Rightarrow> Inl e
                 | Inr (hs, ss) \<Rightarrow>
                     Inr (\<lparr>rf_name = header, rf_content = unlines (
                             write_header_prologue header nanopb name (mutators \<noteq> [])
                             @ spec_decls writers responders @ namespaces_open pkg @ hs @ mutators
                             @ namespaces_close pkg @ write_header_epilogue header)\<rparr>,
                          \<lparr>rf_name = source, rf_content = unlines (
                             write_source_prologue header name @ namespaces_open pkg @ ss
                             @ namespaces_close pkg @ spec_defs writers responders)\<rparr>)))"

section \<open>The generated text\<close>

lemma write_method_decl_emits:
  assumes "plain_method m" and "write_method_decl m = Inr ls"
  shows "emits ls []"
proof -
  have "ls = decl_head m @ decl_body m @ (if \<not> md_server_streaming m then decl_deferred m else [])"
    using assms(2) by (simp add: write_method_decl_def split: if_splits)
  then show ?thesis
    unfolding emits_def using assms(1)
    by (simp add: decl_head_def decl_body_def decl_deferred_def plain_method_def Let_def lex_eval)
qed

lemma write_method_decls_emits:
  "list_all plain_method ms \<Longrightarrow> write_method_decls ms = Inr ls \<Longrightarrow> emits ls []"
proof (induction ms arbitrary: ls)
  case (Cons m ms)
  then obtain l1 l2 where "write_method_decl m = Inr l1" and "write_method_decls ms = Inr l2"
    and "ls = l1 @ l2" by (auto split: sum.splits)
  with Cons write_method_decl_emits [of m l1] emits_append [of l1 "[]" l2 "[]"] show ?case by auto
qed simp

lemma stub_method_emits:
  "plain full \<Longrightarrow> plain_method m \<Longrightarrow> emits (stub_method full m) [method_path full (md_name m)]"
  unfolding emits_def by (simp add: stub_method_def plain_method_def Let_def lex_eval)

lemma write_stub_header_emits:
  assumes "plain pkg" and "plain_service svc"
  shows "emits (write_stub_header pkg svc) (service_paths pkg svc)"
proof -
  let ?full = "full_name pkg (sd_name svc)"
  have "plain ?full" using assms by (simp add: plain_service_def)
  moreover from this have "emits (concat (map (stub_method ?full) (sd_methods svc))) (service_paths pkg svc)"
    using assms stub_method_emits unfolding service_paths_def
    by (intro emits_concat_each) (simp add: plain_service_def list_all_iff)
  ultimately show ?thesis
    unfolding emits_def by (simp add: write_stub_header_def Let_def lex_eval)
qed

lemma trampoline_decl_emits: "plain_method m \<Longrightarrow> emits (trampoline_decl m) []"
  unfolding emits_def by (simp add: trampoline_decl_def plain_method_def Let_def lex_eval)

lemma write_service_header_emits:
  assumes "plain pkg" and "plain_service svc" and "write_service_header pkg svc = Inr h"
  shows "emits h (full_name pkg (sd_name svc) # service_paths pkg svc)"
proof -
  have names: "plain (sd_name svc)" "plain (full_name pkg (sd_name svc))"
    and ms: "list_all plain_method (sd_methods svc)"
    using assms by (simp_all add: plain_service_def)
  have "emits (concat (map trampoline_decl (sd_methods svc))) []"
    using ms trampoline_decl_emits by (intro emits_concat_none) (simp add: list_all_iff)
  with write_method_decls_emits [OF ms] write_stub_header_emits [OF assms(1,2)] assms(3) names
  show ?thesis
    unfolding emits_def
    by (auto simp: write_service_header_def Let_def lex_eval split: sum.splits)
qed

lemma write_method_trampoline_emits:
  "plain svc_name \<Longrightarrow> plain_method m \<Longrightarrow> emits (write_method_trampoline svc_name m) []"
  unfolding emits_def by (simp add: write_method_trampoline_def plain_method_def Let_def lex_eval)

lemma bind_method_emits:
  "plain full \<Longrightarrow> plain_method m \<Longrightarrow> emits (bind_method full m) [method_path full (md_name m)]"
  unfolding emits_def by (simp add: bind_method_def plain_method_def Let_def lex_eval)

lemma write_service_source_emits:
  assumes "plain pkg" and "plain_service svc"
  shows "emits (write_service_source pkg svc) (service_paths pkg svc)"
proof -
  let ?full = "full_name pkg (sd_name svc)"
  have names: "plain (sd_name svc)" "plain ?full"
    and ms: "\<And>m. m \<in> set (sd_methods svc) \<Longrightarrow> plain_method m"
    using assms by (simp_all add: plain_service_def list_all_iff)
  have "emits (concat (map (bind_method ?full) (sd_methods svc))) (service_paths pkg svc)"
    unfolding service_paths_def using names ms bind_method_emits by (intro emits_concat_each) simp
  moreover have "emits (blank # []) []"
    unfolding emits_def by (simp add: lex_eval)
  then have "emits (concat (map (\<lambda>m. write_method_trampoline (sd_name svc) m @ blank # []) (sd_methods svc))) []"
    using names ms write_method_trampoline_emits emits_append [of _ "[]" _ "[]"]
    by (intro emits_concat_none) simp
  ultimately show ?thesis
    unfolding emits_def using names by (simp add: write_service_source_def Let_def lex_eval)
qed

definition header_literals :: "string \<Rightarrow> service_desc list \<Rightarrow> string list" where
  "header_literals pkg svcs = concat (map (\<lambda>svc. full_name pkg (sd_name svc) # service_paths pkg svc) svcs)"

lemma write_services_emits:
  assumes "plain pkg" and "list_all plain_service svcs" and "write_services pkg svcs = Inr (h, s)"
  shows "emits h (header_literals pkg svcs) \<and> emits s (concat (map (service_paths pkg) svcs))"
  using assms(2,3)
proof (induction svcs arbitrary: h s)
  case (Cons svc svcs)
  then obtain h1 h2 s2 where svc: "write_service_header pkg svc = Inr h1"
    and "write_services pkg svcs = Inr (h2, s2)" and "h = h1 @ h2" "s = write_service_source pkg svc @ s2"
    by (auto split: sum.splits)
  with Cons write_service_header_emits [OF assms(1) _ svc] write_service_source_emits [OF assms(1)]
    emits_append [of h1 "full_name pkg (sd_name svc) # service_paths pkg svc" h2]
  show ?case by (auto simp: header_literals_def intro!: emits_append)
qed (simp add: header_literals_def)

lemma header_literals_paths:
  "plain pkg \<Longrightarrow> list_all plain_service svcs \<Longrightarrow>
     filter is_path (header_literals pkg svcs) = concat (map (service_paths pkg) svcs)"
  by (induction svcs) (auto simp: header_literals_def plain_service_def service_paths_def)

lemma spec_decls_emits:
  assumes "list_all plain ws" and "list_all plain rs"
  shows "emits (spec_decls ws rs) []"
proof -
  have "plain t \<Longrightarrow> emits (writer_decl t) []" "plain t \<Longrightarrow> emits (responder_decl t) []" for t
    unfolding emits_def by (simp_all add: writer_decl_def responder_decl_def lex_eval)
  then have "emits (concat (map writer_decl ws)) []" "emits (concat (map responder_decl rs)) []"
    using assms by (auto intro!: emits_concat_none simp: list_all_iff)
  then show ?thesis unfolding emits_def by (simp add: spec_decls_def lex_eval)
qed

lemma spec_defs_emits:
  assumes "list_all plain ws" and "list_all plain rs"
  shows "\<exists>lits. emits (spec_defs ws rs) lits \<and> filter is_path lits = []"
proof -
  let ?msg = "''response encode failed''"
  have "plain t \<Longrightarrow> emits (write_server_writer_spec t) []" for t
    unfolding emits_def by (simp add: write_server_writer_spec_def Let_def lex_eval)
  moreover have "plain t \<Longrightarrow> emits (write_unary_responder_spec t) [?msg]" for t
    unfolding emits_def by (simp add: write_unary_responder_spec_def Let_def lex_eval)
  ultimately have "emits (concat (map write_server_writer_spec ws)) []"
    "emits (concat (map write_unary_responder_spec rs)) (map (\<lambda>_. ?msg) rs)"
    using assms by (auto intro!: emits_concat_none emits_concat_each simp: list_all_iff)
  then have e: "emits (spec_defs ws rs) (map (\<lambda>_. ?msg) rs)"
    unfolding emits_def by (simp add: spec_defs_def lex_eval)
  show ?thesis by (rule exI, rule conjI [OF e]) (simp add: filter_empty_conv)
qed

lemma namespaces_open_lex:
  "list_all plain ps \<Longrightarrow> lex_run (Lex Code st ls) (unlines (concat (map namespace_open ps)))
     = Some (Lex Code (replicate (length ps) (CHR ''{'') @ st) ls)"
  by (induction ps arbitrary: st)
    (simp_all add: namespace_open_def lex_eval replicate_app_Cons_same)

lemma namespaces_close_lex:
  "list_all plain ps \<Longrightarrow>
     lex_run (Lex Code (replicate (length ps) (CHR ''{'') @ st) ls) (unlines (concat (map namespace_close ps)))
     = Some (Lex Code st ls)"
  by (induction ps arbitrary: st) (simp_all add: namespace_close_def lex_eval)

lemma in_namespaces_emits:
  assumes "plain pkg" and "emits body lits"
  shows "emits (namespaces_open pkg @ body @ namespaces_close pkg) lits"
proof -
  let ?ps = "split_on (CHR ''.'') pkg"
  have "list_all plain ?ps" "list_all plain (rev ?ps)" using assms(1) by simp_all
  with namespaces_open_lex [of ?ps] namespaces_close_lex [of "rev ?ps"] assms(2) show ?thesis
    unfolding emits_def by (simp add: namespaces_open_def namespaces_close_def lex_eval)
qed

lemma prologue_emits:
  assumes "quotable header" and "quotable nanopb" and "quotable name"
  shows "emits (write_header_prologue header nanopb name b) [nanopb]"
    and "emits (write_source_prologue header name) [header]"
    and "emits (write_header_epilogue header) []"
  unfolding emits_def using assms
  by (simp_all add: write_header_prologue_def write_source_prologue_def write_header_epilogue_def
      Let_def lex_eval)

lemma generate_file_cpp_literals:
  assumes f: "plain_file f" and "generate_file_cpp f = Inr (h, s)"
  shows "path_literals (rf_content h) = Some (file_paths f)"
    and "path_literals (rf_content s) = Some (file_paths f)"
proof -
  let ?pkg = "fl_package f" and ?svcs = "fl_services f" and ?name = "fl_name f"
  let ?ws = "collect_resp_types ?svcs True" and ?rs = "collect_resp_types ?svcs False"
  let ?muts = "concat (map (write_one_mutator ?pkg []) (fl_messages f))"
  obtain base hs ss where base: "strip_suffix ''.proto'' ?name = Some base"
    and svcs: "write_services ?pkg ?svcs = Inr (hs, ss)"
    and h: "rf_content h = unlines (write_header_prologue (base @ ''.grpc.pb.h'') (base @ ''.pb.h'') ?name
        (?muts \<noteq> []) @ spec_decls ?ws ?rs @ (namespaces_open ?pkg @ (hs @ ?muts) @ namespaces_close ?pkg)
        @ write_header_epilogue (base @ ''.grpc.pb.h''))"
    and s: "rf_content s = unlines (write_source_prologue (base @ ''.grpc.pb.h'') ?name
        @ (namespaces_open ?pkg @ ss @ namespaces_close ?pkg) @ spec_defs ?ws ?rs)"
    using assms(2) by (auto simp: generate_file_cpp_def Let_def split: option.splits sum.splits)
  have plain: "plain ?pkg" "list_all plain_service ?svcs" "list_all plain ?ws" "list_all plain ?rs"
    using f collect_plain by (simp_all add: plain_file_def)
  have names: "quotable (base @ ''.grpc.pb.h'')" "quotable (base @ ''.pb.h'')" "quotable ?name"
    "\<not> is_path (base @ ''.pb.h'')" "\<not> is_path (base @ ''.grpc.pb.h'')"
    using base_not_path [OF f base, of "''.pb.h''"] base_not_path [OF f base, of "''.grpc.pb.h''"] f
    by (simp_all add: plain_file_def special_def)
  note pro = prologue_emits [OF names(1-3)]
  have "emits ?muts []"
    using f write_one_mutator_emits [OF plain(1), of "[]"]
    by (intro emits_concat_none) (simp add: plain_file_def list_all_iff)
  then have hdr: "emits (namespaces_open ?pkg @ (hs @ ?muts) @ namespaces_close ?pkg) (header_literals ?pkg ?svcs)"
    and src: "emits (namespaces_open ?pkg @ ss @ namespaces_close ?pkg) (file_paths f)"
    using write_services_emits [OF plain(1,2) svcs] in_namespaces_emits [OF plain(1)] emits_append
    by (fastforce simp: file_paths_def)+
  obtain lits where lits: "emits (spec_defs ?ws ?rs) lits" "filter is_path lits = []"
    using spec_defs_emits [OF plain(3,4)] by blast
  have "lex_text (rf_content h) = Some ([base @ ''.pb.h''] @ [] @ header_literals ?pkg ?svcs @ [])"
    unfolding h by (intro emits_lex_text emits_append pro hdr spec_decls_emits plain)
  then show "path_literals (rf_content h) = Some (file_paths f)"
    using header_literals_paths [OF plain(1,2)] names by (simp add: path_literals_def file_paths_def)
  have "lex_text (rf_content s) = Some ([base @ ''.grpc.pb.h''] @ file_paths f @ lits)"
    unfolding s by (intro emits_lex_text emits_append pro src lits)
  then show "path_literals (rf_content s) = Some (file_paths f)"
    using names lits by (simp add: path_literals_def)
qed

end
