(* ===== verification/Plugin.thy ===== *)
theory Plugin
  imports Prelude Plugin_C Plugin_Cpp
begin

text \<open>
  The plugin \<open>protoc-gen-grpcudspp\<close>, last part: \<open>main\<close>, which reads a request, generates the files
  it asks for and answers with them or with the first error; and what holds of both modes.
\<close>

section \<open>Requests and responses\<close>

record gen_request =
  rq_parameter :: string
  rq_file_to_generate :: "string list"
  rq_proto_file :: "file_desc list"

record gen_response =
  rs_error :: "string option"
  rs_files :: "response_file list"

definition response_new :: gen_response where
  "response_new = \<lparr>rs_error = None, rs_files = []\<rparr>"

definition c_mode :: "gen_request \<Rightarrow> bool" where
  "c_mode rq \<longleftrightarrow> list_ex (\<lambda>opt. trim opt = ''c'') (split_on (CHR '','') (rq_parameter rq))"

definition generate_one :: "bool \<Rightarrow> file_desc \<Rightarrow> string + response_file \<times> response_file" where
  "generate_one c proto = (if c then generate_file_c proto else generate_file_cpp proto)"

text \<open>The loop over the files: \<open>continue\<close> on those not asked for, \<open>break\<close> at the first error.\<close>

fun emit_files :: "bool \<Rightarrow> string set \<Rightarrow> file_desc list \<Rightarrow> gen_response \<Rightarrow> gen_response" where
  "emit_files c want [] rs = rs"
| "emit_files c want (proto # protos) rs =
     (if fl_name proto \<notin> want \<or> fl_services proto = [] then emit_files c want protos rs
      else case generate_one c proto of
             Inr (h, s) \<Rightarrow> emit_files c want protos (rs\<lparr>rs_files := rs_files rs @ [h, s]\<rparr>)
           | Inl e \<Rightarrow> rs\<lparr>rs_error := Some (fl_name proto @ '': '' @ e)\<rparr>)"

text \<open>
  \<open>main\<close> up to the encoding of the response. The protobuf parser, an argument, gives a request or
  the text of its error.
\<close>

definition plugin_main :: "('b \<Rightarrow> string + gen_request) \<Rightarrow> 'b \<Rightarrow> gen_response" where
  "plugin_main parse buf =
     (case parse buf of
        Inl e \<Rightarrow> response_new\<lparr>rs_error := Some (''could not parse CodeGeneratorRequest: '' @ e)\<rparr>
      | Inr rq \<Rightarrow>
          emit_files (c_mode rq) (set (rq_file_to_generate rq)) (rq_proto_file rq) response_new)"

section \<open>What is generated\<close>

text \<open>What both modes accept of a method.\<close>

definition acceptable :: "bool \<Rightarrow> method_desc \<Rightarrow> bool" where
  "acceptable c m \<longleftrightarrow>
     \<not> md_client_streaming m \<and>
     (c \<longrightarrow> md_name m \<notin> set C_RESERVED \<and> \<not> starts_with ''_'' (md_name m))"

definition file_methods :: "file_desc \<Rightarrow> method_desc list" where
  "file_methods f = concat (map sd_methods (fl_services f))"

definition rejection :: "method_desc \<Rightarrow> string" where
  "rejection m = ''method '' @ md_name m @
     (if md_client_streaming m then '': client-streaming RPCs are not supported''
      else '': the name is reserved in the generated C surface (C keyword, standard macro, '' @
           ''leading underscore, or generator-occupied identifier)'')"

text \<open>The error of a loop over methods with an early return: that of the first one rejected.\<close>

definition first_rejection :: "bool \<Rightarrow> method_desc list \<Rightarrow> string option" where
  "first_rejection c ms = map_option rejection (find (\<lambda>m. \<not> acceptable c m) ms)"

lemma first_rejection_simps [simp]:
  "first_rejection c [] = None"
  "first_rejection c (m # ms) = (if acceptable c m then first_rejection c ms else Some (rejection m))"
  "first_rejection c (xs @ ys) =
     (case first_rejection c xs of Some e \<Rightarrow> Some e | None \<Rightarrow> first_rejection c ys)"
  by (simp_all add: first_rejection_def find_append split: option.split)

definition the_error :: "'e + 'a \<Rightarrow> 'e option" where
  "the_error r = (case r of Inl e \<Rightarrow> Some e | Inr _ \<Rightarrow> None)"

lemma the_error_simps [simp]: "the_error (Inl e) = Some e" "the_error (Inr x) = None"
  by (simp_all add: the_error_def)

lemma c_methods_rejection: "c_methods_error ms = first_rejection True ms"
  by (induction ms)
    (auto simp: c_method_error_def acceptable_def rejection_def Let_def split: option.split)

lemma c_services_rejection:
  "the_error (c_services pkg svcs) = first_rejection True (concat (map sd_methods svcs))"
  by (induction svcs)
    (auto simp: write_c_service_def Let_def c_methods_rejection the_error_def
      split: sum.splits option.splits)

lemma write_method_decls_rejection: "the_error (write_method_decls ms) = first_rejection False ms"
  by (induction ms)
    (auto simp: write_method_decl_def acceptable_def rejection_def the_error_def split: sum.splits)

lemma write_services_rejection:
  "the_error (write_services pkg svcs) = first_rejection False (concat (map sd_methods svcs))"
proof (induction svcs)
  case (Cons svc svcs)
  then show ?case
    using write_method_decls_rejection [of "sd_methods svc"]
    by (auto simp: write_service_header_def Let_def the_error_def split: sum.splits option.splits)
qed simp

lemma generate_one_rejection:
  "the_error (generate_one c f) =
     (if ends_with ''.proto'' (fl_name f) then first_rejection c (file_methods f)
      else Some (''file name does not end in .proto: '' @ fl_name f))"
  using c_services_rejection [of "fl_package f" "fl_services f"]
    write_services_rejection [of "fl_package f" "fl_services f"]
  by (cases c)
    (auto simp: generate_one_def generate_file_c_def generate_file_cpp_def file_methods_def
      ends_with_def strip_suffix_def Let_def the_error_def split: sum.splits)

text \<open>The files a request asks for, and what one of them contributes.\<close>

definition requested :: "string set \<Rightarrow> file_desc list \<Rightarrow> file_desc list" where
  "requested want = filter (\<lambda>f. fl_name f \<in> want \<and> fl_services f \<noteq> [])"

definition outputs :: "bool \<Rightarrow> file_desc \<Rightarrow> response_file list" where
  "outputs c f = (case generate_one c f of Inr (h, s) \<Rightarrow> [h, s] | Inl _ \<Rightarrow> [])"

definition fails :: "bool \<Rightarrow> file_desc \<Rightarrow> bool" where
  "fails c f \<longleftrightarrow> the_error (generate_one c f) \<noteq> None"

lemma emit_files_files:
  "rs_files (emit_files c want protos rs) =
     rs_files rs @ concat (map (outputs c) (takeWhile (\<lambda>f. \<not> fails c f) (requested want protos)))"
  by (induction protos arbitrary: rs)
    (auto simp: requested_def outputs_def fails_def split: sum.split)

lemma emit_files_error:
  "rs_error (emit_files c want protos rs) =
     (case find (fails c) (requested want protos) of
        None \<Rightarrow> rs_error rs
      | Some f \<Rightarrow> map_option (\<lambda>e. fl_name f @ '': '' @ e) (the_error (generate_one c f)))"
  by (induction protos arbitrary: rs) (auto simp: requested_def fails_def split: sum.split option.split)

section \<open>Properties\<close>

text \<open>
  C12. The generated client and server speak of the same methods: whatever the mode, the header and
  the source generated for a file are well-formed text, with every bracket closed by its own kind
  and every literal on its line, and the method paths the stubs in the header call are, in order,
  exactly those the source registers, one \<open>/package.Service/Method\<close> for each method of the file.
\<close>

theorem generated_paths_agree:
  assumes "plain_file f" and "generate_one c f = Inr (h, s)"
  shows "path_literals (rf_content h) = Some (file_paths f)
    \<and> path_literals (rf_content s) = Some (file_paths f)"
  using assms generate_file_c_literals [of f h s] generate_file_cpp_literals [of f h s]
  by (auto simp: generate_one_def split: if_splits)

definition demo_file :: file_desc where
  "demo_file = \<lparr>fl_name = ''d/e.proto'', fl_package = ''p.q'', fl_messages = [],
     fl_services = [\<lparr>sd_name = ''S'', sd_methods =
       [\<lparr>md_name = ''A'', md_input = ''.p.q.I'', md_output = ''.p.q.O'',
         md_client_streaming = False, md_server_streaming = False\<rparr>,
        \<lparr>md_name = ''B'', md_input = ''.p.q.I'', md_output = ''.p.q.O'',
         md_client_streaming = False, md_server_streaming = True\<rparr>]\<rparr>]\<rparr>"

theorem generated_paths_agree_witness:
  "\<exists>h s. generate_one True demo_file = Inr (h, s)
     \<and> path_literals (rf_content s) = Some [''/p.q.S/A'', ''/p.q.S/B'']"
proof -
  have "the_error (generate_one True demo_file) = None"
    by (simp add: generate_one_rejection demo_file_def file_methods_def ends_with_def acceptable_def
        C_RESERVED_def starts_with_def)
  then obtain h s where g: "generate_one True demo_file = Inr (h, s)"
    by (auto simp: the_error_def split: sum.splits)
  have "plain_file demo_file"
    by (simp add: plain_file_def demo_file_def plain_service_def plain_method_def special_def)
  from generated_paths_agree [OF this g] g show ?thesis
    by (simp add: demo_file_def file_paths_def service_paths_def method_path_def full_name_def)
qed

text \<open>
  C27. When a file is refused and with what message: generation succeeds exactly when the file name
  ends in \<open>.proto\<close> and no method is client-streaming or, in C mode, has a reserved name; otherwise the
  error is that of the first such method in the order of the file.
\<close>

theorem generate_verdict:
  "case generate_one c f of
     Inr _ \<Rightarrow> ends_with ''.proto'' (fl_name f) \<and> list_all (acceptable c) (file_methods f)
   | Inl e \<Rightarrow>
       if ends_with ''.proto'' (fl_name f)
       then (\<exists>m. find (\<lambda>m. \<not> acceptable c m) (file_methods f) = Some m \<and> e = rejection m)
       else e = ''file name does not end in .proto: '' @ fl_name f"
  using generate_one_rejection [of c f]
  by (auto simp: first_rejection_def find_None_iff list_all_iff the_error_def
      dest!: sym [of "Some _"] split: sum.splits if_splits option.splits)

text \<open>
  What the plugin answers: the two files of each requested file that declares services, in the
  order of the request, up to the first one that is refused; its error, with the name of the file,
  is the error of the response, and there is none if no file is refused. A request that does not
  parse gives an error and no files.
\<close>

lemma plugin_response:
  "case parse buf of
     Inl e \<Rightarrow> rs_files (plugin_main parse buf) = [] \<and>
       rs_error (plugin_main parse buf) = Some (''could not parse CodeGeneratorRequest: '' @ e)
   | Inr rq \<Rightarrow>
       (let c = c_mode rq; todo = requested (set (rq_file_to_generate rq)) (rq_proto_file rq)
        in rs_files (plugin_main parse buf) = concat (map (outputs c) (takeWhile (\<lambda>f. \<not> fails c f) todo))
           \<and> rs_error (plugin_main parse buf) =
               (case find (fails c) todo of
                  None \<Rightarrow> None
                | Some f \<Rightarrow> map_option (\<lambda>e. fl_name f @ '': '' @ e) (the_error (generate_one c f))))"
  by (simp add: plugin_main_def response_new_def emit_files_files emit_files_error Let_def
      split: sum.split option.split)

end
