(* ===== verification/Build_Gen.thy ===== *)
theory Build_Gen
  imports Codegen_Text Plugin_Names
begin

text \<open>
  The build-script generator \<open>grpcuds-build\<close>: the service generator plugged into prost-build, which
  writes a server trait, its registration function and a typed client for each service. prost-build
  itself, which reads the \<open>.proto\<close> files and calls the generator, is an argument.
\<close>

section \<open>Services as prost-build describes them\<close>

record prost_method =
  pm_name :: string
  pm_proto_name :: string
  pm_input_type :: string
  pm_output_type :: string
  pm_client_streaming :: bool
  pm_server_streaming :: bool
  pm_comments :: "string list"

record prost_service =
  ps_name :: string
  ps_proto_name :: string
  ps_package :: string
  ps_methods :: "prost_method list"
  ps_comments :: "string list"

section \<open>Configuration\<close>

record generator =
  gn_server :: bool
  gn_client :: bool

record 'p build_config =
  bc_prost :: 'p
  bc_server :: bool
  bc_client :: bool

definition configure :: "'p \<Rightarrow> 'p build_config" where
  "configure prost = \<lparr>bc_prost = prost, bc_server = True, bc_client = True\<rparr>"

definition build_server :: "bool \<Rightarrow> 'p build_config \<Rightarrow> 'p build_config" where
  "build_server enabled b = b\<lparr>bc_server := enabled\<rparr>"

definition build_client :: "bool \<Rightarrow> 'p build_config \<Rightarrow> 'p build_config" where
  "build_client enabled b = b\<lparr>bc_client := enabled\<rparr>"

definition compile_protos ::
  "('p \<Rightarrow> generator \<Rightarrow> string list \<Rightarrow> string list \<Rightarrow> 'r) \<Rightarrow> string list \<Rightarrow> string list \<Rightarrow> 'p build_config \<Rightarrow> 'r"
where
  "compile_protos run protos includes b =
     run (bc_prost b) \<lparr>gn_server = bc_server b, gn_client = bc_client b\<rparr> protos includes"

section \<open>Names\<close>

definition to_snake :: "string \<Rightarrow> string" where
  "to_snake s =
     concat (map (\<lambda>(i, c).
         if is_ascii_uppercase c
         then (if i > 0 then ''_'' else []) @ [to_ascii_lowercase c]
         else [c])
       (enumerate 0 s))"

definition add_fn :: "prost_service \<Rightarrow> string" where
  "add_fn svc =
     (let snake = to_snake (ps_name svc)
      in if ends_with ''_service'' snake then ''add_'' @ snake
         else ''add_'' @ snake @ ''_service'')"

definition prost_path :: "prost_service \<Rightarrow> prost_method \<Rightarrow> string" where
  "prost_path svc m = ''/'' @ ps_package svc @ ''.'' @ ps_proto_name svc @ ''/'' @ pm_proto_name m"

section \<open>The client\<close>

definition service_comments :: "prost_service \<Rightarrow> string list" where
  "service_comments svc = map (\<lambda>line. ''///'' @ line) (ps_comments svc)"

definition method_comments :: "prost_method \<Rightarrow> string list" where
  "method_comments m = map (\<lambda>line. ''    ///'' @ line) (pm_comments m)"

definition client_method :: "prost_service \<Rightarrow> prost_method \<Rightarrow> string list" where
  "client_method svc m =
     (let path = prost_path svc m
      in method_comments m
        @ (if pm_server_streaming m then [
          ''    pub fn '' @ pm_name m @ ''(&mut self, request: '' @ pm_input_type m @
            '') -> ::core::result::Result<::grpcuds::TypedStreaming<'' @ SQ @ ''_, '' @
            pm_output_type m @ ''>, ::grpcuds::Status> {'',
          ''        self.inner.server_streaming_msg('' @ DQ @ path @ DQ @ '', &request)'',
          ''    }'']
         else [
          ''    pub fn '' @ pm_name m @ ''(&mut self, request: '' @ pm_input_type m @
            '') -> ::core::result::Result<'' @ pm_output_type m @ '', ::grpcuds::Status> {'',
          ''        self.inner.unary_msg('' @ DQ @ path @ DQ @ '', &request)'',
          ''    }'']))"

definition client_prologue :: "prost_service \<Rightarrow> string list" where
  "client_prologue svc = [
      ''/// Generated grpcuds client for `'' @ ps_package svc @ ''.'' @ ps_proto_name svc @
        ''` (needs the `client` + `prost` features of `grpcuds`).'']
    @ service_comments svc @ [
      ''pub struct '' @ (ps_name svc @ ''Client'') @ '' {'',
      ''    inner: ::grpcuds::Client,'',
      ''}'',
      ''impl '' @ (ps_name svc @ ''Client'') @ '' {'',
      ''    /// Connect to a grpcuds (or any gRPC-over-UDS) server at `path`.'',
      ''    pub fn connect(path: impl ::core::convert::AsRef<::std::path::Path>) -> ::core::result::Result<Self, ::grpcuds::Error> {'',
      ''        ::core::result::Result::Ok(Self { inner: ::grpcuds::Client::connect(path)? })'',
      ''    }'',
      ''    /// Wrap an already-connected [`::grpcuds::Client`].'',
      ''    pub fn from_client(inner: ::grpcuds::Client) -> Self {'',
      ''        Self { inner }'',
      ''    }'',
      ''    /// The underlying untyped client (e.g. for raw byte calls).'',
      ''    pub fn into_inner(self) -> ::grpcuds::Client {'',
      ''        self.inner'',
      ''    }'',
      ''    /// Per-call timeout passthrough '' @ [CHR 0xE2, CHR 0x80, CHR 0x94] @
        '' see [`::grpcuds::Client::set_timeout`].'',
      ''    pub fn set_timeout(&mut self, timeout: ::core::option::Option<::std::time::Duration>) {'',
      ''        self.inner.set_timeout(timeout)'',
      ''    }'']"

definition generate_client :: "prost_service \<Rightarrow> string list" where
  "generate_client svc =
     client_prologue svc @ concat (map (client_method svc) (ps_methods svc)) @ [''}'']"

section \<open>The server\<close>

definition trait_method :: "prost_method \<Rightarrow> string list" where
  "trait_method m =
     method_comments m
     @ (if pm_server_streaming m then [
          ''    fn '' @ pm_name m @ ''(&self, request: '' @ pm_input_type m @
            '', writer: ::grpcuds::MessageWriter<'' @ pm_output_type m @
            ''>) -> ::grpcuds::Status;'']
        else [
          ''    fn '' @ pm_name m @ ''(&self, request: '' @ pm_input_type m @
            '') -> ::core::result::Result<'' @ pm_output_type m @ '', ::grpcuds::Status>;''])"

definition server_trait :: "prost_service \<Rightarrow> string list" where
  "server_trait svc = [
      ''/// Generated grpcuds server trait for `'' @ ps_package svc @ ''.'' @ ps_proto_name svc
        @ ''`.'']
    @ service_comments svc @ [
      ''pub trait '' @ ps_name svc @ '': Send + Sync + '' @ SQ @ ''static {'']
    @ concat (map trait_method (ps_methods svc)) @ [
      ''}'']"

definition register_method_code :: "prost_service \<Rightarrow> prost_method \<Rightarrow> string list" where
  "register_method_code svc m =
     (let path = prost_path svc m
      in if pm_server_streaming m then [
          ''    let s = svc.clone();'',
          ''    b = b.add_server_streaming_msg('' @ DQ @ path @ DQ @
            '', move |req, w: &::grpcuds::MessageWriter<_>| s.'' @ pm_name m @
            ''(req, w.clone()));'']
         else [
          ''    let s = svc.clone();'',
          ''    b = b.add_unary_msg('' @ DQ @ path @ DQ @ '', move |req| s.'' @ pm_name m @
            ''(req));''])"

definition registration :: "prost_service \<Rightarrow> string list" where
  "registration svc = [
      ''/// Register every `'' @ ps_package svc @ ''.'' @ ps_proto_name svc @
        ''` method of `svc` on `builder`.'',
      ''pub fn '' @ add_fn svc @ ''<T: '' @ ps_name svc @ ''>('',
      ''    builder: ::grpcuds::ServerBuilder,'',
      ''    svc: ::std::sync::Arc<T>,'',
      '') -> ::grpcuds::ServerBuilder {'',
      ''    let mut b = builder;'']
    @ concat (map (register_method_code svc) (ps_methods svc)) @ [
      ''    b'',
      ''}'']"

text \<open>\<open>generate\<close>: \<open>Inl\<close> is the panic, \<open>Inr\<close> the lines appended to the buffer.\<close>

definition build_generate :: "generator \<Rightarrow> prost_service \<Rightarrow> string + string list" where
  "build_generate g svc =
     (case find pm_client_streaming (ps_methods svc) of
        Some m \<Rightarrow>
          Inl (''grpcuds supports unary and server-streaming RPCs only; '' @ ps_package svc @ ''.'' @
            ps_proto_name svc @ ''/'' @ pm_proto_name m @ '' is client-streaming or bidirectional'')
      | None \<Rightarrow>
          Inr ((if gn_client g then generate_client svc else [])
               @ (if gn_server g then server_trait svc @ registration svc else [])))"

section \<open>The generated text\<close>

text \<open>
  What prost-build guarantees: names without brackets, quotes or slashes, types that are paths or the
  unit type, and comments split into lines.
\<close>

definition rust_type :: "string \<Rightarrow> bool" where
  "rust_type t \<longleftrightarrow> plain t \<or> t = ''()''"

definition one_line :: "string \<Rightarrow> bool" where
  "one_line s \<longleftrightarrow> CHR 0x0A \<notin> set s"

definition prost_method_ok :: "prost_method \<Rightarrow> bool" where
  "prost_method_ok m \<longleftrightarrow>
     plain (pm_name m) \<and> plain (pm_proto_name m) \<and> rust_type (pm_input_type m)
     \<and> rust_type (pm_output_type m) \<and> list_all one_line (pm_comments m)"

definition prost_service_ok :: "prost_service \<Rightarrow> bool" where
  "prost_service_ok svc \<longleftrightarrow>
     plain (ps_name svc) \<and> plain (ps_proto_name svc) \<and> plain (ps_package svc)
     \<and> list_all prost_method_ok (ps_methods svc) \<and> list_all one_line (ps_comments svc)"

lemma lex_rust_type [lex_eval]:
  "rust_type t \<Longrightarrow> lex_run (Lex Code st ls) (t @ r) = lex_run (Lex Code st ls) r"
  by (auto simp: rust_type_def lex_eval)

lemma byte_of_lower: "is_ascii_uppercase c \<Longrightarrow> byte_of (to_ascii_lowercase c) = byte_of c + 32"
  by (auto simp: to_ascii_lowercase_def is_ascii_uppercase_def byte_of_def)

lemma lower_not_special: "is_ascii_uppercase c \<Longrightarrow> to_ascii_lowercase c \<notin> set special"
  using special_bytes [of "to_ascii_lowercase c"]
  by (auto simp: byte_of_lower is_ascii_uppercase_def)

lemma plain_to_snake [simp]:
  assumes "plain s"
  shows "plain (to_snake s)"
proof -
  have "plain ((if is_ascii_uppercase c then (if i > 0 then ''_'' else []) @ [to_ascii_lowercase c] else [c]))"
    if "(i, c) \<in> set (enumerate 0 s)" for i c
  proof -
    from that have "c \<in> set s" by (auto simp: in_set_enumerate_eq)
    with assms lower_not_special [of c] show ?thesis
      by (auto simp: plain_def list_all_iff special_def)
  qed
  then show ?thesis by (auto simp: to_snake_def plain_concat list_all_iff)
qed

lemma plain_add_fn [simp]: "plain (ps_name svc) \<Longrightarrow> plain (add_fn svc)"
  by (simp add: add_fn_def Let_def special_def)

lemma quotable_prost_path [simp]:
  "prost_service_ok svc \<Longrightarrow> prost_method_ok m \<Longrightarrow> quotable (prost_path svc m)"
  by (simp add: prost_path_def prost_service_ok_def prost_method_ok_def)

lemma service_comments_emits: "list_all one_line (ps_comments svc) \<Longrightarrow> emits (service_comments svc) []"
proof -
  have "emits (map (\<lambda>line. ''///'' @ line) cs) []" if "list_all one_line cs" for cs
    unfolding emits_def using that by (induction cs) (simp_all add: lex_eval one_line_def)
  then show "list_all one_line (ps_comments svc) \<Longrightarrow> ?thesis" by (simp add: service_comments_def)
qed

lemma method_comments_emits: "prost_method_ok m \<Longrightarrow> emits (method_comments m) []"
proof -
  have "emits (map (\<lambda>line. ''    ///'' @ line) cs) []" if "list_all one_line cs" for cs
    unfolding emits_def using that by (induction cs) (simp_all add: lex_eval one_line_def)
  then show "prost_method_ok m \<Longrightarrow> ?thesis" by (simp add: method_comments_def prost_method_ok_def)
qed

lemma client_method_emits:
  assumes "prost_service_ok svc" and "prost_method_ok m"
  shows "emits (client_method svc m) [prost_path svc m]"
proof -
  note comments = method_comments_emits [OF assms(2)] and path = quotable_prost_path [OF assms]
  show ?thesis
    unfolding emits_def using assms(2) comments path
    by (simp add: client_method_def Let_def prost_method_ok_def lex_eval)
qed

lemma generate_client_emits:
  assumes "prost_service_ok svc"
  shows "emits (generate_client svc) (map (prost_path svc) (ps_methods svc))"
proof -
  have "emits (concat (map (client_method svc) (ps_methods svc))) (map (prost_path svc) (ps_methods svc))"
    using assms client_method_emits
    by (intro emits_concat_each) (simp add: prost_service_ok_def list_all_iff)
  with service_comments_emits [of svc] assms show ?thesis
    unfolding emits_def by (simp add: generate_client_def client_prologue_def prost_service_ok_def lex_eval)
qed

lemma trait_method_emits: "prost_method_ok m \<Longrightarrow> emits (trait_method m) []"
proof -
  assume "prost_method_ok m"
  with method_comments_emits [OF this] show ?thesis
    unfolding emits_def by (simp add: trait_method_def prost_method_ok_def lex_eval)
qed

lemma server_trait_emits:
  assumes "prost_service_ok svc"
  shows "emits (server_trait svc) []"
proof -
  have "emits (concat (map trait_method (ps_methods svc))) []"
    using assms trait_method_emits
    by (intro emits_concat_none) (simp add: prost_service_ok_def list_all_iff)
  with service_comments_emits [of svc] assms show ?thesis
    unfolding emits_def by (simp add: server_trait_def prost_service_ok_def lex_eval)
qed

lemma register_method_emits:
  assumes "prost_service_ok svc" and "prost_method_ok m"
  shows "emits (register_method_code svc m) [prost_path svc m]"
  unfolding emits_def using assms(2) quotable_prost_path [OF assms]
  by (simp add: register_method_code_def Let_def prost_method_ok_def lex_eval)

lemma registration_emits:
  assumes "prost_service_ok svc"
  shows "emits (registration svc) (map (prost_path svc) (ps_methods svc))"
proof -
  have "emits (concat (map (register_method_code svc) (ps_methods svc))) (map (prost_path svc) (ps_methods svc))"
    using assms register_method_emits
    by (intro emits_concat_each) (simp add: prost_service_ok_def list_all_iff)
  with assms show ?thesis
    unfolding emits_def by (simp add: registration_def prost_service_ok_def lex_eval)
qed

lemma prost_path_full:
  "prost_path svc m = method_path (full_name (ps_package svc) (ps_proto_name svc)) (pm_proto_name m)
     \<longleftrightarrow> ps_package svc \<noteq> []"
proof (cases "ps_package svc")
  case Nil
  have "''.'' @ s @ t \<noteq> s @ t" for s t :: string by (metis append_Cons append_Nil append_assoc not_Cons_self2 same_append_eq append_same_eq)
  with Nil show ?thesis by (simp add: prost_path_def method_path_def full_name_def)
qed (simp add: prost_path_def method_path_def full_name_def)

section \<open>Properties\<close>

text \<open>
  C28. The Rust stubs and registrations agree with each other, and with the C and C++ ones only in a
  package: for a service without client-streaming methods the generated text is well-formed and its
  literals are the method paths, once for the client and once for the server if both are asked for;
  each is the path the plugin generates for that method exactly when the service has a package. With
  an empty package the Rust path is \<open>/.Service/Method\<close>.
\<close>

theorem rust_paths_need_package:
  assumes "prost_service_ok svc" and "build_generate g svc = Inr ls"
  shows "lex_text (unlines ls) =
      Some (let paths = map (prost_path svc) (ps_methods svc)
            in (if gn_client g then paths else []) @ (if gn_server g then paths else []))
    \<and> (\<forall>m. prost_path svc m
              = method_path (full_name (ps_package svc) (ps_proto_name svc)) (pm_proto_name m)
            \<longleftrightarrow> ps_package svc \<noteq> [])"
proof -
  let ?paths = "map (prost_path svc) (ps_methods svc)"
  have "emits (server_trait svc @ registration svc) ?paths"
    using emits_append [OF server_trait_emits registration_emits] assms(1) by simp
  then have "emits ls ((if gn_client g then ?paths else []) @ (if gn_server g then ?paths else []))"
    using assms(2) generate_client_emits [OF assms(1)]
    by (auto simp: build_generate_def intro!: emits_append split: option.splits)
  then show ?thesis using prost_path_full [of svc] by (simp add: emits_lex_text Let_def)
qed

theorem rust_paths_need_package_witness:
  "let m = \<lparr>pm_name = ''say'', pm_proto_name = ''Say'', pm_input_type = ''()'', pm_output_type = ''R'',
             pm_client_streaming = False, pm_server_streaming = False, pm_comments = [DQ]\<rparr>;
       svc = \<lparr>ps_name = ''Echo'', ps_proto_name = ''Echo'', ps_package = [], ps_methods = [m], ps_comments = []\<rparr>
   in \<exists>ls. build_generate \<lparr>gn_server = True, gn_client = True\<rparr> svc = Inr ls
        \<and> lex_text (unlines ls) = Some [''/.Echo/Say'', ''/.Echo/Say'']"
proof -
  let ?m = "\<lparr>pm_name = ''say'', pm_proto_name = ''Say'', pm_input_type = ''()'', pm_output_type = ''R'',
             pm_client_streaming = False, pm_server_streaming = False, pm_comments = [DQ]\<rparr>"
  let ?svc = "\<lparr>ps_name = ''Echo'', ps_proto_name = ''Echo'', ps_package = [], ps_methods = [?m], ps_comments = []\<rparr>"
  let ?g = "\<lparr>gn_server = True, gn_client = True\<rparr>"
  obtain ls where g: "build_generate ?g ?svc = Inr ls" by (simp add: build_generate_def)
  have "prost_service_ok ?svc"
    by (simp add: prost_service_ok_def prost_method_ok_def rust_type_def one_line_def special_def)
  from rust_paths_need_package [OF this g] g show ?thesis by (simp add: prost_path_def Let_def)
qed

end
