(* ===== verification/Sys_Build.thy ===== *)
theory Sys_Build
  imports Prelude Codegen_Text
begin

text \<open>
  The build script of \<open>grpcuds-sys\<close>: where the nghttp2 headers and library come from. What the
  script asks of its surroundings (environment variables, the file system, git and CMake) is a
  record, in which \<open>be_git_init\<close> says that git succeeded and the source is there afterwards and
  \<open>be_cmake\<close> is where CMake installs what it builds from a source; the answer is the list of arguments for clang and of directives for cargo, or the message
  of the panic. Generating the bindings from them is bindgen's work.
\<close>

section \<open>Surroundings\<close>

record build_env =
  be_target :: string
  be_host :: string
  be_manifest_dir :: string
  be_out_dir :: string
  be_bundled :: bool
  be_docs_rs :: bool
  be_sysroot :: "string option"
  be_exists :: "string \<Rightarrow> bool"
  be_is_file :: "string \<Rightarrow> bool"
  be_is_dir :: "string \<Rightarrow> bool"
  be_read :: "string \<Rightarrow> string option"
  be_git_init :: bool
  be_cmake :: "string \<Rightarrow> string"

record build_plan =
  bp_clang_args :: "string list"
  bp_directives :: "string list"

text \<open>\<open>Path::join\<close> with a relative path.\<close>

definition path_join :: "string \<Rightarrow> string \<Rightarrow> string" where
  "path_join a b = (if a = [] \<or> last a = CHR ''/'' then a @ b else a @ ''/'' @ b)"

definition em_dash :: string where "em_dash = [CHR 0xE2, CHR 0x80, CHR 0x94]"

section \<open>The version header\<close>

text \<open>
  \<open>str::lines\<close> splits at line feeds, with a carriage return before them;
  \<open>str::parse::<u32>\<close> reads decimal digits after an optional plus sign.
\<close>

definition strip_cr :: "string \<Rightarrow> string" where
  "strip_cr l = (if l \<noteq> [] \<and> last l = CHR 0x0D then butlast l else l)"

definition str_lines :: "string \<Rightarrow> string list" where
  "str_lines s =
     (let ps = split_on (CHR 0x0A) s
      in map strip_cr (butlast ps) @ (if last ps = [] then [] else [last ps]))"

fun dec_digits :: "nat \<Rightarrow> string \<Rightarrow> nat option" where
  "dec_digits v [] = Some v"
| "dec_digits v (c # cs) =
     (if is_ascii_digit c \<and> v * 10 + (byte_of c - 48) < 2 ^ 32
      then dec_digits (v * 10 + (byte_of c - 48)) cs else None)"

definition parse_str_u32 :: "string \<Rightarrow> u32 option" where
  "parse_str_u32 s =
     (let ds = (case s of c # cs \<Rightarrow> if c = CHR ''+'' then cs else s | [] \<Rightarrow> [])
      in if ds = [] then None else map_option of_nat (dec_digits 0 ds))"

definition strip_prefix :: "string \<Rightarrow> string \<Rightarrow> string option" where
  "strip_prefix p s = (if starts_with p s then Some (drop (length p) s) else None)"

definition version_of :: "string \<Rightarrow> string option" where
  "version_of cml =
     (case List.map_filter (\<lambda>l. strip_prefix ''project(nghttp2 VERSION '' (trim l)) (str_lines cml) of
        [] \<Rightarrow> None
      | v # _ \<Rightarrow> map_option trim (strip_suffix '')'' v))"

fun version_num :: "string list \<Rightarrow> u32 \<Rightarrow> u32 option" where
  "version_num [] num = Some num"
| "version_num (p # ps) num =
     (case parse_str_u32 p of
        None \<Rightarrow> None
      | Some n \<Rightarrow> version_num ps (or (push_bit 8 num) n))"

text \<open>\<open>{num:#08x}\<close>: lower-case hexadecimal after \<open>0x\<close>, padded with zeros to eight characters.\<close>

definition hex_digit :: "nat \<Rightarrow> char" where
  "hex_digit d = ''0123456789abcdef'' ! d"

fun hex_digits :: "nat \<Rightarrow> string" where
  "hex_digits n = (if n < 16 then [hex_digit n] else hex_digits (n div 16) @ [hex_digit (n mod 16)])"

declare hex_digits.simps [simp del]

definition fmt_hex8 :: "u32 \<Rightarrow> string" where
  "fmt_hex8 num =
     (let ds = hex_digits (unat num)
      in ''0x'' @ replicate (6 - length ds) (CHR ''0'') @ ds)"

text \<open>\<open>str::replace\<close> with a non-empty pattern.\<close>

function str_replace :: "string \<Rightarrow> string \<Rightarrow> string \<Rightarrow> string" where
  "str_replace pat by_s s =
     (case s of
        [] \<Rightarrow> []
      | c # cs \<Rightarrow>
          if pat \<noteq> [] \<and> starts_with pat s then by_s @ str_replace pat by_s (drop (length pat) s)
          else c # str_replace pat by_s cs)"
  by pat_completeness auto

termination str_replace
  by (relation "measure (\<lambda>(_, _, s). length s)") auto

declare str_replace.simps [simp del]

section \<open>Sources of nghttp2\<close>

definition sysroot_nghttp2_header :: "build_env \<Rightarrow> string \<Rightarrow> string option" where
  "sysroot_nghttp2_header env root =
     find (be_is_file env)
       (map (\<lambda>inc. path_join (path_join root inc) ''nghttp2/nghttp2.h'')
         [''usr/include'', ''usr/local/include'', ''include''])"

definition ensure_bundled_source :: "build_env \<Rightarrow> string + string" where
  "ensure_bundled_source env =
     (let src = path_join (be_manifest_dir env) ''vendor/nghttp2-src''
      in if be_exists env (path_join src ''CMakeLists.txt'') \<or> be_git_init env then Inr src
         else Inl (''grpcuds-sys: bundled nghttp2 source missing at '' @ src @
           '' and automatic submodule init failed '' @ em_dash @ '' run: git submodule update --init '' @
           ''rust/grpcuds-sys/vendor/nghttp2-src''))"

text \<open>The directory for \<open>-I\<close> on docs.rs, and the version header written there.\<close>

definition docs_rs_include :: "build_env \<Rightarrow> string + string \<times> string" where
  "docs_rs_include env =
     (case ensure_bundled_source env of
        Inl e \<Rightarrow> Inl e
      | Inr src \<Rightarrow>
          (case (be_read env (path_join src ''lib/includes/nghttp2/nghttp2ver.h.in''),
                 be_read env (path_join src ''CMakeLists.txt'')) of
             (None, _) \<Rightarrow> Inl ''nghttp2ver.h.in missing from the nghttp2 source''
           | (_, None) \<Rightarrow> Inl ''nghttp2 CMakeLists.txt missing''
           | (Some tpl, Some cml) \<Rightarrow>
               (case version_of cml of
                  None \<Rightarrow> Inl ''could not parse nghttp2 version from CMakeLists.txt''
                | Some version \<Rightarrow>
                    (case version_num (split_on (CHR ''.'') version) 0 of
                       None \<Rightarrow> Inl ''numeric version part''
                     | Some num \<Rightarrow>
                         Inr (path_join (be_out_dir env) ''docsrs-include'',
                              str_replace ''@PACKAGE_VERSION_NUM@'' (fmt_hex8 num)
                                (str_replace ''@PACKAGE_VERSION@'' version tpl))))))"

definition build_bundled_nghttp2 :: "build_env \<Rightarrow> string + string \<times> string list" where
  "build_bundled_nghttp2 env =
     (case ensure_bundled_source env of
        Inl e \<Rightarrow> Inl e
      | Inr src \<Rightarrow>
          (let dst = be_cmake env src
           in Inr (path_join dst ''include'',
                [''cargo:rerun-if-changed='' @ path_join src ''lib'',
                 ''cargo:rustc-link-search=native='' @ path_join dst ''lib'',
                 ''cargo:rustc-link-lib=static=nghttp2'',
                 ''cargo:root='' @ dst,
                 ''cargo:include='' @ path_join dst ''include''])))"

section \<open>The script\<close>

definition base_directives :: "build_env \<Rightarrow> string list" where
  "base_directives env =
     [''cargo:rerun-if-changed=build.rs'', ''cargo:rerun-if-changed=wrapper.h'',
      ''cargo:rerun-if-changed='' @ path_join (be_manifest_dir env) ''vendor'',
      ''cargo:rerun-if-env-changed=SYSROOT'', ''cargo:rerun-if-env-changed=DOCS_RS'']"

definition sysroot :: "build_env \<Rightarrow> string option" where
  "sysroot env = (case be_sysroot env of Some s \<Rightarrow> if s = [] then None else Some s | None \<Rightarrow> None)"

definition is_cross :: "build_env \<Rightarrow> bool" where
  "is_cross env \<longleftrightarrow> be_target env \<noteq> be_host env"

definition base_clang_args :: "build_env \<Rightarrow> string list" where
  "base_clang_args env =
     (if is_cross env then [''--target='' @ be_target env] else [])
     @ (case sysroot env of Some s \<Rightarrow> [''--sysroot='' @ s] | None \<Rightarrow> [])"

definition link_searches :: "build_env \<Rightarrow> string \<Rightarrow> string list" where
  "link_searches env root =
     (if sysroot env \<noteq> None
      then map (\<lambda>dir. ''cargo:rustc-link-search=native='' @ dir)
             (filter (be_is_dir env) (map (path_join root) [''usr/lib'', ''usr/lib64'', ''lib'']))
      else [])"

definition dynamic_root :: "build_env \<Rightarrow> string + string" where
  "dynamic_root env =
     (case (sysroot env, is_cross env) of
        (Some s, _) \<Rightarrow> Inr s
      | (None, False) \<Rightarrow> Inr ''/''
      | (None, True) \<Rightarrow> Inl (''grpcuds-sys: cross dynamic build needs SYSROOT set to the '' @
          ''target sysroot (for <nghttp2/nghttp2.h> and libnghttp2.so), or use --features bundled''))"

definition build_main :: "build_env \<Rightarrow> string + build_plan" where
  "build_main env =
     (let args = base_clang_args env; dirs = base_directives env
      in if be_bundled env
         then (case build_bundled_nghttp2 env of
                 Inl e \<Rightarrow> Inl e
               | Inr (incl, ds) \<Rightarrow>
                   Inr \<lparr>bp_clang_args = args @ [''-I'' @ incl], bp_directives = dirs @ ds\<rparr>)
         else (let dirs = dirs @ [''cargo:rustc-link-lib=dylib=nghttp2'']
               in case dynamic_root env of
                    Inl e \<Rightarrow> Inl e
                  | Inr root \<Rightarrow>
                      if sysroot_nghttp2_header env root \<noteq> None
                      then Inr \<lparr>bp_clang_args = args, bp_directives = dirs @ link_searches env root\<rparr>
                      else if be_docs_rs env
                      then (case docs_rs_include env of
                              Inl e \<Rightarrow> Inl e
                            | Inr (incl, _) \<Rightarrow>
                                Inr \<lparr>bp_clang_args = args @ [''-I'' @ incl], bp_directives = dirs\<rparr>)
                      else Inl (''grpcuds-sys: dynamic link requested but <nghttp2/nghttp2.h> was not found under ''
                             @ root @ '' '' @ em_dash @ '' install the nghttp2 dev package into the sysroot '' @
                             ''(e.g. libnghttp2-dev), or build with --features bundled to compile '' @
                             ''nghttp2 from the vendored source instead'')))"

section \<open>One source for header and library\<close>

text \<open>
  Where the script succeeds, the header and the library come from the same place. A bundled build
  reads the headers CMake installed and links, statically, the library installed beside them. A
  dynamic build adds no include directory, so that both are those of the sysroot, in which the header
  was found; only on docs.rs, where nothing is linked, are the headers those of the vendored source.
\<close>

definition links :: "string \<Rightarrow> build_plan \<Rightarrow> bool" where
  "links kind plan \<longleftrightarrow> ''cargo:rustc-link-lib='' @ kind @ ''=nghttp2'' \<in> set (bp_directives plan)"

definition include_dirs :: "build_plan \<Rightarrow> string list" where
  "include_dirs plan = List.map_filter (strip_prefix ''-I'') (bp_clang_args plan)"

lemma base_args_no_include: "List.map_filter (strip_prefix ''-I'') (base_clang_args env) = []"
  by (auto simp: base_clang_args_def List.map_filter_def strip_prefix_def starts_with_def split: option.split)

lemma map_filter_append: "List.map_filter f (xs @ ys) = List.map_filter f xs @ List.map_filter f ys"
  by (simp add: List.map_filter_def)

lemma nghttp2_one_source:
  assumes "build_main env = Inr plan"
  shows "if be_bundled env
    then (\<exists>src. ensure_bundled_source env = Inr src
       \<and> include_dirs plan = [path_join (be_cmake env src) ''include'']
       \<and> links ''static'' plan \<and> \<not> links ''dylib'' plan
       \<and> ''cargo:rustc-link-search=native='' @ path_join (be_cmake env src) ''lib'' \<in> set (bp_directives plan))
    else (\<exists>root. dynamic_root env = Inr root \<and> links ''dylib'' plan \<and> \<not> links ''static'' plan
       \<and> (if sysroot_nghttp2_header env root \<noteq> None then include_dirs plan = []
          else be_docs_rs env))"
  using assms base_args_no_include [of env]
  by (auto simp: build_main_def build_bundled_nghttp2_def base_directives_def link_searches_def include_dirs_def
      links_def map_filter_append map_filter_simps strip_prefix_def starts_with_def Let_def
      split: if_splits sum.splits)

text \<open>
  The version number of a three-part version has one byte for each part and is rendered with exactly
  the six digits nghttp2's own header has.
\<close>

lemma or_shifted_byte:
  assumes "n < 256"
  shows "or (push_bit 8 x) n = 256 * x + (n :: u32)"
proof -
  have "unat n < 2 ^ 8" using assms unat_mono [of n 256] by simp
  then have "unat (take_bit 8 n) = unat n" by (simp add: unsigned_take_bit_eq take_bit_nat_eq_self)
  then have "n = take_bit 8 n" by (metis of_nat_unat ucast_id)
  then have "\<not> bit n i" if "8 \<le> i" for i using that by (metis bit_take_bit_iff not_le)
  then have "push_bit 8 x + n = or (push_bit 8 x) n"
    by (intro disjunctive_add) (auto simp: bit_push_bit_iff not_le)
  then show ?thesis by (simp add: push_bit_eq_mult mult.commute)
qed

lemma version_num_three:
  assumes "parse_str_u32 x = Some a" and "parse_str_u32 y = Some b" and "parse_str_u32 z = Some c"
    and "b < 256" and "c < 256"
  shows "version_num [x, y, z] 0 = Some (65536 * a + 256 * b + c)"
  using assms by (simp add: or_shifted_byte)

lemma hex_digits_length: "n < 16 ^ k \<Longrightarrow> 0 < k \<Longrightarrow> length (hex_digits n) \<le> k"
proof (induction k arbitrary: n)
  case (Suc k)
  show ?case
  proof (cases "n < 16")
    case False
    with Suc.prems have "0 < k" and "n div 16 < 16 ^ k"
      by (auto simp: less_mult_imp_div_less mult.commute intro: gr0I)
    with Suc.IH [of "n div 16"] show ?thesis by (simp add: hex_digits.simps [of n])
  qed (simp add: hex_digits.simps)
qed simp

lemma fmt_hex8_width: "unat num < 2 ^ 24 \<Longrightarrow> length (fmt_hex8 num) = 8"
  using hex_digits_length [of "unat num" 6] by (simp add: fmt_hex8_def Let_def)

end
