(* ===== verification/Cpp_Api.thy ===== *)
theory Cpp_Api
  imports Ffi_Client Runtime
begin

text \<open>
  The C++ classes over the C ABI (\<open>cpp/include/grpcudspp/\<close>): \<open>Status\<close>, \<open>RawWriter\<close> with the
  classes that forward to it, \<open>ServerContext\<close>, \<open>Server\<close>, \<open>ServerBuilder\<close>, \<open>Client\<close> and the log sink
  of \<open>logging.h\<close>. They keep C handles and call the functions of \<open>Ffi_Server\<close> and \<open>Ffi_Client\<close>; as there, an outer \<open>None\<close> of a
  server operation is a dereference of a freed connection, and one of a client operation means that
  the rounds of the wait are used up. nanopb is not part of the sources: \<open>enc cap\<close> encodes into a
  buffer of \<open>cap\<close> bytes or fails, and \<open>dec\<close> decodes into an existing message and says whether it
  succeeded.
\<close>

section \<open>Status\<close>

record cpp_status =
  error_code :: int
  error_message :: bytes

definition cpp_status_new :: "int \<Rightarrow> bytes \<Rightarrow> cpp_status" where
  "cpp_status_new code message = \<lparr>error_code = code, error_message = message\<rparr>"

definition cpp_status_code :: "int \<Rightarrow> cpp_status" where
  "cpp_status_code code = cpp_status_new code []"

definition cpp_ok :: cpp_status where
  "cpp_ok = cpp_status_code (status_code Ok)"

definition cpp_is_ok :: "cpp_status \<Rightarrow> bool" where
  "cpp_is_ok s \<longleftrightarrow> error_code s = status_code Ok"

section \<open>Contexts and writers\<close>

record server_context =
  ctx_call :: nat
  ctx_call_id :: int

definition time_remaining_ms :: "nat \<Rightarrow> server_context \<Rightarrow> 'n abi \<Rightarrow> int option" where
  "time_remaining_ms now ctx w = call_time_remaining_ms_c now (ctx_call ctx) (ctx_call_id ctx) w"

definition returned_0 :: "(int \<times> 'w) option \<Rightarrow> (bool \<times> 'w) option" where
  "returned_0 r = map_option (\<lambda>(rc, w). (rc = 0, w)) r"

definition context_set_cancel_hook ::
    "nat option \<Rightarrow> nat \<Rightarrow> server_context \<Rightarrow> 'n abi \<Rightarrow> (bool \<times> 'n abi) option" where
  "context_set_cancel_hook callback user_data ctx w =
     returned_0 (call_set_cancel_hook (ctx_call ctx) (ctx_call_id ctx) callback user_data w)"

text \<open>\<open>Backpressure\<close> is made by its two factories only.\<close>

record cpp_backpressure =
  bp_unbounded :: bool
  bp_capacity :: nat
  bp_policy :: overflow_policy

definition bp_new_unbounded :: cpp_backpressure where
  "bp_new_unbounded = \<lparr>bp_unbounded = True, bp_capacity = 0, bp_policy = Reject\<rparr>"

definition bp_new_bounded :: "nat \<Rightarrow> overflow_policy \<Rightarrow> cpp_backpressure" where
  "bp_new_bounded capacity policy =
     \<lparr>bp_unbounded = False, bp_capacity = capacity, bp_policy = policy\<rparr>"

fun policy_to_c :: "overflow_policy \<Rightarrow> int" where
  "policy_to_c Reject = 0"
| "policy_to_c DropOldest = 1"

text \<open>A \<open>RawWriter\<close> holds the same pair as a context and is made from one.\<close>

definition raw_write ::
    "'n ng_ops \<Rightarrow> alloc \<Rightarrow> nat \<Rightarrow> server_context \<Rightarrow> bytes option \<Rightarrow> nat \<Rightarrow> 'n abi
       \<Rightarrow> (bool \<times> 'n abi) option" where
  "raw_write ops al me rw data len w =
     returned_0 (call_write ops al me (ctx_call rw) (ctx_call_id rw) data len w)"

definition raw_finish ::
    "'n ng_ops \<Rightarrow> alloc \<Rightarrow> nat \<Rightarrow> server_context \<Rightarrow> cpp_status \<Rightarrow> 'n abi \<Rightarrow> (bool \<times> 'n abi) option"
  where
  "raw_finish ops al me rw s w =
     (let msg = error_message s
      in returned_0 (call_finish_msg ops al me (ctx_call rw) (ctx_call_id rw) (error_code s)
                       (Some msg) (length msg) w))"

definition raw_set_backpressure ::
    "server_context \<Rightarrow> cpp_backpressure \<Rightarrow> 'n abi \<Rightarrow> (bool \<times> 'n abi) option" where
  "raw_set_backpressure rw bp w =
     (if bp_unbounded bp
      then returned_0 (call_set_backpressure_unbounded (ctx_call rw) (ctx_call_id rw) w)
      else returned_0 (call_set_backpressure_bounded (ctx_call rw) (ctx_call_id rw) (bp_capacity bp)
                         (policy_to_c (bp_policy bp)) w))"

text \<open>\<open>ServerWriter<T>\<close> and \<open>UnaryResponder<T>\<close> wrap a \<open>RawWriter\<close>; what they encode is generated.\<close>

definition writer_finish_cpp ::
    "'n ng_ops \<Rightarrow> alloc \<Rightarrow> nat \<Rightarrow> server_context \<Rightarrow> cpp_status \<Rightarrow> 'n abi \<Rightarrow> (bool \<times> 'n abi) option"
  where
  "writer_finish_cpp ops al me wr s w = raw_finish ops al me wr s w"

definition writer_set_backpressure_cpp ::
    "server_context \<Rightarrow> cpp_backpressure \<Rightarrow> 'n abi \<Rightarrow> (bool \<times> 'n abi) option" where
  "writer_set_backpressure_cpp wr bp w = raw_set_backpressure wr bp w"

definition responder_fail ::
    "'n ng_ops \<Rightarrow> alloc \<Rightarrow> nat \<Rightarrow> server_context \<Rightarrow> cpp_status \<Rightarrow> 'n abi \<Rightarrow> (bool \<times> 'n abi) option"
  where
  "responder_fail ops al me r s w = raw_finish ops al me r s w"

section \<open>Server and builder\<close>

text \<open>A \<open>Server\<close> is the handle it owns, or null once it has been moved from.\<close>

definition cpp_server_drop :: "ffi_server option \<Rightarrow> kernel \<Rightarrow> kernel" where
  "cpp_server_drop impl k = (if impl \<noteq> None then server_free impl k else k)"

text \<open>Move assignment: the new value of the target, of the source, and the kernel.\<close>

definition cpp_server_assign ::
    "bool \<Rightarrow> ffi_server option \<Rightarrow> ffi_server option \<Rightarrow> kernel
       \<Rightarrow> ffi_server option \<times> ffi_server option \<times> kernel" where
  "cpp_server_assign same impl other k =
     (if same then (impl, other, k)
      else let k = (if impl \<noteq> None then server_free impl k else k) in (other, None, k))"

definition cpp_listener_fd :: "ffi_server option \<Rightarrow> int" where
  "cpp_listener_fd impl = (if impl \<noteq> None then server_listener_fd impl else - 1)"

definition cpp_accept ::
    "alloc \<Rightarrow> nat \<Rightarrow> int + int \<Rightarrow> conn_error + 'n conn \<Rightarrow> ffi_server option \<Rightarrow> kernel \<Rightarrow> 'n abi
       \<Rightarrow> nat \<times> kernel \<times> 'n abi" where
  "cpp_accept al addr acc created impl k w =
     (if impl \<noteq> None then server_accept al addr acc created impl k w else (0, k, w))"

text \<open>A service is its \<open>BindToServer\<close>, which is virtual.\<close>

type_synonym service = "ffi_server option \<Rightarrow> ffi_server option"

record server_builder =
  sb_uri :: bytes
  sb_services :: "service list"

definition cpp_builder_new :: server_builder where
  "cpp_builder_new = \<lparr>sb_uri = [], sb_services = []\<rparr>"

definition add_listening_port :: "bytes \<Rightarrow> server_builder \<Rightarrow> server_builder" where
  "add_listening_port uri b = b\<lparr>sb_uri := uri\<rparr>"

definition register_service :: "service \<Rightarrow> server_builder \<Rightarrow> server_builder" where
  "register_service svc b = b\<lparr>sb_services := sb_services b @ [svc]\<rparr>"

text \<open>What a C function reads of a string passed as \<open>c_str()\<close>.\<close>

definition c_str :: "bytes \<Rightarrow> bytes" where
  "c_str s = takeWhile (\<lambda>b. b \<noteq> 0) s"

text \<open>\<open>grpcuds_server_new\<close> never answers null: an allocation that fails aborts in the C library.\<close>

definition build_and_start ::
    "int + int \<Rightarrow> int + unit \<Rightarrow> int + unit \<Rightarrow> server_builder \<Rightarrow> kernel \<Rightarrow> ffi_server option \<times> kernel"
  where
  "build_and_start sock bnd lst b k =
     (if sb_uri b = [] then (None, k)
      else let prefix = ascii ''unix:''
           in if take (length prefix) (sb_uri b) \<noteq> prefix then (None, k)
              else let path = drop (length prefix) (sb_uri b)
                   in (case server_bind_uds sock bnd lst (Some server_new) (Some (c_str path)) k of
                         (rc, impl, k) \<Rightarrow>
                           if rc \<noteq> 0 then (None, server_free impl k)
                           else (fold (\<lambda>svc impl. svc impl) (sb_services b) impl, k)))"

section \<open>Client\<close>

definition MAX_MESSAGE_SIZE :: nat where
  "MAX_MESSAGE_SIZE = 1024"

definition cpp_connect ::
    "'n cl_ops \<Rightarrow> 'n connect_env \<Rightarrow> bytes \<Rightarrow> kernel \<Rightarrow> net \<Rightarrow> 'n client_conn option \<times> kernel \<times> net" where
  "cpp_connect ops env path k w = client_connect ops env (Some (c_str path)) k w"

definition cpp_connect_wait ::
    "(nat \<Rightarrow> client_error + 'c) \<Rightarrow> (nat \<Rightarrow> nat) \<Rightarrow> nat \<Rightarrow> nat \<Rightarrow> 32 word \<Rightarrow> bytes \<Rightarrow> nat
       \<Rightarrow> 'c option option" where
  "cpp_connect_wait attempt clock start seed_now pid path timeout_ms =
     client_connect_wait attempt clock start seed_now pid (Some (c_str path)) timeout_ms"

definition cpp_client_drop :: "'n client_conn option \<Rightarrow> kernel \<Rightarrow> kernel" where
  "cpp_client_drop conn k = (if conn \<noteq> None then client_free conn k else k)"

definition cpp_set_timeout :: "nat \<Rightarrow> 'n client_conn option \<Rightarrow> 'n client_conn option" where
  "cpp_set_timeout timeout_ms conn =
     (if conn \<noteq> None then snd (client_set_timeout_ms conn timeout_ms) else conn)"

text \<open>The status of a response that is not \<open>OK\<close>, with its message if it has one.\<close>

definition response_error :: "response \<Rightarrow> cpp_status" where
  "response_error r =
     cpp_status_new (response_status (Some r))
       (case response_message_bytes (Some r) of None \<Rightarrow> [] | Some m \<Rightarrow> m)"

definition TRANSPORT_FAILURE :: cpp_status where
  "TRANSPORT_FAILURE = cpp_status_new (status_code Unavailable) (ascii ''transport failure'')"

definition unary_raw ::
    "'n cl_ops \<Rightarrow> 'n connect_env \<Rightarrow> net \<Rightarrow> alloc \<Rightarrow> nat \<Rightarrow> pump_env list \<Rightarrow> bytes option \<Rightarrow> bytes
       \<Rightarrow> bytes option \<Rightarrow> 'n client_conn option \<Rightarrow> kernel \<Rightarrow> net
       \<Rightarrow> (cpp_status \<times> bytes option \<times> 'n client_conn option \<times> kernel \<times> net) option" where
  "unary_raw ops env w2 al now pes path req out conn k w =
     (case client_unary ops env w2 al now pes path req conn k w of
        None \<Rightarrow> None
      | Some (None, conn, k, w) \<Rightarrow> Some (TRANSPORT_FAILURE, out, conn, k, w)
      | Some (Some resp, conn, k, w) \<Rightarrow>
          if response_status (Some resp) \<noteq> 0 then Some (response_error resp, out, conn, k, w)
          else Some (cpp_ok, if out \<noteq> None then response_body (Some resp) else out, conn, k, w))"

definition unary_typed ::
    "(nat \<Rightarrow> 'q \<Rightarrow> bytes option) \<Rightarrow> (bytes \<Rightarrow> 'r \<Rightarrow> bool \<times> 'r) \<Rightarrow> 'n cl_ops \<Rightarrow> 'n connect_env \<Rightarrow> net
       \<Rightarrow> alloc \<Rightarrow> nat \<Rightarrow> pump_env list \<Rightarrow> bytes option \<Rightarrow> 'q \<Rightarrow> 'r \<Rightarrow> 'n client_conn option \<Rightarrow> kernel \<Rightarrow> net
       \<Rightarrow> (cpp_status \<times> 'r \<times> 'n client_conn option \<times> kernel \<times> net) option" where
  "unary_typed enc dec ops env w2 al now pes path req reply conn k w =
     (case enc MAX_MESSAGE_SIZE req of
        None \<Rightarrow>
          Some (cpp_status_new (status_code Internal) (ascii ''request encode failed''), reply, conn, k, w)
      | Some buf \<Rightarrow>
          (case client_unary ops env w2 al now pes path buf conn k w of
             None \<Rightarrow> None
           | Some (None, conn, k, w) \<Rightarrow> Some (TRANSPORT_FAILURE, reply, conn, k, w)
           | Some (Some resp, conn, k, w) \<Rightarrow>
               if response_status (Some resp) \<noteq> 0 then Some (response_error resp, reply, conn, k, w)
               else let (ok, reply) = dec (rs_body resp) reply
                    in Some (if ok then cpp_ok
                             else cpp_status_new (status_code Internal) (ascii ''response decode failed''),
                             reply, conn, k, w)))"

definition server_streaming_typed ::
    "(nat \<Rightarrow> 'q \<Rightarrow> bytes option) \<Rightarrow> 'n cl_ops \<Rightarrow> 'n connect_env \<Rightarrow> net \<Rightarrow> alloc \<Rightarrow> nat \<Rightarrow> bytes option \<Rightarrow> 'q
       \<Rightarrow> 'n client_conn option \<Rightarrow> kernel \<Rightarrow> net
       \<Rightarrow> stream_reader option \<times> 'n client_conn option \<times> kernel \<times> net" where
  "server_streaming_typed enc ops env w2 al now path req conn k w =
     (case enc MAX_MESSAGE_SIZE req of
        None \<Rightarrow> (None, conn, k, w)
      | Some buf \<Rightarrow> client_server_streaming ops env w2 al now path buf conn k w)"

text \<open>\<open>ClientReader\<close>: it owns the stream; the client behind it is passed along.\<close>

definition reader_read ::
    "(bytes \<Rightarrow> 'r \<Rightarrow> bool \<times> 'r) \<Rightarrow> 'n cl_ops \<Rightarrow> pump_env list \<Rightarrow> stream_reader option \<Rightarrow> 'r
       \<Rightarrow> 'n client_conn \<Rightarrow> net \<Rightarrow> (bool \<times> 'r \<times> stream_reader option \<times> 'n client_conn \<times> net) option"
  where
  "reader_read dec ops pes stream out c w =
     (if stream = None then Some (False, out, stream, c, w)
      else case stream_next ops pes stream c w of
             None \<Rightarrow> None
           | Some (None, stream, c, w) \<Rightarrow> Some (False, out, stream, c, w)
           | Some (Some p, stream, c, w) \<Rightarrow>
               let (ok, out) = dec p out in Some (ok, out, stream, c, w))"

definition reader_status :: "stream_reader option \<Rightarrow> cpp_status" where
  "reader_status stream =
     cpp_status_code (if stream \<noteq> None then stream_status stream else status_code Unknown)"

section \<open>Logging\<close>

definition set_log_callback_cpp :: "nat option \<Rightarrow> log_level \<Rightarrow> nat \<Rightarrow> logger \<Rightarrow> logger" where
  "set_log_callback_cpp f max_level user_data = grpcuds_set_log_callback f (level_rank max_level) user_data"

text \<open>The built-in sink, by its number and by the line it prints; \<open>%lld\<close> writes a sign and decimals.\<close>

definition STDERR_SINK :: nat where "STDERR_SINK = 2"

definition lld :: "int \<Rightarrow> bytes" where
  "lld n = (if n < 0 then ascii ''-'' else []) @ dec_bytes (nat \<bar>n\<bar>)"

definition stderr_line :: "int \<Rightarrow> bytes \<Rightarrow> int \<Rightarrow> bytes" where
  "stderr_line level msg arg =
     ascii ''grpcuds['' @ ascii (if level = 0 then ''E'' else if level = 1 then ''I'' else ''D'')
     @ ascii ''] '' @ msg @ ascii '' (arg='' @ lld arg @ ascii '')'' @ [0x0A]"

definition enable_stderr_logging :: "log_level \<Rightarrow> logger \<Rightarrow> logger" where
  "enable_stderr_logging max_level = set_log_callback_cpp (Some STDERR_SINK) max_level 0"

text \<open>What has reached \<open>stderr\<close>: the lines of the events that were given to the built-in sink.\<close>

definition stderr_of :: "logger \<Rightarrow> bytes list" where
  "stderr_of g = [stderr_line level msg arg. (f, level, msg, arg, _) \<leftarrow> lg_events g, f = STDERR_SINK]"

section \<open>What the wrappers promise\<close>

text \<open>
  With the built-in sink an event prints one line if it is at most as verbose as the level asked
  for, and none otherwise.
\<close>

lemma stderr_logging:
  "stderr_of (log_event level msg arg (enable_stderr_logging max_level g))
   = stderr_of g @ (if level \<le> max_level then [stderr_line (level_rank level) msg arg] else [])"
proof -
  have "level_from_c (level_rank max_level) = max_level" by (cases max_level) (simp_all add: level_from_c_def)
  then show ?thesis
    by (simp add: stderr_of_def enable_stderr_logging_def set_log_callback_cpp_def grpcuds_set_log_callback_def
        set_log_callback_def log_event_def STDERR_SINK_def less_eq_log_level_def Let_def)
qed

text \<open>
  \<open>BuildAndStart\<close> keeps the descriptors exact: it answers a server, listening on a new descriptor,
  only for a URI that starts with \<open>unix:\<close> and a socket that could be made, bound and listened on;
  otherwise it answers null and every descriptor it opened is closed again.
\<close>

lemma build_and_start_exact:
  assumes "build_and_start sock bnd lst b k = (r, k')"
    and "\<forall>svc \<in> set (sb_services b). \<forall>impl. map_option fs_listener (svc impl) = map_option fs_listener impl"
  shows "(case r of
       None \<Rightarrow> k_open k' = k_open k
     | Some srv \<Rightarrow> take 5 (sb_uri b) = ascii ''unix:''
         \<and> (\<exists>fd. sock = Inr fd \<and> cpp_listener_fd r = fd \<and> k_open k' = fd # k_open k
              \<and> k_open (cpp_server_drop r k') = k_open k))"
proof -
  have keep: "map_option fs_listener (fold (\<lambda>svc impl. svc impl) svcs impl) = map_option fs_listener impl"
    if "\<forall>svc \<in> set svcs. \<forall>impl. map_option fs_listener (svc impl) = map_option fs_listener impl"
    for svcs :: "service list" and impl
    using that by (induction svcs arbitrary: impl) auto
  note defs = build_and_start_def server_bind_uds_def server_free_def drop_listener_def server_new_def
    listener_bind_def listener_drop_def close_fd_def unlink_def Let_def
  show ?thesis
  proof (cases r)
    case None
    with assms(1) keep [OF assms(2)] show ?thesis
      by (auto simp: defs err_codes split: if_splits sum.splits option.splits prod.splits)
        (metis option.map_disc_iff option.distinct(1))+
  next
    case (Some srv)
    have unix: "length (ascii ''unix:'') = 5" by (simp add: ascii_def)
    let ?impl = "\<lambda>l. Some (\<lparr>fs_listener = Some l, fs_methods = []\<rparr> :: ffi_server)"
    from Some assms(1) obtain fd where fd: "sock = Inr fd" "k_open k' = fd # k_open k"
      "take 5 (sb_uri b) = ascii ''unix:''"
      "Some srv = fold (\<lambda>svc impl. svc impl) (sb_services b)
         (?impl \<lparr>ls_fd = fd, ls_addr = trim_nul (c_str (drop 5 (sb_uri b)))\<rparr>)"
      by (auto simp: defs unix err_codes split: if_splits sum.splits)
    with keep [OF assms(2)] have "fs_listener srv
        = Some \<lparr>ls_fd = fd, ls_addr = trim_nul (c_str (drop 5 (sb_uri b)))\<rparr>"
      by (metis option.map(2) option.inject ffi_server.select_convs(1))
    with Some fd(1-3) show ?thesis
      by (simp add: cpp_listener_fd_def server_listener_fd_def cpp_server_drop_def server_free_def
          drop_listener_def listener_drop_def close_fd_def unlink_def)
  qed
qed

text \<open>
  A second \<open>Finish\<close> while the stream is still there reports success and changes nothing on the
  queue: the first one is final, but the later call does not fail.
\<close>

lemma second_finish_reports_success:
  assumes "ctx_call rw \<noteq> 0" and "f_heap w (ctx_call rw) = Some cn" and "on_io_thread me (f_box w)"
    and "find_stream (cn_conn cn) (ctx_call_id rw) = Some s" and "finished (sc_out s)"
  shows "\<exists>w' cn'. raw_finish ops al me rw st w = Some (True, w') \<and> f_heap w' (ctx_call rw) = Some cn'
    \<and> map_option sc_out (find_stream (cn_conn cn') (ctx_call_id rw)) = Some (sc_out s)"
proof -
  have q: "finish_queue g m (sc_out s) = sc_out s" for g m using assms(5) by (simp add: finish_queue_def)
  then have "(s\<lparr>sc_out := finish_queue g m (sc_out s)\<rparr>) = s" for g m by simp
  with assms q show ?thesis
    by (auto simp: raw_finish_def returned_0_def call_finish_msg_def with_conn_def finish_call_msg_def
        finish_call_inner_def unit_to_c_def find_upd_stream find_stream_resume Let_def)
qed

text \<open>
  A message that does not decode looks like the clean end of the stream: \<open>Read\<close> answers false and
  the status is still the 0 the stream started with.
\<close>

lemma decode_error_reads_as_end:
  assumes "cs_messages (cc_state c) = m # ms" and "\<not> sr_done s" and "sr_status s = 0" and "\<not> fst (dec m out)"
  shows "\<exists>out' stream c' w'. reader_read dec ops pes (Some s) out c w = Some (False, out', stream, c', w')
    \<and> cpp_is_ok (reader_status stream)"
proof -
  obtain out' where "dec m out = (False, out')" using assms(4) by (cases "dec m out") simp
  with assms show ?thesis
    by (simp add: reader_read_def stream_next_def recv_current_queued reader_status_def
        stream_status_def cpp_is_ok_def cpp_status_code_def cpp_status_new_def)
qed

text \<open>
  The typed and the raw unary call agree: with a codec that fits the request into the buffer, the
  typed call reports what the raw call reports, except that a body that does not decode is an
  internal error; and the request is sent at all only if it fits.
\<close>

lemma unary_typed_raw:
  assumes "enc MAX_MESSAGE_SIZE req = Some buf"
    and "unary_raw ops env w2 al now pes path buf (Some []) conn k w = Some (st, out, conn', k', w')"
  shows "\<exists>st' reply'. unary_typed enc dec ops env w2 al now pes path req reply conn k w
      = Some (st', reply', conn', k', w')
    \<and> (if cpp_is_ok st then reply' = snd (dec (the out) reply)
          \<and> (cpp_is_ok st' \<longleftrightarrow> fst (dec (the out) reply))
       else st' = st \<and> reply' = reply)"
  using assms
  by (auto simp: unary_raw_def unary_typed_def response_body_def response_error_def response_status_def
      cpp_is_ok_def cpp_ok_def cpp_status_code_def cpp_status_new_def TRANSPORT_FAILURE_def
      split: option.splits if_splits prod.splits)

end
