(* ===== verification/Cpp_Health.thy ===== *)
theory Cpp_Health
  imports Ffi_Health Cpp_Api
begin

unbundle bit_operations_syntax

text \<open>
  The health service for C++ servers, \<open>cpp/include/grpcudspp/health.h\<close>: codecs, registry, \<open>Check\<close>,
  \<open>Watch\<close>, \<open>SetStatus\<close> and \<open>OnCancel\<close>. The file says of itself that it is the twin of the one in the C
  ABI (\<open>Ffi_Health\<close>); the lemmas at the end make that precise. The codecs are loops over an index
  into the request, as in the source. A lock is held for one step.
\<close>

section \<open>Wire helpers\<close>

text \<open>
  The length of a service is a \<open>size_t\<close>; the byte that is pushed keeps its low eight bits.
\<close>

function encode_len :: "nat \<Rightarrow> bytes" where
  "encode_len len = (if len \<ge> 0x80 then (of_nat len OR 0x80) # encode_len (len div 2 ^ 7) else [of_nat len])"
  by pat_completeness auto
termination by (relation "measure id") auto

declare encode_len.simps [simp del]

definition encode_check_request_cpp :: "bytes \<Rightarrow> bytes" where
  "encode_check_request_cpp service =
     (if service = [] then [] else 0x0A # encode_len (length service) @ service)"

text \<open>The inner loop of the two decoders: \<open>None\<close> where it returns false.\<close>

function varint_loop :: "bytes \<Rightarrow> nat \<Rightarrow> 64 word \<Rightarrow> nat \<Rightarrow> (nat \<times> 64 word \<times> nat) option" where
  "varint_loop d i v shift =
     (if i < length d \<and> d ! i AND 0x80 \<noteq> 0
      then if shift \<ge> 64 then None
           else varint_loop d (i + 1) (v OR push_bit shift (ucast (d ! i AND 0x7F))) (shift + 7)
      else Some (i, v, shift))"
  by pat_completeness auto
termination by (relation "measure (\<lambda>(d, i, _). length d - i)") auto

declare varint_loop.simps [simp del]

text \<open>The index after the varint at \<open>i\<close>, and its value.\<close>

definition varint_at :: "bytes \<Rightarrow> nat \<Rightarrow> (nat \<times> 64 word) option" where
  "varint_at d i =
     (case varint_loop d i 0 0 of
        None \<Rightarrow> None
      | Some (i, v, shift) \<Rightarrow>
          if i \<ge> length d \<or> shift \<ge> 64 then None
          else Some (i + 1, v OR push_bit shift (ucast (d ! i))))"

lemma varint_loop_le: "varint_loop d i v shift = Some (j, v', shift') \<Longrightarrow> i \<le> j"
proof (induction d i v shift rule: varint_loop.induct)
  case (1 d i v shift)
  from "1.prems" show ?case
    by (subst (asm) varint_loop.simps) (use "1.IH" in \<open>fastforce split: if_splits\<close>)
qed

lemma varint_at_less: "varint_at d i = Some (j, v) \<Longrightarrow> i < j"
  by (auto simp: varint_at_def dest!: varint_loop_le split: option.splits if_splits)

text \<open>
  \<open>DecodeCheckRequest\<close>; what it leaves in the out parameter when it fails is not used by its callers.
\<close>

function decode_request_loop :: "bytes \<Rightarrow> nat \<Rightarrow> bytes \<Rightarrow> bytes option" where
  "decode_request_loop d i service =
     (if i < length d
      then if d ! i \<noteq> 0x0A then None
           else case varint_at d (i + 1) of
                  None \<Rightarrow> None
                | Some (i, len) \<Rightarrow>
                    if unat len > length d - i then None
                    else decode_request_loop d (i + unat len) (take (unat len) (drop i d))
      else Some service)"
  by pat_completeness auto
termination by (relation "measure (\<lambda>(d, i, _). length d - i)") (auto dest!: varint_at_less)

declare decode_request_loop.simps [simp del]

definition decode_check_request_cpp :: "bytes \<Rightarrow> bytes option" where
  "decode_check_request_cpp d = decode_request_loop d 0 []"

definition encode_response_cpp :: "int \<Rightarrow> bytes" where
  "encode_response_cpp status = (if status = H_UNKNOWN then [] else [0x08, word_of_int status])"

text \<open>\<open>DecodeResponse\<close>: the value is narrowed to an \<open>int\<close>.\<close>

function decode_response_loop :: "bytes \<Rightarrow> nat \<Rightarrow> int \<Rightarrow> int option" where
  "decode_response_loop d i status =
     (if i < length d
      then if d ! i \<noteq> 0x08 then None
           else case varint_at d (i + 1) of
                  None \<Rightarrow> None
                | Some (i, v) \<Rightarrow> decode_response_loop d i (sint (ucast v :: 32 word))
      else Some status)"
  by pat_completeness auto
termination by (relation "measure (\<lambda>(d, i, _). length d - i)") (auto dest!: varint_at_less)

declare decode_response_loop.simps [simp del]

definition decode_response_cpp :: "bytes \<Rightarrow> int option" where
  "decode_response_cpp d = decode_response_loop d 0 0"

section \<open>Service\<close>

record cpp_health =
  ch_statuses :: "(bytes \<times> int) list"
  ch_watchers :: "watcher list"

definition cpp_health_new :: cpp_health where
  "cpp_health_new = \<lparr>ch_statuses = [([], H_SERVING)], ch_watchers = []\<rparr>"

definition find_status :: "cpp_health \<Rightarrow> bytes \<Rightarrow> (bytes \<times> int) option" where
  "find_status hs service = find (\<lambda>e. fst e = service) (ch_statuses hs)"

text \<open>The entry \<open>FindOrAddStatus\<close> points to is the first of its name.\<close>

definition find_or_add_status :: "bytes \<Rightarrow> cpp_health \<Rightarrow> cpp_health" where
  "find_or_add_status service hs =
     (if find_status hs service \<noteq> None then hs
      else hs\<lparr>ch_statuses := ch_statuses hs @ [(service, H_UNKNOWN)]\<rparr>)"

definition set_status_snapshot :: "bytes \<Rightarrow> int \<Rightarrow> cpp_health \<Rightarrow> (nat \<times> int) list \<times> cpp_health" where
  "set_status_snapshot service status hs =
     (let hs = find_or_add_status service hs;
          hs = hs\<lparr>ch_statuses := upd_first (\<lambda>e. fst e = service) (\<lambda>e. (fst e, status)) (ch_statuses hs)\<rparr>
      in (map (\<lambda>w. (wt_call w, wt_call_id w))
            (filter (\<lambda>w. wt_live w \<and> wt_service w = service) (ch_watchers hs)), hs))"

fun write_targets ::
    "'n ng_ops \<Rightarrow> alloc \<Rightarrow> nat \<Rightarrow> bytes \<Rightarrow> (nat \<times> int) list \<Rightarrow> 'n abi \<Rightarrow> 'n abi option" where
  "write_targets ops al me msg [] w = Some w"
| "write_targets ops al me msg ((call, call_id) # targets) w =
     (case raw_write ops al me \<lparr>ctx_call = call, ctx_call_id = call_id\<rparr> (Some msg) (length msg) w of
        None \<Rightarrow> None
      | Some (_, w) \<Rightarrow> write_targets ops al me msg targets w)"

definition set_status_cpp ::
    "'n ng_ops \<Rightarrow> alloc \<Rightarrow> nat \<Rightarrow> bytes \<Rightarrow> int \<Rightarrow> cpp_health \<Rightarrow> 'n abi \<Rightarrow> (cpp_health \<times> 'n abi) option" where
  "set_status_cpp ops al me service status hs w =
     (let msg = encode_response_cpp status;
          (targets, hs) = set_status_snapshot service status hs
      in map_option (Pair hs) (write_targets ops al me msg targets w))"

definition check_tr_cpp ::
    "'n ng_ops \<Rightarrow> alloc \<Rightarrow> nat \<Rightarrow> nat \<Rightarrow> int \<Rightarrow> bytes \<Rightarrow> cpp_health \<Rightarrow> 'n abi \<Rightarrow> (int \<times> 'n abi) option" where
  "check_tr_cpp ops al me call call_id req hs w =
     (let rw = \<lparr>ctx_call = call, ctx_call_id = call_id\<rparr>
      in case decode_check_request_cpp req of
           None \<Rightarrow>
             map_option (\<lambda>(_, w). (0, w))
               (raw_finish ops al me rw (cpp_status_new (status_code InvalidArgument) MALFORMED) w)
         | Some service \<Rightarrow>
             (case find_status hs service of
                None \<Rightarrow>
                  map_option (\<lambda>(_, w). (0, w))
                    (raw_finish ops al me rw
                       (cpp_status_new (status_code NotFound) (ascii ''unknown service'')) w)
              | Some e \<Rightarrow>
                  let msg = encode_response_cpp (snd e)
                  in (case raw_write ops al me rw (Some msg) (length msg) w of
                        None \<Rightarrow> None
                      | Some (_, w) \<Rightarrow> map_option (\<lambda>(_, w). (0, w)) (raw_finish ops al me rw cpp_ok w))))"

text \<open>\<open>addr\<close> is where the new watcher lives; the loop that reaps goes from the back to the front.\<close>

fun reap_watchers :: "nat \<Rightarrow> watcher list \<Rightarrow> watcher list" where
  "reap_watchers 0 ws = ws"
| "reap_watchers (Suc i) ws =
     reap_watchers i (if \<not> wt_live (ws ! i) then take i ws @ drop (Suc i) ws else ws)"

definition watch_tr_cpp ::
    "'n ng_ops \<Rightarrow> alloc \<Rightarrow> nat \<Rightarrow> nat \<Rightarrow> nat \<Rightarrow> int \<Rightarrow> bytes \<Rightarrow> cpp_health \<Rightarrow> 'n abi
       \<Rightarrow> (int \<times> cpp_health \<times> 'n abi) option" where
  "watch_tr_cpp ops al me addr call call_id req hs w =
     (let rw = \<lparr>ctx_call = call, ctx_call_id = call_id\<rparr>
      in case decode_check_request_cpp req of
           None \<Rightarrow>
             map_option (\<lambda>(_, w). (0, hs, w))
               (raw_finish ops al me rw (cpp_status_new (status_code InvalidArgument) MALFORMED) w)
         | Some service \<Rightarrow>
             let current = (case find_status hs service of None \<Rightarrow> H_SERVICE_UNKNOWN | Some e \<Rightarrow> snd e);
                 ws = reap_watchers (length (ch_watchers hs)) (ch_watchers hs);
                 hs = hs\<lparr>ch_watchers := ws @ [\<lparr>wt_addr = addr, wt_call = call, wt_call_id = call_id,
                                               wt_service = service, wt_live = True\<rparr>]\<rparr>
             in (case context_set_cancel_hook (Some ON_CANCEL) addr rw w of
                   None \<Rightarrow> None
                 | Some (_, w) \<Rightarrow>
                     let msg = encode_response_cpp current
                     in map_option (\<lambda>(_, w). (0, hs, w)) (raw_write ops al me rw (Some msg) (length msg) w)))"

definition on_cancel_cpp :: "nat \<Rightarrow> cpp_health \<Rightarrow> cpp_health" where
  "on_cancel_cpp user_data hs =
     hs\<lparr>ch_watchers := upd_first (\<lambda>w. wt_addr w = user_data) (\<lambda>w. w\<lparr>wt_live := False\<rparr>) (ch_watchers hs)\<rparr>"

text \<open>\<open>BindToServer\<close> ignores what the registrations return; \<open>self\<close> is the address of the service.\<close>

definition health_bind :: "alloc \<Rightarrow> nat \<Rightarrow> service" where
  "health_bind al self server =
     snd (server_register_method al
       (snd (server_register_method al server (Some (ascii ''/grpc.health.v1.Health/Check''))
               (Some CHECK_TR) self))
       (Some (ascii ''/grpc.health.v1.Health/Watch'')) (Some WATCH_TR) self)"

section \<open>The codecs are those of the C ABI\<close>

lemma low_seven_bits:
  fixes b :: byte
  assumes "b AND 0x80 = 0"
  shows "b AND 0x7F = b"
proof -
  have "b AND 0xFF = (b AND 0x80) OR (b AND 0x7F)" by (simp only: bit.conj_disj_distrib [symmetric]) simp
  moreover have "b AND 0xFF = b AND - 1" by (rule arg_cong [where f = "\<lambda>x. b AND x"]) simp
  ultimately show ?thesis using assms by simp
qed

lemma varint_loop_read:
  "i \<le> length d \<Longrightarrow> read_varint (drop i d) v shift =
     (case varint_loop d i v shift of
        None \<Rightarrow> None
      | Some (j, v', shift') \<Rightarrow>
          if j \<ge> length d \<or> shift' \<ge> 64 then None
          else Some (v' OR push_bit shift' (ucast (d ! j)), drop (j + 1) d))"
proof (induction d i v shift rule: varint_loop.induct)
  case (1 d i v shift)
  show ?case
  proof (cases "i < length d")
    case True
    then have d: "drop i d = d ! i # drop (Suc i) d" by (simp add: Cons_nth_drop_Suc)
    show ?thesis
      using "1.IH" True by (subst varint_loop.simps) (auto simp: d low_seven_bits Let_def)
  next
    case False
    with "1.prems" show ?thesis by (subst varint_loop.simps) simp
  qed
qed

lemma varint_at_read:
  "i \<le> length d \<Longrightarrow> read_varint (drop i d) 0 0 = map_option (\<lambda>(j, v). (v, drop j d)) (varint_at d i)"
  by (auto simp: varint_loop_read varint_at_def split: option.splits)

lemma varint_at_bound: "varint_at d i = Some (j, v) \<Longrightarrow> j \<le> length d"
  by (auto simp: varint_at_def split: option.splits if_splits)

lemma decode_request_twin:
  "i \<le> length d \<Longrightarrow> decode_request_loop d i service = decode_fields (drop i d) service"
proof (induction d i service rule: decode_request_loop.induct)
  case (1 d i service)
  show ?case
  proof (cases "i < length d \<and> d ! i = 0x0A")
    case True
    then have d: "drop i d = 0x0A # drop (i + 1) d" using Cons_nth_drop_Suc [of i d] by simp
    show ?thesis
    proof (cases "varint_at d (i + 1)")
      case None
      with True show ?thesis by (subst decode_request_loop.simps) (simp add: d varint_at_read)
    next
      case (Some p)
      obtain j len where p: "p = (j, len)" by fastforce
      have "j + unat len \<le> length d" if "\<not> length d - j < unat len"
        using that varint_at_bound [of d "i + 1" j len] Some p by simp
      moreover have "decode_request_loop d (j + unat len) (take (unat len) (drop j d))
          = decode_fields (drop (j + unat len) d) (take (unat len) (drop j d))"
        if "\<not> length d - j < unat len"
        using that calculation True Some p by (intro "1.IH") simp_all
      ultimately show ?thesis
        using True Some p
        by (subst decode_request_loop.simps) (simp add: d varint_at_read add.commute)
    qed
  next
    case False
    show ?thesis
    proof (cases "i < length d")
      case True
      with False have "drop i d = d ! i # drop (i + 1) d" "d ! i \<noteq> 0x0A"
        using Cons_nth_drop_Suc [of i d] by simp_all
      with True show ?thesis by (subst decode_request_loop.simps) simp
    next
      case False
      then show ?thesis by (subst decode_request_loop.simps) simp
    qed
  qed
qed

lemma decode_check_request_twin: "decode_check_request_cpp = decode_check_request"
  by (rule ext) (simp add: decode_check_request_cpp_def decode_check_request_def decode_request_twin)

lemma encode_response_twin: "encode_response al_all = encode_response_cpp"
  by (rule ext) (simp add: encode_response_def encode_response_cpp_def al_all_def)

lemma or_top_bit: "(of_nat n OR 0x80 :: byte) = of_nat (n mod 128 + 128)"
proof -
  let ?x = "of_nat n :: byte"
  have "(0x7F OR 0x80 :: byte) = - 1" by simp
  then have "?x OR 0x80 = (?x OR 0x80) AND (0x7F OR 0x80)" by (simp only: and.right_neutral)
  also have "\<dots> = (?x AND 0x7F) OR 0x80" by (simp only: bit.disj_conj_distrib2)
  also have "\<dots> = (?x AND 0x7F) + 0x80" by (rule disjunctive_add_eq_or [symmetric]) (simp add: and.assoc)
  also have "?x AND 0x7F = take_bit 7 ?x" by (simp add: take_bit_eq_mask mask_eq_exp_minus_1)
  also have "\<dots> = of_nat (n mod 128)" unfolding take_bit_of_nat by (simp add: take_bit_eq_mod)
  finally show ?thesis by simp
qed

lemma encode_len_twin: "encode_len n = varint n"
proof (induction n rule: encode_len.induct)
  case (1 n)
  then show ?case using or_top_bit [of n] by (simp add: encode_len.simps [of n] varint.simps [of n])
qed

lemma encode_check_request_twin: "encode_check_request_cpp = check_request"
  by (rule ext) (simp add: encode_check_request_cpp_def check_request_def encode_len_twin)

section \<open>The service is that of the C ABI\<close>

definition c_view :: "cpp_health \<Rightarrow> health" where
  "c_view hs = \<lparr>hs_statuses = ch_statuses hs, hs_watchers = ch_watchers hs, hs_seeded = True\<rparr>"

lemma find_status_twin: "health_find (c_view hs) service = map_option snd (find_status hs service)"
  by (simp add: health_find_def c_view_def find_status_def)

lemma snapshot_twin:
  "set_status_locked al_all (Some service) status (c_view hs)
     = map_prod id c_view (set_status_snapshot service status hs)"
proof (cases "find_status hs service")
  case None
  then have "\<forall>e \<in> set (ch_statuses hs). fst e \<noteq> service" by (auto simp: find_status_def find_None_iff)
  from upd_first_append [OF this] None show ?thesis
    by (simp add: set_status_locked_def set_status_snapshot_def find_or_add_status_def health_set_def
        c_view_def find_status_def al_all_def Let_def)
next
  case (Some e)
  then show ?thesis
    by (simp add: set_status_locked_def set_status_snapshot_def find_or_add_status_def health_set_def
        c_view_def find_status_def al_all_def Let_def)
qed

lemma notify_twin: "notify ops al me msg targets w = write_targets ops al me msg targets w"
proof (induction targets arbitrary: w)
  case (Cons t targets)
  obtain call i where "t = (call, i)" by fastforce
  with Cons show ?case by (auto simp: raw_write_def returned_0_def split: option.splits)
qed simp

lemma set_status_twin:
  "health_set_status ops al_all me (Some service) status (c_view hs) w
     = map_option (map_prod c_view id) (set_status_cpp ops al_all me service status hs w)"
  by (auto simp: health_set_status_def set_status_cpp_def snapshot_twin notify_twin encode_response_twin
      option.map_comp comp_def Let_def split: prod.splits)

lemma reap_watchers_filter:
  "i \<le> length ws \<Longrightarrow> reap_watchers i ws = filter wt_live (take i ws) @ drop i ws"
proof (induction i arbitrary: ws)
  case (Suc i)
  let ?ws = "if \<not> wt_live (ws ! i) then take i ws @ drop (Suc i) ws else ws"
  have "i < length ws" using Suc.prems by simp
  then have t: "take (Suc i) ws = take i ws @ [ws ! i]" and d: "drop i ws = ws ! i # drop (Suc i) ws"
    by (simp_all add: take_Suc_conv_app_nth Cons_nth_drop_Suc)
  have "reap_watchers (Suc i) ws = filter wt_live (take i ?ws) @ drop i ?ws"
    unfolding reap_watchers.simps using \<open>i < length ws\<close> by (intro Suc.IH) auto
  also have "take i ?ws = take i ws" using \<open>i < length ws\<close> by simp
  also have "drop i ?ws = (if wt_live (ws ! i) then [ws ! i] else []) @ drop (Suc i) ws"
    using \<open>i < length ws\<close> d by simp
  finally show ?case by (simp add: t)
qed simp

text \<open>On the I/O thread the C++ wrappers run the operations of the connection.\<close>

lemma io_thread_ops:
  assumes "call \<noteq> 0" and "f_heap w call = Some cn" and "on_io_thread me (f_box w)"
  shows "raw_write ops al me \<lparr>ctx_call = call, ctx_call_id = i\<rparr> (Some msg) (length msg) w
      = (let (r, c) = write_call ops al i msg (cn_conn cn)
         in Some (unit_to_c r = 0, w\<lparr>f_heap := (f_heap w)(call \<mapsto> cn\<lparr>cn_conn := c\<rparr>)\<rparr>))"
    and "raw_finish ops al me \<lparr>ctx_call = call, ctx_call_id = i\<rparr> (cpp_status_new (status_code st) msg) w
      = (let (r, c) = finish_call_msg ops i st msg (cn_conn cn)
         in Some (unit_to_c r = 0, w\<lparr>f_heap := (f_heap w)(call \<mapsto> cn\<lparr>cn_conn := c\<rparr>)\<rparr>))"
    and "context_set_cancel_hook (Some cb) ud \<lparr>ctx_call = call, ctx_call_id = i\<rparr> w
      = (let (r, c) = set_cancel_hook i cb ud (cn_conn cn)
         in Some (unit_to_c r = 0, w\<lparr>f_heap := (f_heap w)(call \<mapsto> cn\<lparr>cn_conn := c\<rparr>)\<rparr>))"
proof -
  note defs = returned_0_def with_conn_def c_slice_def Let_def case_prod_beta
  show "raw_write ops al me \<lparr>ctx_call = call, ctx_call_id = i\<rparr> (Some msg) (length msg) w
      = (let (r, c) = write_call ops al i msg (cn_conn cn)
         in Some (unit_to_c r = 0, w\<lparr>f_heap := (f_heap w)(call \<mapsto> cn\<lparr>cn_conn := c\<rparr>)\<rparr>))"
    using assms by (simp add: raw_write_def call_write_def defs)
  show "raw_finish ops al me \<lparr>ctx_call = call, ctx_call_id = i\<rparr> (cpp_status_new (status_code st) msg) w
      = (let (r, c) = finish_call_msg ops i st msg (cn_conn cn)
         in Some (unit_to_c r = 0, w\<lparr>f_heap := (f_heap w)(call \<mapsto> cn\<lparr>cn_conn := c\<rparr>)\<rparr>))"
    using assms by (simp add: raw_finish_def call_finish_msg_def cpp_status_new_def c_status.from_to defs)
  show "context_set_cancel_hook (Some cb) ud \<lparr>ctx_call = call, ctx_call_id = i\<rparr> w
      = (let (r, c) = set_cancel_hook i cb ud (cn_conn cn)
         in Some (unit_to_c r = 0, w\<lparr>f_heap := (f_heap w)(call \<mapsto> cn\<lparr>cn_conn := c\<rparr>)\<rparr>))"
    using assms by (simp add: context_set_cancel_hook_def call_set_cancel_hook_def defs)
qed

text \<open>Running a handler of the C service on the connection behind a call.\<close>

definition on_conn ::
    "nat \<Rightarrow> 'n connection \<Rightarrow> ('n conn \<Rightarrow> int \<times> 'n conn) \<Rightarrow> 'n abi \<Rightarrow> int \<times> 'n abi" where
  "on_conn call cn f w =
     (let (rc, c) = f (cn_conn cn) in (rc, w\<lparr>f_heap := (f_heap w)(call \<mapsto> cn\<lparr>cn_conn := c\<rparr>)\<rparr>))"

lemma check_twin:
  assumes "call \<noteq> 0" and "f_heap w call = Some cn" and "on_io_thread me (f_box w)"
  shows "check_tr_cpp ops al_all me call i req hs w
    = Some (on_conn call cn (run_handler ops (check_tr al_all (c_view hs) i req)) w)"
proof -
  note io = io_thread_ops [OF assms]
  note defs = check_tr_cpp_def check_tr_def on_conn_def decode_check_request_twin find_status_twin
    encode_response_twin Let_def case_prod_beta
  show ?thesis
  proof (cases "Option.bind (decode_check_request req) (find_status hs)")
    case None
    then show ?thesis by (cases "decode_check_request req") (simp_all add: defs io del: status_code.simps)
  next
    case (Some e)
    let ?c = "snd (write_call ops al_all i (encode_response_cpp (snd e)) (cn_conn cn))"
    let ?w = "w\<lparr>f_heap := (f_heap w)(call \<mapsto> cn\<lparr>cn_conn := ?c\<rparr>)\<rparr>"
    have "f_heap ?w call = Some (cn\<lparr>cn_conn := ?c\<rparr>)" "on_io_thread me (f_box ?w)" using assms by simp_all
    note io2 = io_thread_ops [OF assms(1) this]
    from Some show ?thesis
      by (cases "decode_check_request req")
         (simp_all add: defs io io2 cpp_ok_def cpp_status_code_def del: status_code.simps)
  qed
qed

lemma watch_twin:
  assumes "call \<noteq> 0" and "f_heap w call = Some cn" and "on_io_thread me (f_box w)"
  shows "map_option (\<lambda>(rc, hs, w). (rc, c_view hs, w)) (watch_tr_cpp ops al_all me addr call i req hs w)
    = (let (prog, hs') = watch_tr al_all addr call i req (c_view hs);
           (rc, w') = on_conn call cn (run_handler ops prog) w
       in Some (rc, hs', w'))"
proof -
  note io = io_thread_ops [OF assms]
  note defs = watch_tr_cpp_def watch_tr_def on_conn_def decode_check_request_twin find_status_twin
    encode_response_twin c_view_def Let_def case_prod_beta
  show ?thesis
  proof (cases "decode_check_request req")
    case None
    then show ?thesis by (simp add: defs io del: status_code.simps)
  next
    case (Some service)
    let ?c = "snd (set_cancel_hook i ON_CANCEL addr (cn_conn cn))"
    let ?w = "w\<lparr>f_heap := (f_heap w)(call \<mapsto> cn\<lparr>cn_conn := ?c\<rparr>)\<rparr>"
    have "f_heap ?w call = Some (cn\<lparr>cn_conn := ?c\<rparr>)" "on_io_thread me (f_box ?w)" using assms by simp_all
    note io2 = io_thread_ops [OF assms(1) this]
    have al: "al_bytes al_all n" "al_slot al_all" for n by (simp_all add: al_all_def)
    show ?thesis
      using Some
      by (cases "find_status hs service")
         (simp_all add: defs io io2 al reap_watchers_filter find_status_def health_find_def)
  qed
qed

lemma on_cancel_twin: "addr \<noteq> 0 \<Longrightarrow> c_view (on_cancel_cpp addr hs) = on_cancel addr (c_view hs)"
  by (simp add: on_cancel_cpp_def on_cancel_def c_view_def)

interpretation cpp_registry: status_registry
  "\<lambda>hs k. map_option snd (find_status hs k)" "\<lambda>k v hs. snd (set_status_snapshot k v hs)"
proof
  fix k :: bytes and v :: int and h k'
  have "c_view (snd (set_status_snapshot k v h)) = health_set al_all k v (c_view h)"
    using arg_cong [OF snapshot_twin, of snd k v h] by (simp add: set_status_locked_def Let_def)
  then show "map_option snd (find_status (snd (set_status_snapshot k v h)) k')
      = (if k' = k then Some v else map_option snd (find_status h k'))"
    using c_registry.lookup_update [of k v "c_view h" k'] by (simp flip: find_status_twin)
qed

text \<open>A client that probes with these codecs reads the status the service wrote.\<close>

lemma response_roundtrip:
  assumes "0 \<le> st" and "st < 128"
  shows "decode_response_cpp (encode_response_cpp st) = Some st"
proof (cases "st = 0")
  case False
  obtain n where n: "st = int n" "n < 128" using assms by (metis nat_0_le nat_less_iff of_nat_numeral)
  have b: "(word_of_int st :: byte) AND 0x80 = 0" "(ucast (word_of_int st :: byte) :: 64 word) = of_nat n"
    using varint_byte(1,3) [OF n(2)] low_seven_bits [OF varint_byte(1) [OF n(2)]] n(1)
    by simp_all
  have "varint_at [0x08, word_of_int st] 1 = Some (2, of_nat n)"
    using b by (simp add: varint_at_def varint_loop.simps)
  moreover have "sint (ucast (of_nat n :: 64 word) :: 32 word) = int n"
    using n(2) by (simp add: unsigned_of_nat signed_of_nat signed_take_bit_int_eq_self take_bit_nat_eq_self)
  ultimately show ?thesis
    using False n by (simp add: decode_response_cpp_def encode_response_cpp_def H_UNKNOWN_def
        decode_response_loop.simps [of "[0x08, word_of_int (int n)]"] decode_response_loop.simps [of "[8, _]"])
qed (simp add: decode_response_cpp_def encode_response_cpp_def H_UNKNOWN_def decode_response_loop.simps)

section \<open>Properties\<close>

text \<open>
  C19. The health service of the C++ headers is that of the C ABI, handler by handler: on the I/O
  thread, for every request, \<open>Check\<close> and \<open>Watch\<close> leave the connection, the registry and the watchers
  as their C twins do and return the same code; on any thread, a change of status stores, announces
  and queues the same. The codecs agree on every byte string, well formed or not, although one side
  runs over an index and the other over the rest of the input.
\<close>

theorem health_services_agree:
  assumes "call \<noteq> 0" and "f_heap w call = Some cn" and "on_io_thread io (f_box w)"
  shows "check_tr_cpp ops al_all io call i req hs w
      = Some (on_conn call cn (run_handler ops (check_tr al_all (c_view hs) i req)) w)
    \<and> map_option (\<lambda>(rc, hs, w). (rc, c_view hs, w)) (watch_tr_cpp ops al_all io addr call i req hs w)
      = (let (prog, hs') = watch_tr al_all addr call i req (c_view hs);
             (rc, w') = on_conn call cn (run_handler ops prog) w
         in Some (rc, hs', w'))
    \<and> health_set_status ops al_all me (Some service) status (c_view hs) w2
      = map_option (map_prod c_view id) (set_status_cpp ops al_all me service status hs w2)
    \<and> decode_check_request_cpp = decode_check_request
    \<and> (length service < 2 ^ 64 \<longrightarrow>
         decode_check_request (encode_check_request_cpp service) = Some service)"
  using check_twin [OF assms] watch_twin [OF assms] set_status_twin decode_check_request_twin
    encode_check_request_twin decode_check_request_encoded
  by simp

theorem health_services_agree_witness:
  "check_tr_cpp demo_ops al_all 1 100 1 [] cpp_health_new demo_abi
      = Some (on_conn 100 demo_open (run_handler demo_ops (check_tr al_all (c_view cpp_health_new) 1 [])) demo_abi)
   \<and> decode_check_request (encode_check_request_cpp [97]) = Some [97]"
proof -
  have "(100 :: nat) \<noteq> 0" "f_heap demo_abi 100 = Some demo_open" "on_io_thread 1 (f_box demo_abi)"
    by (simp_all add: demo_abi_sel on_io_thread_def)
  from health_services_agree [OF this, of demo_ops 1 "[]" cpp_health_new 7 1 "[97]" 1 demo_abi]
  show ?thesis by simp
qed

end
