(* ===== verification/Cpp_Thread.thy ===== *)
theory Cpp_Thread
  imports Cpp_Api
begin

text \<open>
  \<open>ServerThread\<close>, \<open>cpp/include/grpcudspp/server_thread.h\<close>: the poll loop that runs a server on a thread of
  its own, over the C ABI. Connections are the addresses of \<open>Ffi_Server\<close>; each has a socket
  (\<open>th_nets\<close>). A round is driven by a record of what it will see: the operations other threads issue
  before \<open>poll\<close> returns, the answer of \<open>poll\<close>, the pending clients, the clock. Producers hold only
  handles that were given out, of live or of freed connections. \<open>malloc\<close> is the allocator that places an
  accepted connection. A result \<open>None\<close> is a use of a freed connection.
\<close>

section \<open>State and environment\<close>

record 'n thread_state =
  th_abi :: "'n abi"
  th_kernel :: kernel
  th_conns :: "nat list"
  th_nets :: "nat \<Rightarrow> net"

record poll_revents =
  rv_in :: bool
  rv_out :: bool
  rv_hup :: bool
  rv_err :: bool
  rv_nval :: bool

record poll_answer =
  pa_listener :: poll_revents
  pa_conns :: "poll_revents list"
  pa_wakeup :: poll_revents
  pa_stop :: poll_revents

record 'n thread_env =
  re_produced :: "(nat \<times> c_op) list"
  re_now :: nat
  re_poll :: "int + poll_answer"
  re_env :: env
  re_accepts :: "((int + int) \<times> (conn_error + 'n conn) \<times> net) list"

text \<open>What another thread can do: an operation on a handle that was given out.\<close>

definition handle_known :: "nat \<Rightarrow> 'n abi \<Rightarrow> bool" where
  "handle_known a w \<longleftrightarrow> a \<noteq> 0 \<and> (f_heap w a \<noteq> None \<or> a \<in> set (mb_dead (f_box w)))"

fun produce :: "'n ng_ops \<Rightarrow> (nat \<times> c_op) list \<Rightarrow> 'n abi \<Rightarrow> 'n abi option" where
  "produce ops [] w = Some w"
| "produce ops ((me, x) # xs) w =
     (if handle_known (op_call x) w
      then case run_c_op ops me x w of None \<Rightarrow> None | Some (_, w) \<Rightarrow> produce ops xs w
      else produce ops xs w)"

section \<open>The loop\<close>

text \<open>The descriptors \<open>poll\<close> is asked about, with whether writability is wanted.\<close>

fun conn_pollfds :: "'n ng_ops \<Rightarrow> 'n abi \<Rightarrow> nat list \<Rightarrow> (int \<times> bool) list option" where
  "conn_pollfds ops w [] = Some []"
| "conn_pollfds ops w (a # as) =
     (case (conn_wants_write_c ops a w, conn_fd_of a w, conn_pollfds ops w as) of
        (Some wants, Some fd, Some rest) \<Rightarrow> Some ((fd, wants = 1) # rest)
      | _ \<Rightarrow> None)"

definition pollfds ::
    "'n ng_ops \<Rightarrow> int \<Rightarrow> int \<Rightarrow> int \<Rightarrow> 'n abi \<Rightarrow> nat list \<Rightarrow> (int \<times> bool) list option" where
  "pollfds ops lfd wfd stop_fd w conns =
     map_option (\<lambda>cs. [(lfd, False)] @ cs @ [(wfd, False), (stop_fd, False)])
       (conn_pollfds ops w conns)"

text \<open>The timeout of \<open>poll\<close>; the deadline is narrowed to an \<open>int\<close>.\<close>

definition to_c_int :: "int \<Rightarrow> int" where
  "to_c_int x = sint (word_of_int x :: 32 word)"

fun poll_timeout :: "nat \<Rightarrow> 'n abi \<Rightarrow> nat list \<Rightarrow> int \<Rightarrow> int option" where
  "poll_timeout now w [] timeout = Some timeout"
| "poll_timeout now w (a # as) timeout =
     (case conn_next_deadline_ms now a w of
        None \<Rightarrow> None
      | Some d \<Rightarrow>
          poll_timeout now w as
            (if d \<ge> 0 \<and> (timeout < 0 \<or> d < timeout) then to_c_int (if d > 0 then d else 1) else timeout))"

fun accept_all ::
    "alloc \<Rightarrow> ('n heap \<Rightarrow> nat) \<Rightarrow> ffi_server option
       \<Rightarrow> ((int + int) \<times> (conn_error + 'n conn) \<times> net) list \<Rightarrow> 'n thread_state \<Rightarrow> 'n thread_state" where
  "accept_all al malloc srv [] st = st"
| "accept_all al malloc srv ((acc, created, net) # rest) st =
     (case cpp_accept al (malloc (f_heap (th_abi st))) acc created srv (th_kernel st) (th_abi st) of
        (c, k, w) \<Rightarrow>
          if c = 0 then st\<lparr>th_kernel := k, th_abi := w\<rparr>
          else accept_all al malloc srv rest
                 (st\<lparr>th_kernel := k, th_abi := w, th_conns := th_conns st @ [c],
                     th_nets := (th_nets st)(c := net)\<rparr>))"

text \<open>
  The tick of one connection: what it answers, or \<open>None\<close> inside when there is nothing to do.
\<close>

definition ticked ::
    "nat \<Rightarrow> 'n thread_state \<Rightarrow> (int \<times> 'n abi \<times> net) option \<Rightarrow> (int option \<times> 'n thread_state) option" where
  "ticked a st r =
     map_option (\<lambda>(t, w, n). (Some t, st\<lparr>th_abi := w, th_nets := (th_nets st)(a := n)\<rparr>)) r"

definition tick_one ::
    "'n ng_ops \<Rightarrow> handlers \<Rightarrow> env \<Rightarrow> poll_revents \<Rightarrow> nat \<Rightarrow> 'n thread_state
       \<Rightarrow> (int option \<times> 'n thread_state) option" where
  "tick_one ops H e rv a st =
     (if rv_in rv \<or> rv_hup rv \<or> rv_err rv \<or> rv_nval rv
      then ticked a st (conn_tick_read ops H e a (th_abi st) (th_nets st a))
      else if rv_out rv then ticked a st (conn_tick_write ops e a (th_abi st) (th_nets st a))
      else case conn_next_deadline_ms (env_now e) a (th_abi st) of
             None \<Rightarrow> None
           | Some d \<Rightarrow>
               if d = 0 then ticked a st (conn_tick_read ops H e a (th_abi st) (th_nets st a))
               else Some (None, st))"

text \<open>
  The loop over the connections that were polled. After a connection is dropped the index stays,
  for the connections behind it have moved up; \<open>revents\<close> has not.
\<close>

function tick_all ::
    "'n ng_ops \<Rightarrow> handlers \<Rightarrow> env \<Rightarrow> poll_revents list \<Rightarrow> nat \<Rightarrow> nat \<Rightarrow> 'n thread_state
       \<Rightarrow> 'n thread_state option" where
  "tick_all ops H e revs i cap st =
     (if i < cap
      then case tick_one ops H e (revs ! i) (th_conns st ! i) st of
             None \<Rightarrow> None
           | Some (None, st) \<Rightarrow> tick_all ops H e revs (i + 1) cap st
           | Some (Some t, st) \<Rightarrow>
               if t = 1 \<or> t < 0
               then case conn_free (env_alloc e) (th_conns st ! i) (th_kernel st) (th_abi st) of
                      None \<Rightarrow> None
                    | Some (k, w) \<Rightarrow>
                        tick_all ops H e revs i (cap - 1)
                          (st\<lparr>th_kernel := k, th_abi := w,
                              th_conns := take i (th_conns st) @ drop (i + 1) (th_conns st)\<rparr>)
               else tick_all ops H e revs (i + 1) cap st
      else Some st)"
  by pat_completeness auto
termination by (relation "measure (\<lambda>(_, _, _, _, i, cap, _). cap - i)") auto

declare tick_all.simps [simp del]

text \<open>One pass of \<open>for (;;)\<close>: \<open>True\<close> when it leaves the loop.\<close>

definition thread_round ::
    "'n ng_ops \<Rightarrow> handlers \<Rightarrow> ('n heap \<Rightarrow> nat) \<Rightarrow> ffi_server option \<Rightarrow> int \<Rightarrow> int \<Rightarrow> int \<Rightarrow> 'n thread_env
       \<Rightarrow> 'n thread_state \<Rightarrow> (bool \<times> 'n thread_state) option" where
  "thread_round ops H malloc srv lfd wfd stop_fd re st =
     (case (pollfds ops lfd wfd stop_fd (th_abi st) (th_conns st),
            poll_timeout (re_now re) (th_abi st) (th_conns st) (- 1),
            produce ops (re_produced re) (th_abi st)) of
        (Some _, Some _, Some w) \<Rightarrow>
          let st = st\<lparr>th_abi := w\<rparr>; al = env_alloc (re_env re)
          in (case re_poll re of
                Inl e \<Rightarrow> Some (e \<noteq> EINTR, st)
              | Inr p \<Rightarrow>
                  if rv_in (pa_stop p) then Some (True, st)
                  else case (if rv_in (pa_wakeup p) then mailbox_drain ops al w else Some w) of
                         None \<Rightarrow> None
                       | Some w \<Rightarrow>
                           let st = st\<lparr>th_abi := w\<rparr>;
                               existing_count = length (th_conns st);
                               l = pa_listener p
                           in if rv_err l \<or> rv_hup l \<or> rv_nval l then Some (True, st)
                              else let st = (if rv_in l then accept_all al malloc srv (re_accepts re) st else st)
                                   in map_option (Pair False)
                                        (tick_all ops H (re_env re) (pa_conns p) 0 existing_count st))
      | _ \<Rightarrow> None)"

text \<open>The loop, for as many rounds as the list has.\<close>

fun thread_rounds ::
    "'n ng_ops \<Rightarrow> handlers \<Rightarrow> ('n heap \<Rightarrow> nat) \<Rightarrow> ffi_server option \<Rightarrow> int \<Rightarrow> int \<Rightarrow> int \<Rightarrow> 'n thread_env list
       \<Rightarrow> 'n thread_state \<Rightarrow> (bool \<times> 'n thread_state) option" where
  "thread_rounds ops H malloc srv lfd wfd sfd [] st = Some (False, st)"
| "thread_rounds ops H malloc srv lfd wfd sfd (re # res) st =
     (case thread_round ops H malloc srv lfd wfd sfd re st of
        None \<Rightarrow> None
      | Some (True, st) \<Rightarrow> Some (True, st)
      | Some (False, st) \<Rightarrow> thread_rounds ops H malloc srv lfd wfd sfd res st)"

fun tick_each ::
    "'n ng_ops \<Rightarrow> handlers \<Rightarrow> env \<Rightarrow> nat list \<Rightarrow> 'n thread_state \<Rightarrow> 'n thread_state option" where
  "tick_each ops H e [] st = Some st"
| "tick_each ops H e (a # as) st =
     (case ticked a st (conn_tick ops H e a (th_abi st) (th_nets st a)) of
        None \<Rightarrow> None
      | Some (_, st) \<Rightarrow> tick_each ops H e as st)"

fun free_each :: "alloc \<Rightarrow> nat list \<Rightarrow> 'n thread_state \<Rightarrow> 'n thread_state option" where
  "free_each al [] st = Some st"
| "free_each al (a # as) st =
     (case conn_free al a (th_kernel st) (th_abi st) of
        None \<Rightarrow> None
      | Some (k, w) \<Rightarrow> free_each al as (st\<lparr>th_kernel := k, th_abi := w\<rparr>))"

text \<open>
  What follows the loop; \<open>quiesce\<close> lists what the producers still do before \<open>on_quiesce\<close> has joined them.
\<close>

definition thread_teardown ::
    "'n ng_ops \<Rightarrow> handlers \<Rightarrow> env \<Rightarrow> (nat \<times> c_op) list \<Rightarrow> 'n thread_state \<Rightarrow> 'n thread_state option" where
  "thread_teardown ops H e quiesce st =
     (case Option.bind (produce ops quiesce (th_abi st)) (mailbox_drain ops (env_alloc e)) of
        None \<Rightarrow> None
      | Some w \<Rightarrow>
          Option.bind (tick_each ops H e (th_conns st) (st\<lparr>th_abi := w\<rparr>))
            (free_each (env_alloc e) (th_conns st)))"

text \<open>
  \<open>Run\<close>: \<open>newfd\<close> is what \<open>eventfd\<close> answers for the mailbox. The result says whether the thread has
  returned.
\<close>

definition thread_run ::
    "'n ng_ops \<Rightarrow> handlers \<Rightarrow> ('n heap \<Rightarrow> nat) \<Rightarrow> ffi_server option \<Rightarrow> int \<Rightarrow> nat \<Rightarrow> int \<Rightarrow> 'n thread_env list
       \<Rightarrow> env \<Rightarrow> (nat \<times> c_op) list \<Rightarrow> kernel \<Rightarrow> 'n abi \<Rightarrow> (bool \<times> 'n thread_state) option" where
  "thread_run ops H malloc srv newfd io stop_fd res e quiesce k w =
     (let w = mailbox_register_io_thread newfd io w;
          (wfd, w) = mailbox_wakeup_fd newfd w;
          lfd = cpp_listener_fd srv;
          st = \<lparr>th_abi = w, th_kernel = k, th_conns = [], th_nets = \<lambda>_. \<lparr>net_sends = [], net_reads = [],
                net_wire = [], net_emitted = []\<rparr>\<rparr>
      in case thread_rounds ops H malloc srv lfd wfd stop_fd res st of
           None \<Rightarrow> None
         | Some (False, st) \<Rightarrow> Some (False, st)
         | Some (True, st) \<Rightarrow> map_option (Pair True) (thread_teardown ops H e quiesce st))"

section \<open>Starting and stopping\<close>

text \<open>The object: its stop descriptor and whether its thread can be joined.\<close>

record thread_object =
  to_stop_fd :: int
  to_joinable :: bool

definition thread_start :: "ffi_server option \<Rightarrow> int \<Rightarrow> thread_object" where
  "thread_start srv evfd =
     (if srv = None then \<lparr>to_stop_fd = - 1, to_joinable = False\<rparr>
      else if evfd < 0 then \<lparr>to_stop_fd = evfd, to_joinable = False\<rparr>
      else \<lparr>to_stop_fd = evfd, to_joinable = True\<rparr>)"

text \<open>\<open>Stop\<close> adds 1 to the counter of the descriptor and joins; the answer is the new counter.\<close>

definition thread_stop :: "thread_object \<Rightarrow> nat \<Rightarrow> thread_object \<times> nat" where
  "thread_stop t n =
     (if \<not> to_joinable t then (t, n)
      else (t\<lparr>to_joinable := False\<rparr>, if n + 1 > EVENTFD_MAX then n else n + 1))"

text \<open>The destructor, and then that of the member that holds the server.\<close>

definition thread_drop :: "thread_object \<Rightarrow> ffi_server option \<Rightarrow> nat \<Rightarrow> kernel \<Rightarrow> kernel" where
  "thread_drop t srv n k =
     (let (t, _) = thread_stop t n
      in cpp_server_drop srv (if to_stop_fd t \<ge> 0 then close_fd (to_stop_fd t) k else k))"

section \<open>Invariant\<close>

text \<open>The part of the mailbox invariant that speaks of handles, on the state the C ABI has.\<close>

definition ffi_of :: "'n abi \<Rightarrow> 'n ffi" where
  "ffi_of w =
     \<lparr>f_box = f_box w, f_heap = f_heap w, f_signal = f_signal w, f_owed = 0, f_draining = False,
      f_pushed = [], f_taken = []\<rparr>"

definition box_ok :: "nat \<Rightarrow> 'n abi \<Rightarrow> bool" where
  "box_ok io w \<longleftrightarrow> ffi_inv (ffi_of w) \<and> mb_io_registered (f_box w) \<and> mb_io_thread (f_box w) = io"

definition conn_fds :: "'n abi \<Rightarrow> nat list \<Rightarrow> int multiset" where
  "conn_fds w as = mset (map (\<lambda>a. cn_fd (the (f_heap w a))) as)"

lemma conn_fds_simps [simp]:
  "conn_fds w [] = {#}" "conn_fds w (a # as) = add_mset (cn_fd (the (f_heap w a))) (conn_fds w as)"
  "conn_fds w (as @ bs) = conn_fds w as + conn_fds w bs"
  by (simp_all add: conn_fds_def)

lemma conn_fds_cong:
  assumes "\<forall>a \<in> set as. cn_fd (the (f_heap w' a)) = cn_fd (the (f_heap w a))"
  shows "conn_fds w' as = conn_fds w as"
  using assms by (induction as) simp_all

text \<open>
  The loop owns exactly the connections on its list, each with its descriptor; \<open>base\<close> are the
  descriptors that were open before.
\<close>

definition thread_inv :: "nat \<Rightarrow> int multiset \<Rightarrow> 'n thread_state \<Rightarrow> bool" where
  "thread_inv io base st \<longleftrightarrow>
     distinct (th_conns st) \<and> 0 \<notin> set (th_conns st) \<and> dom (f_heap (th_abi st)) = set (th_conns st)
     \<and> box_ok io (th_abi st)
     \<and> mset (k_open (th_kernel st)) = base + conn_fds (th_abi st) (th_conns st)"

lemma box_ok_iff:
  "box_ok io w \<longleftrightarrow> mb_wakeup (f_box w) \<ge> 0 \<and> distinct (mb_dead (f_box w))
     \<and> list_all (handle_ok (f_box w) (f_heap w)) (mb_queue (f_box w))
     \<and> mb_io_registered (f_box w) \<and> mb_io_thread (f_box w) = io"
  by (auto simp: box_ok_def ffi_inv_def ffi_of_def)

text \<open>What most operations do: they change connections in place and at most grow the queue.\<close>

definition same_conns :: "'n abi \<Rightarrow> 'n abi \<Rightarrow> bool" where
  "same_conns w w' \<longleftrightarrow> (\<forall>a. map_option cn_fd (f_heap w' a) = map_option cn_fd (f_heap w a))"

lemma same_conns_dom: "same_conns w w' \<Longrightarrow> dom (f_heap w') = dom (f_heap w)"
proof -
  assume "same_conns w w'"
  then have "f_heap w' a = None \<longleftrightarrow> f_heap w a = None" for a
    unfolding same_conns_def by (metis option.map_disc_iff)
  then show ?thesis by (simp add: dom_def)
qed

lemma same_conns_trans: "same_conns w w' \<Longrightarrow> same_conns w' w'' \<Longrightarrow> same_conns w w''"
  by (simp add: same_conns_def)

lemma thread_inv_same:
  assumes "thread_inv io base st" and "same_conns (th_abi st) w" and "box_ok io w"
  shows "thread_inv io base (st\<lparr>th_abi := w\<rparr>)"
proof -
  have "cn_fd (the (f_heap w a)) = cn_fd (the (f_heap (th_abi st) a))" if "a \<in> dom (f_heap (th_abi st))" for a
    using that assms(2) by (fastforce simp: same_conns_def dom_def dest: spec [of _ a])
  then have "conn_fds w (th_conns st) = conn_fds (th_abi st) (th_conns st)"
    using assms(1) by (intro conn_fds_cong) (simp add: thread_inv_def)
  with assms same_conns_dom [OF assms(2)] show ?thesis unfolding thread_inv_def by auto
qed

lemma thread_inv_nets [simp]: "thread_inv io base (st\<lparr>th_nets := ns\<rparr>) = thread_inv io base st"
  by (simp add: thread_inv_def)

lemma box_ok_heap:
  assumes "box_ok io w" and "dom h = dom (f_heap w)"
  shows "box_ok io (w\<lparr>f_heap := h\<rparr>)"
proof -
  have "handle_ok (f_box w) h = handle_ok (f_box w) (f_heap w)"
    using assms(2) by (auto simp: handle_ok_def fun_eq_iff dom_def)
  with assms(1) show ?thesis by (simp add: box_ok_iff)
qed

subsection \<open>Operations of the ABI\<close>

lemma tick_read_fd: "tick_read ops H e cn n = (r, cn', n') \<Longrightarrow> cn_fd cn' = cn_fd cn"
  by (auto simp: tick_read_def Let_def split: prod.splits sum.splits option.splits)

lemma tick_write_fd: "tick_write ops e cn n = (r, cn', n') \<Longrightarrow> cn_fd cn' = cn_fd cn"
  by (auto simp: tick_write_def Let_def split: prod.splits)

lemma update_conn:
  assumes "box_ok io w" and "f_heap w a = Some cn" and "cn_fd cn' = cn_fd cn"
  shows "same_conns w (w\<lparr>f_heap := (f_heap w)(a \<mapsto> cn')\<rparr>) \<and> box_ok io (w\<lparr>f_heap := (f_heap w)(a \<mapsto> cn')\<rparr>)"
proof -
  have "dom ((f_heap w)(a \<mapsto> cn')) = dom (f_heap w)" using assms(2) by auto
  from box_ok_heap [OF assms(1) this] show ?thesis using assms(2,3) by (simp add: same_conns_def)
qed

lemma conn_ticks:
  assumes "box_ok io w" and "f_heap w a = Some cn" and "a \<noteq> 0"
  shows "\<exists>t w' n'. conn_tick_read ops H e a w n = Some (t, w', n') \<and> same_conns w w' \<and> box_ok io w'
      \<and> f_box w' = f_box w"
    and "\<exists>t w' n'. conn_tick_write ops e a w n = Some (t, w', n') \<and> same_conns w w' \<and> box_ok io w'
      \<and> f_box w' = f_box w"
proof -
  obtain r cn' n' where t: "tick_read ops H e cn n = (r, cn', n')" by (metis prod_cases3)
  from update_conn [OF assms(1,2) tick_read_fd [OF t]] assms(2,3) t
  show "\<exists>t w' n'. conn_tick_read ops H e a w n = Some (t, w', n') \<and> same_conns w w' \<and> box_ok io w'
      \<and> f_box w' = f_box w"
    by (simp add: conn_tick_read_def)
  obtain r cn' n' where t: "tick_write ops e cn n = (r, cn', n')" by (metis prod_cases3)
  from update_conn [OF assms(1,2) tick_write_fd [OF t]] assms(2,3) t
  show "\<exists>t w' n'. conn_tick_write ops e a w n = Some (t, w', n') \<and> same_conns w w' \<and> box_ok io w'
      \<and> f_box w' = f_box w"
    by (simp add: conn_tick_write_def)
qed

lemma produce_ok:
  assumes "box_ok io w" and "\<forall>x \<in> set xs. fst x \<noteq> io"
  shows "\<exists>w'. produce ops xs w = Some w' \<and> same_conns w w' \<and> box_ok io w'"
  using assms
proof (induction xs arbitrary: w)
  case Nil
  then show ?case by (simp add: same_conns_def)
next
  case (Cons x xs)
  obtain me op where x: "x = (me, op)" by fastforce
  show ?case
  proof (cases "handle_known (op_call op) w")
    case True
    let ?w = "w\<lparr>f_box := (f_box w)\<lparr>mb_queue := mb_queue (f_box w) @ [op_item op]\<rparr>,
                f_signal := poke (f_box w) (f_signal w)\<rparr>"
    have q: "run_c_op ops me op w = Some (0, ?w)"
      using Cons.prems True x by (intro queued_op) (auto simp: box_ok_iff handle_known_def)
    have "handle_ok (f_box ?w) (f_heap w) = handle_ok (f_box w) (f_heap w)"
      by (simp add: handle_ok_def fun_eq_iff)
    moreover have "handle_ok (f_box w) (f_heap w) (op_item op)"
      using True by (simp add: handle_known_def handle_ok_def)
    ultimately have "box_ok io ?w" using Cons.prems(1) by (simp add: box_ok_iff)
    with Cons.IH [of ?w] Cons.prems obtain w' where "produce ops xs ?w = Some w'" "same_conns ?w w'" "box_ok io w'"
      by auto
    moreover have "same_conns w ?w" by (simp add: same_conns_def)
    ultimately show ?thesis using True x q same_conns_trans by auto
  next
    case False
    with Cons x show ?thesis by simp
  qed
qed

lemma replay_fds:
  "drain_replay ops al dead items h = Some h' \<Longrightarrow> map_option cn_fd (h' a) = map_option cn_fd (h a)"
proof (induction items arbitrary: h)
  case (Cons it items)
  show ?case
  proof (cases "it_call it = 0 \<or> it_call it \<in> set dead")
    case True
    with Cons show ?thesis by simp
  next
    case False
    with Cons.prems obtain c where c: "h (it_call it) = Some c"
      and r: "drain_replay ops al dead items (h(it_call it \<mapsto> replay_item ops al it c)) = Some h'"
      by (auto split: option.splits)
    from Cons.IH [OF r] c show ?thesis by (auto simp: replay_item_def split: if_splits)
  qed
qed simp

lemma drain_ok:
  assumes "box_ok io w"
  shows "\<exists>w'. mailbox_drain ops al w = Some w' \<and> same_conns w w' \<and> box_ok io w'
    \<and> mb_queue (f_box w') = []"
proof -
  have "list_all (handle_ok (f_box w) (f_heap w)) (mb_queue (f_box w))" using assms by (simp add: box_ok_iff)
  from replay_safe [OF this, of ops al] obtain h
    where h: "drain_replay ops al (mb_dead (f_box w)) (mb_queue (f_box w)) (f_heap w) = Some h" by blast
  from replay_fds [OF h] assms h show ?thesis
    by (simp add: mailbox_drain_def drain_def drain_take_def same_conns_def box_ok_iff)
qed

lemma free_ok:
  assumes "thread_inv io base st" and "th_conns st = xs @ a # ys" and "al_slot al"
  shows "\<exists>k w. conn_free al a (th_kernel st) (th_abi st) = Some (k, w)
    \<and> thread_inv io base (st\<lparr>th_kernel := k, th_abi := w, th_conns := xs @ ys\<rparr>)
    \<and> f_heap w = (f_heap (th_abi st))(a := None) \<and> mb_queue (f_box w) = map (scrub a) (mb_queue (f_box (th_abi st)))"
proof -
  let ?w = "th_abi st"
  have dom: "dom (f_heap ?w) = set (th_conns st)" and "a \<noteq> 0" and dist: "distinct (xs @ a # ys)"
    using assms by (auto simp: thread_inv_def)
  have "a \<in> dom (f_heap ?w)" using assms(2) by (simp add: dom)
  then obtain cn where cn: "f_heap ?w a = Some cn" by blast
  let ?w' = "?w\<lparr>f_box := unregister_call al a (f_box ?w), f_heap := (f_heap ?w)(a := None)\<rparr>"
  have "ffi_step undefined (ffi_of ?w) (ffi_of ?w')"
    using ffi_step.free [of "ffi_of ?w" a al] cn assms(3) by (simp add: ffi_of_def)
  from ffi_step_inv [OF this] have "box_ok io ?w'"
    using assms(1) by (simp add: box_ok_def thread_inv_def unregister_call_def Let_def)
  moreover have "conn_fds ?w' (xs @ ys) = conn_fds ?w (xs @ ys)" using dist by (intro conn_fds_cong) auto
  moreover have "dom (f_heap ?w') = set (xs @ ys)" using dom dist assms(2) by auto
  moreover have "mset (k_open (connection_drop cn (th_kernel st))) = base + conn_fds ?w (xs @ ys)"
    using assms(1,2) cn by (simp add: thread_inv_def connection_drop_def close_fd_def)
  moreover have "distinct (xs @ ys)" "0 \<notin> set (xs @ ys)" using dist assms(1,2) by (auto simp: thread_inv_def)
  ultimately have "thread_inv io base (st\<lparr>th_kernel := connection_drop cn (th_kernel st), th_abi := ?w',
      th_conns := xs @ ys\<rparr>)"
    unfolding thread_inv_def by simp
  then show ?thesis
    using cn \<open>a \<noteq> 0\<close> by (simp add: conn_free_def unregister_call_def Let_def)
qed

definition malloc_ok :: "('n heap \<Rightarrow> nat) \<Rightarrow> bool" where
  "malloc_ok malloc \<longleftrightarrow> (\<forall>h. finite (dom h) \<longrightarrow> malloc h \<noteq> 0 \<and> h (malloc h) = None)"

text \<open>
  Pending clients whose session can be created; without a session the descriptor would be lost
  (\<open>Uds\<close>).
\<close>

definition accepts_ok :: "((int + int) \<times> (conn_error + 'n conn) \<times> net) list \<Rightarrow> bool" where
  "accepts_ok as \<longleftrightarrow> list_all (\<lambda>(_, created, _). \<exists>c. created = Inr c) as"

lemma register_call_box:
  "mb_queue (register_call a mb) = mb_queue mb" "mb_io_registered (register_call a mb) = mb_io_registered mb"
  "mb_io_thread (register_call a mb) = mb_io_thread mb"
  by (simp_all add: register_call_def split: option.splits)

lemma cpp_accept_cases:
  assumes "cpp_accept al addr acc (Inr c0) srv k w = (c, k', w')"
  shows "c = 0 \<and> w' = w \<and> k_open k' = k_open k
    \<or> (\<exists>cn. c = addr \<and> k_open k' = cn_fd cn # k_open k
        \<and> w' = w\<lparr>f_box := register_call addr (f_box w), f_heap := (f_heap w)(addr \<mapsto> cn)\<rparr>)"
proof (cases "\<exists>s l fd. srv = Some s \<and> fs_listener s = Some l \<and> acc = Inr fd")
  case True
  then obtain s l fd where s: "srv = Some s" "fs_listener s = Some l" "acc = Inr fd" by blast
  obtain r c1 where r: "register_all al 0 (fs_methods s) (set_fd fd c0) = (r, c1)" by fastforce
  note defs = cpp_accept_def server_accept_def listener_accept_def connection_drop_def close_fd_def
  show ?thesis
  proof (cases r)
    case (Inl e)
    with r s assms show ?thesis by (auto simp: defs)
  next
    case (Inr u)
    with r s assms show ?thesis
      by (intro disjI2 exI [of _ "\<lparr>cn_fd = fd, cn_conn = c1\<rparr>"]) (auto simp: defs)
  qed
next
  case False
  with assms show ?thesis
    by (intro disjI1, cases acc; cases srv)
       (simp_all add: cpp_accept_def server_accept_def listener_accept_def split: option.splits if_splits)
qed

lemma accept_one:
  assumes "thread_inv io base st" and "malloc_ok malloc"
    and "cpp_accept al (malloc (f_heap (th_abi st))) acc (Inr c0) srv (th_kernel st) (th_abi st) = (c, k, w)"
  shows "if c = 0 then thread_inv io base (st\<lparr>th_kernel := k, th_abi := w\<rparr>)
    else thread_inv io base (st\<lparr>th_kernel := k, th_abi := w, th_conns := th_conns st @ [c]\<rparr>)"
proof -
  let ?w = "th_abi st" and ?a = "malloc (f_heap (th_abi st))"
  have "finite (dom (f_heap ?w))" using assms(1) by (metis thread_inv_def List.finite_set)
  with assms(2) have a: "?a \<noteq> 0" "f_heap ?w ?a = None" by (auto simp: malloc_ok_def)
  from assms(3) consider
    (none) "c = 0" "w = ?w" "k_open k = k_open (th_kernel st)"
    | (one) cn where "c = ?a" "k_open k = cn_fd cn # k_open (th_kernel st)"
      "w = ?w\<lparr>f_box := register_call ?a (f_box ?w), f_heap := (f_heap ?w)(?a \<mapsto> cn)\<rparr>"
    using cpp_accept_cases by blast
  then show ?thesis
  proof cases
    case none
    then show ?thesis using assms(1) by (auto simp: thread_inv_def)
  next
    case one
    have "ffi_step undefined (ffi_of ?w) (ffi_of w)"
      using ffi_step.accept [of "ffi_of ?w" ?a undefined cn] a one(3) by (simp add: ffi_of_def)
    from ffi_step_inv [OF this] have "box_ok io w"
      using assms(1) one(3) by (simp add: box_ok_def thread_inv_def register_call_box)
    moreover have "?a \<notin> set (th_conns st)" using a assms(1) by (auto simp: thread_inv_def)
    moreover have "conn_fds w (th_conns st) = conn_fds ?w (th_conns st)"
      using \<open>?a \<notin> set (th_conns st)\<close> one(3) by (intro conn_fds_cong) auto
    moreover have "dom (f_heap w) = insert ?a (dom (f_heap ?w))" "f_heap w ?a = Some cn" using one(3) by simp_all
    ultimately show ?thesis using assms(1) a(1) one(1,2) unfolding thread_inv_def by simp
  qed
qed

lemma accept_all_inv:
  assumes "thread_inv io base st" and "malloc_ok malloc" and "accepts_ok as"
  shows "thread_inv io base (accept_all al malloc srv as st)
    \<and> (\<exists>ys. th_conns (accept_all al malloc srv as st) = th_conns st @ ys)"
  using assms
proof (induction as arbitrary: st)
  case (Cons x as)
  obtain acc c0 net where x: "x = (acc, Inr c0, net)" using Cons.prems(3) by (cases x) (auto simp: accepts_ok_def)
  obtain c k w where c: "cpp_accept al (malloc (f_heap (th_abi st))) acc (Inr c0) srv (th_kernel st) (th_abi st)
      = (c, k, w)" by (metis prod_cases3)
  note one = accept_one [OF Cons.prems(1,2) c]
  have ok: "accepts_ok as" using Cons.prems(3) by (simp add: accepts_ok_def)
  show ?case
  proof (cases "c = 0")
    case True
    with one c x show ?thesis by simp
  next
    case False
    let ?st = "st\<lparr>th_kernel := k, th_abi := w, th_conns := th_conns st @ [c], th_nets := (th_nets st)(c := net)\<rparr>"
    have "thread_inv io base ?st" using one False thread_inv_nets by simp
    from Cons.IH [OF this Cons.prems(2) ok] show ?thesis using False c x by auto
  qed
qed simp

subsection \<open>Rounds\<close>

lemma live_conn:
  assumes "thread_inv io base st" and "a \<in> set (th_conns st)"
  shows "a \<noteq> 0" and "\<exists>cn. f_heap (th_abi st) a = Some cn" and "box_ok io (th_abi st)"
  using assms by (auto simp: thread_inv_def)

lemma ticked_inv:
  assumes "thread_inv io base st" and "r = Some (t, w, n)" and "same_conns (th_abi st) w" and "box_ok io w"
  shows "\<exists>st'. ticked a st r = Some (Some t, st') \<and> thread_inv io base st' \<and> th_conns st' = th_conns st
    \<and> f_box (th_abi st') = f_box w \<and> th_abi st' = w"
  using thread_inv_same [OF assms(1,3,4)] assms(2) thread_inv_nets by (simp add: ticked_def)

lemma tick_one_inv:
  assumes "thread_inv io base st" and "a \<in> set (th_conns st)"
  shows "\<exists>r st'. tick_one ops H e rv a st = Some (r, st') \<and> thread_inv io base st' \<and> th_conns st' = th_conns st"
proof -
  note live = live_conn [OF assms]
  obtain cn where cn: "f_heap (th_abi st) a = Some cn" using live(2) by blast
  obtain t w n where r: "conn_tick_read ops H e a (th_abi st) (th_nets st a) = Some (t, w, n)"
    "same_conns (th_abi st) w" "box_ok io w" using conn_ticks(1) [OF live(3) cn live(1)] by blast
  obtain t2 w2 n2 where w: "conn_tick_write ops e a (th_abi st) (th_nets st a) = Some (t2, w2, n2)"
    "same_conns (th_abi st) w2" "box_ok io w2" using conn_ticks(2) [OF live(3) cn live(1)] by blast
  have d: "conn_next_deadline_ms (env_now e) a (th_abi st) \<noteq> None"
    using cn live(1) by (simp add: conn_next_deadline_ms_def)
  show ?thesis
    using ticked_inv [OF assms(1) r] ticked_inv [OF assms(1) w] d assms(1)
    unfolding tick_one_def by (fastforce split: option.splits)
qed

lemma tick_all_inv:
  assumes "thread_inv io base st" and "cap \<le> length (th_conns st)" and "al_slot (env_alloc e)"
  shows "\<exists>st'. tick_all ops H e revs i cap st = Some st' \<and> thread_inv io base st'"
  using assms
proof (induction ops H e revs i cap st rule: tick_all.induct)
  case (1 ops H e revs i cap st)
  show ?case
  proof (cases "i < cap")
    case True
    let ?a = "th_conns st ! i"
    have a: "?a \<in> set (th_conns st)" using True "1.prems"(2) by simp
    obtain r st1 where t: "tick_one ops H e (revs ! i) ?a st = Some (r, st1)" "thread_inv io base st1"
      "th_conns st1 = th_conns st" using tick_one_inv [OF "1.prems"(1) a] by blast
    show ?thesis
    proof (cases "\<exists>x. r = Some x \<and> (x = 1 \<or> x < 0)")
      case False
      then have "tick_all ops H e revs i cap st = tick_all ops H e revs (i + 1) cap st1"
        using True t(1) by (subst tick_all.simps) (auto split: option.splits)
      moreover have "\<exists>st'. tick_all ops H e revs (i + 1) cap st1 = Some st' \<and> thread_inv io base st'"
      proof (cases r)
        case None
        with "1.IH"(1) [OF True t(1) refl] t "1.prems" show ?thesis by simp
      next
        case (Some x)
        with False "1.IH"(3) [OF True t(1) refl] t "1.prems" show ?thesis by simp
      qed
      ultimately show ?thesis by simp
    next
      case True
      then obtain x where x: "r = Some x" "x = 1 \<or> x < 0" by blast
      have "th_conns st1 = take i (th_conns st) @ ?a # drop (i + 1) (th_conns st)"
        using t(3) id_take_nth_drop [of i "th_conns st"] \<open>i < cap\<close> "1.prems"(2) by simp
      from free_ok [OF t(2) this "1.prems"(3)] obtain k w where
        f: "conn_free (env_alloc e) ?a (th_kernel st1) (th_abi st1) = Some (k, w)"
        and inv: "thread_inv io base (st1\<lparr>th_kernel := k, th_abi := w,
            th_conns := take i (th_conns st) @ drop (i + 1) (th_conns st)\<rparr>)" by blast
      have "tick_all ops H e revs i cap st = tick_all ops H e revs i (cap - 1)
          (st1\<lparr>th_kernel := k, th_abi := w, th_conns := take i (th_conns st) @ drop (i + 1) (th_conns st)\<rparr>)"
        using \<open>i < cap\<close> t x f by (subst tick_all.simps) auto
      moreover have "conn_free (env_alloc e) (th_conns st1 ! i) (th_kernel st1) (th_abi st1) = Some (k, w)"
        using f t(3) by simp
      note "1.IH"(2) [OF \<open>i < cap\<close> t(1) refl x(1) x(2) this refl]
      ultimately show ?thesis using inv t(3) "1.prems"(2,3) \<open>i < cap\<close> by simp
    qed
  next
    case False
    with "1.prems"(1) show ?thesis by (subst tick_all.simps) simp
  qed
qed

definition env_ok :: "nat \<Rightarrow> 'n thread_env \<Rightarrow> bool" where
  "env_ok io re \<longleftrightarrow> (\<forall>x \<in> set (re_produced re). fst x \<noteq> io) \<and> accepts_ok (re_accepts re)
     \<and> al_slot (env_alloc (re_env re))"

definition stop_seen :: "'n thread_env \<Rightarrow> bool" where
  "stop_seen re \<longleftrightarrow> (case re_poll re of Inl _ \<Rightarrow> False | Inr p \<Rightarrow> rv_in (pa_stop p))"

lemma poll_inputs:
  assumes "\<forall>a \<in> set as. a \<noteq> 0 \<and> f_heap w a \<noteq> None"
  shows "\<exists>x. pollfds ops lfd wfd sfd w as = Some x" and "\<exists>t. poll_timeout now w as t0 = Some t"
proof -
  have "\<exists>x. conn_pollfds ops w as = Some x"
    using assms by (induction as) (auto simp: conn_wants_write_c_def conn_fd_of_def)
  then show "\<exists>x. pollfds ops lfd wfd sfd w as = Some x" by (auto simp: pollfds_def)
  show "\<exists>t. poll_timeout now w as t0 = Some t"
    using assms by (induction as arbitrary: t0) (auto simp: conn_next_deadline_ms_def)
qed

lemma thread_round_inv:
  assumes "thread_inv io base st" and "malloc_ok malloc" and "env_ok io re"
  shows "\<exists>b st'. thread_round ops H malloc srv lfd wfd sfd re st = Some (b, st') \<and> thread_inv io base st'
    \<and> (stop_seen re \<longrightarrow> b)"
proof -
  let ?e = "re_env re"
  have slot: "al_slot (env_alloc ?e)" and acc: "accepts_ok (re_accepts re)" using assms(3) by (simp_all add: env_ok_def)
  obtain x t where x: "pollfds ops lfd wfd sfd (th_abi st) (th_conns st) = Some x"
    "poll_timeout (re_now re) (th_abi st) (th_conns st) (- 1) = Some t"
    using poll_inputs [of "th_conns st" "th_abi st"] live_conn(1,2) [OF assms(1)] by (metis option.distinct(1))
  obtain w1 where w1: "produce ops (re_produced re) (th_abi st) = Some w1" "same_conns (th_abi st) w1" "box_ok io w1"
    using produce_ok [of io "th_abi st" "re_produced re" ops] assms(1,3) by (auto simp: thread_inv_def env_ok_def)
  note i1 = thread_inv_same [OF assms(1) w1(2,3)]
  show ?thesis
  proof (cases "\<exists>p. re_poll re = Inr p \<and> \<not> rv_in (pa_stop p)")
    case False
    then show ?thesis
      using i1 x w1(1)
      by (cases "re_poll re") (auto simp: thread_round_def stop_seen_def intro: exI [of _ True])
  next
    case True
    then obtain p where p: "re_poll re = Inr p" "\<not> rv_in (pa_stop p)" by blast
    obtain w2 where w2: "(if rv_in (pa_wakeup p) then mailbox_drain ops (env_alloc ?e) w1 else Some w1) = Some w2"
      "same_conns (th_abi st) w2" "box_ok io w2"
      using drain_ok [OF w1(3), of ops "env_alloc ?e"] w1 same_conns_trans by (metis (full_types))
    note i2 = thread_inv_same [OF assms(1) w2(2,3)]
    define st3 where "st3 = (if rv_in (pa_listener p)
        then accept_all (env_alloc ?e) malloc srv (re_accepts re) (st\<lparr>th_abi := w2\<rparr>) else st\<lparr>th_abi := w2\<rparr>)"
    have i3: "thread_inv io base st3" "length (th_conns st) \<le> length (th_conns st3)"
      using accept_all_inv [OF i2 assms(2) acc, of "env_alloc ?e" srv] i2 by (auto simp: st3_def)
    obtain st4 where st4: "tick_all ops H ?e (pa_conns p) 0 (length (th_conns st)) st3 = Some st4"
      "thread_inv io base st4" using tick_all_inv [OF i3 slot] by blast
    let ?bad = "rv_err (pa_listener p) \<or> rv_hup (pa_listener p) \<or> rv_nval (pa_listener p)"
    have "thread_round ops H malloc srv lfd wfd sfd re st
        = Some (if ?bad then (True, st\<lparr>th_abi := w2\<rparr>) else (False, st4))"
      using x w1(1) p w2(1) st4(1) by (auto simp: thread_round_def st3_def Let_def split: if_splits)
    with i2 st4(2) p show ?thesis by (cases ?bad) (auto simp: stop_seen_def)
  qed
qed

lemma thread_rounds_inv:
  assumes "thread_inv io base st" and "malloc_ok malloc" and "list_all (env_ok io) res"
  shows "\<exists>b st'. thread_rounds ops H malloc srv lfd wfd sfd res st = Some (b, st') \<and> thread_inv io base st'
    \<and> ((\<exists>re \<in> set res. stop_seen re) \<longrightarrow> b)"
  using assms
proof (induction res arbitrary: st)
  case (Cons re res)
  obtain b st1 where r: "thread_round ops H malloc srv lfd wfd sfd re st = Some (b, st1)" "thread_inv io base st1"
    "stop_seen re \<longrightarrow> b"
    using thread_round_inv [OF Cons.prems(1,2)] Cons.prems(3) by (metis list.pred_inject(2))
  show ?case using Cons.IH [OF r(2) Cons.prems(2)] Cons.prems(3) r by (cases b) auto
next
  case Nil
  then show ?case by (intro exI [of _ False] exI [of _ st]) simp
qed

subsection \<open>Teardown\<close>

lemma tick_each_inv:
  assumes "thread_inv io base st" and "set as \<subseteq> set (th_conns st)"
  shows "\<exists>st'. tick_each ops H e as st = Some st' \<and> thread_inv io base st' \<and> th_conns st' = th_conns st
    \<and> f_box (th_abi st') = f_box (th_abi st)"
  using assms
proof (induction as arbitrary: st)
  case (Cons a as)
  have a: "a \<in> set (th_conns st)" using Cons.prems(2) by simp
  note live = live_conn [OF Cons.prems(1) a]
  obtain cn where cn: "f_heap (th_abi st) a = Some cn" using live(2) by blast
  obtain t w n where r: "conn_tick_read ops H e a (th_abi st) (th_nets st a) = Some (t, w, n)"
    "same_conns (th_abi st) w" "box_ok io w" "f_box w = f_box (th_abi st)"
    using conn_ticks(1) [OF live(3) cn live(1)] by blast
  obtain st1 where st1: "ticked a st (conn_tick_read ops H e a (th_abi st) (th_nets st a)) = Some (Some t, st1)"
    "thread_inv io base st1" "th_conns st1 = th_conns st" "f_box (th_abi st1) = f_box (th_abi st)"
    using ticked_inv [OF Cons.prems(1) r(1-3), of a] r(1,4) by metis
  from Cons.IH [OF st1(2)] st1 Cons.prems(2) show ?case by (simp add: conn_tick_def)
qed simp

lemma free_each_inv:
  assumes "thread_inv io base (st\<lparr>th_conns := as\<rparr>)" and "al_slot al" and "mb_queue (f_box (th_abi st)) = []"
  shows "\<exists>st'. free_each al as st = Some st' \<and> f_heap (th_abi st') = Map.empty
    \<and> mset (k_open (th_kernel st')) = base \<and> mb_queue (f_box (th_abi st')) = []"
  using assms
proof (induction as arbitrary: st)
  case Nil
  then show ?case by (simp add: thread_inv_def)
next
  case (Cons a as)
  have "th_conns (st\<lparr>th_conns := a # as\<rparr>) = [] @ a # as" by simp
  from free_ok [OF Cons.prems(1) this Cons.prems(2)] obtain k w where
    f: "conn_free al a (th_kernel st) (th_abi st) = Some (k, w)"
    and inv: "thread_inv io base ((st\<lparr>th_kernel := k, th_abi := w\<rparr>)\<lparr>th_conns := as\<rparr>)"
    and q: "mb_queue (f_box w) = map (scrub a) (mb_queue (f_box (th_abi st)))"
    by (auto simp: thread_inv_def)
  from Cons.IH [OF inv Cons.prems(2)] f q Cons.prems(3) show ?case by simp
qed

lemma thread_teardown_ok:
  assumes "thread_inv io base st" and "\<forall>x \<in> set quiesce. fst x \<noteq> io" and "al_slot (env_alloc e)"
  shows "\<exists>st'. thread_teardown ops H e quiesce st = Some st' \<and> f_heap (th_abi st') = Map.empty
    \<and> mset (k_open (th_kernel st')) = base \<and> mb_queue (f_box (th_abi st')) = []"
proof -
  have "box_ok io (th_abi st)" using assms(1) by (simp add: thread_inv_def)
  from produce_ok [OF this assms(2), of ops] obtain w1 where
    w1: "produce ops quiesce (th_abi st) = Some w1" "same_conns (th_abi st) w1" "box_ok io w1" by blast
  from drain_ok [OF w1(3), of ops "env_alloc e"] obtain w2 where
    w2: "mailbox_drain ops (env_alloc e) w1 = Some w2" "same_conns w1 w2" "box_ok io w2"
    "mb_queue (f_box w2) = []" by blast
  have "thread_inv io base (st\<lparr>th_abi := w2\<rparr>)"
    using thread_inv_same [OF assms(1)] same_conns_trans w1(2) w2(2,3) by blast
  from tick_each_inv [OF this, of "th_conns st" ops H e] obtain st1 where
    st1: "tick_each ops H e (th_conns st) (st\<lparr>th_abi := w2\<rparr>) = Some st1" "thread_inv io base st1"
    "th_conns st1 = th_conns st" "f_box (th_abi st1) = f_box w2" by auto
  have "st1\<lparr>th_conns := th_conns st\<rparr> = st1" using st1(3) by simp
  with free_each_inv [where st = st1 and as = "th_conns st" and al = "env_alloc e" and io = io and base = base] st1 w1(1) w2(1,4) assms(3)
  show ?thesis by (simp add: thread_teardown_def)
qed

subsection \<open>The timeout\<close>

lemma to_c_int_small: "- (2 ^ 31) \<le> d \<Longrightarrow> d < 2 ^ 31 \<Longrightarrow> to_c_int d = d"
  by (simp add: to_c_int_def signed_of_int signed_take_bit_int_eq_self)

text \<open>
  \<open>poll\<close> never sleeps past a deadline, as long as every deadline fits into an \<open>int\<close> of milliseconds
  (24 days): with no deadline it waits without bound, otherwise at most until the earliest one, and
  at least a millisecond.
\<close>

lemma poll_timeout_earliest:
  assumes "poll_timeout now w as t0 = Some t" and "t0 = - 1 \<or> 1 \<le> t0"
    and "\<forall>a \<in> set as. \<forall>d. conn_next_deadline_ms now a w = Some d \<longrightarrow> d < 2 ^ 31"
  shows "(t = - 1 \<or> 1 \<le> t) \<and> (1 \<le> t0 \<longrightarrow> 1 \<le> t \<and> t \<le> t0)
    \<and> (\<forall>a \<in> set as. \<forall>d. conn_next_deadline_ms now a w = Some d \<longrightarrow> 0 \<le> d \<longrightarrow> 1 \<le> t \<and> t \<le> max 1 d)"
  using assms
proof (induction as arbitrary: t0)
  case (Cons a as)
  then obtain d where d: "conn_next_deadline_ms now a w = Some d" "d < 2 ^ 31" by (auto split: option.splits)
  define t1 where "t1 = (if d \<ge> 0 \<and> (t0 < 0 \<or> d < t0) then max 1 d else t0)"
  have "(if d \<ge> 0 \<and> (t0 < 0 \<or> d < t0) then to_c_int (if d > 0 then d else 1) else t0) = t1"
    using d(2) by (auto simp: to_c_int_small t1_def)
  then have t: "poll_timeout now w as t1 = Some t" using Cons.prems(1) d(1) by simp
  have t1: "t1 = - 1 \<or> 1 \<le> t1" "1 \<le> t0 \<longrightarrow> 1 \<le> t1 \<and> t1 \<le> t0" "0 \<le> d \<longrightarrow> 1 \<le> t1 \<and> t1 \<le> max 1 d"
    using Cons.prems(2) by (auto simp: t1_def)
  have "\<forall>a \<in> set as. \<forall>d. conn_next_deadline_ms now a w = Some d \<longrightarrow> d < 2 ^ 31" using Cons.prems(3) by simp
  note ih = Cons.IH [OF t t1(1) this]
  have "1 \<le> t \<and> t \<le> max 1 d" if "0 \<le> d" using ih t1(3) that by linarith
  moreover have "1 \<le> t0 \<longrightarrow> 1 \<le> t \<and> t \<le> t0" using ih t1(2) by linarith
  ultimately show ?case using ih d(1) by simp
qed simp

text \<open>A deadline of \<open>2 ^ 31\<close> milliseconds becomes a wait without bound, one of \<open>2 ^ 32\<close> none at all.\<close>

lemma long_deadlines_narrowed: "to_c_int (2 ^ 31) < 0" "to_c_int (2 ^ 32) = 0"
  by (simp_all add: to_c_int_def)

section \<open>Properties\<close>

text \<open>
  C6. A server thread stops when asked and leaves nothing behind. Whatever clients, producers and
  nghttp2 do, the loop never touches a connection it has freed; once a round of \<open>poll\<close> reports the
  stop descriptor, or a failure of \<open>poll\<close> or of the listener ends the loop, \<open>Run\<close> returns with every
  connection freed, every descriptor it had accepted closed, and no queued write left, including
  those of producers that were only joined during the teardown. An accepted connection is placed by
  an allocator that does not hand out memory in use, tombstones can be allocated, and the sessions
  of accepted sockets can be created.
\<close>

theorem server_thread_stops:
  assumes "malloc_ok malloc" and "0 \<le> newfd" and "f_heap w = Map.empty"
    and "distinct (mb_dead (f_box w))" and "list_all (handle_ok (f_box w) (f_heap w)) (mb_queue (f_box w))"
    and "list_all (env_ok io) res" and "\<forall>x \<in> set quiesce. fst x \<noteq> io" and "al_slot (env_alloc e)"
  shows "\<exists>returned st. thread_run ops H malloc srv newfd io stop_fd res e quiesce k w = Some (returned, st)
    \<and> ((\<exists>re \<in> set res. stop_seen re) \<longrightarrow> returned)
    \<and> (returned \<longrightarrow> f_heap (th_abi st) = Map.empty \<and> mset (k_open (th_kernel st)) = mset (k_open k)
         \<and> mb_queue (f_box (th_abi st)) = [])"
proof -
  let ?w = "mailbox_register_io_thread newfd io w"
  define st where "st = \<lparr>th_abi = ?w, th_kernel = k, th_conns = [],
    th_nets = \<lambda>_. \<lparr>net_sends = [], net_reads = [], net_wire = [], net_emitted = []\<rparr>\<rparr>"
  have wake: "mb_wakeup (f_box ?w) \<ge> 0"
    using assms(2) by (simp add: mailbox_register_io_thread_def register_io_thread_def ensure_wakeup_def Let_def)
  then have fd: "mailbox_wakeup_fd newfd ?w = (mb_wakeup (f_box ?w), ?w)"
    by (simp add: mailbox_wakeup_fd_def wakeup_fd_def ensure_wakeup_def)
  have "thread_inv io (mset (k_open k)) st"
    using assms(3-5) wake
    by (simp add: thread_inv_def st_def box_ok_iff mailbox_register_io_thread_def register_io_thread_def
        ensure_wakeup_def handle_ok_def list_all_iff Let_def)
  from thread_rounds_inv [OF this assms(1,6), of ops H srv "cpp_listener_fd srv" "mb_wakeup (f_box ?w)" stop_fd]
  obtain b st1 where r: "thread_rounds ops H malloc srv (cpp_listener_fd srv) (mb_wakeup (f_box ?w)) stop_fd res st
      = Some (b, st1)" "thread_inv io (mset (k_open k)) st1" "(\<exists>re \<in> set res. stop_seen re) \<longrightarrow> b" by blast
  from thread_teardown_ok [OF r(2) assms(7,8), of ops H] r(1,3) fd show ?thesis
    by (cases b) (auto simp: thread_run_def Let_def simp flip: st_def)
qed

text \<open>
  A server that accepts one client, hears a write for it from another thread while it is asked to
  stop, and writes again while it is quiescing.
\<close>

definition demo_malloc :: "'n heap \<Rightarrow> nat" where
  "demo_malloc h = Suc (\<Sum> (dom h))"

definition quiet :: poll_revents where
  "quiet = \<lparr>rv_in = False, rv_out = False, rv_hup = False, rv_err = False, rv_nval = False\<rparr>"

definition readable :: poll_revents where
  "readable = quiet\<lparr>rv_in := True\<rparr>"

definition demo_env :: env where
  "demo_env = \<lparr>env_now = 0, env_alloc = al_all\<rparr>"

definition demo_server :: ffi_server where
  "demo_server = \<lparr>fs_listener = Some \<lparr>ls_fd = 4, ls_addr = [47]\<rparr>, fs_methods = []\<rparr>"

definition demo_rounds :: "unit thread_env list" where
  "demo_rounds =
     [\<lparr>re_produced = [], re_now = 0,
       re_poll = Inr \<lparr>pa_listener = readable, pa_conns = [], pa_wakeup = quiet, pa_stop = quiet\<rparr>,
       re_env = demo_env, re_accepts = [(Inr 9, Inr (demo_conn []), demo_net)]\<rparr>,
      \<lparr>re_produced = [(2, OpWrite 1 1 [7])], re_now = 0,
       re_poll = Inr \<lparr>pa_listener = quiet, pa_conns = [quiet], pa_wakeup = readable, pa_stop = readable\<rparr>,
       re_env = demo_env, re_accepts = []\<rparr>]"

lemma demo_malloc_ok: "malloc_ok demo_malloc"
proof -
  have "h (Suc (\<Sum> (dom h))) = None" if "finite (dom h)" for h :: "'n heap"
  proof (rule ccontr)
    assume "h (Suc (\<Sum> (dom h))) \<noteq> None"
    then have "Suc (\<Sum> (dom h)) \<in> dom h" by blast
    with member_le_sum [OF this, of id] that show False by simp
  qed
  then show ?thesis unfolding malloc_ok_def demo_malloc_def by blast
qed

theorem server_thread_stops_witness:
  "\<exists>st. thread_run demo_ops demo_handlers demo_malloc (Some demo_server) 3 1 5 demo_rounds demo_env
          [(2, OpFinish 1 1 0)] \<lparr>k_open = [4, 5], k_unlinked = []\<rparr>
          \<lparr>f_box = mailbox_new, f_heap = Map.empty, f_signal = 0\<rparr> = Some (True, st)
     \<and> f_heap (th_abi st) = Map.empty \<and> mset (k_open (th_kernel st)) = {#4, 5#}"
proof -
  let ?w = "\<lparr>f_box = mailbox_new, f_heap = Map.empty, f_signal = 0\<rparr> :: unit abi"
  have "0 \<le> (3 :: int)" "f_heap ?w = Map.empty" "distinct (mb_dead (f_box ?w))"
    "list_all (handle_ok (f_box ?w) (f_heap ?w)) (mb_queue (f_box ?w))" "list_all (env_ok 1) demo_rounds"
    "\<forall>x \<in> set [(2, OpFinish 1 1 0)]. fst x \<noteq> (1 :: nat)" "al_slot (env_alloc demo_env)"
    by (simp_all add: mailbox_new_def demo_rounds_def env_ok_def accepts_ok_def demo_env_def al_all_def)
  moreover have "\<exists>re \<in> set demo_rounds. stop_seen re"
    by (simp add: demo_rounds_def stop_seen_def readable_def)
  ultimately show ?thesis
    using server_thread_stops [OF demo_malloc_ok, of 3 ?w 1 demo_rounds "[(2, OpFinish 1 1 0)]" demo_env
        demo_ops demo_handlers "Some demo_server" 5 "\<lparr>k_open = [4, 5], k_unlinked = []\<rparr>"]
    by (auto simp: add_mset_commute)
qed

text \<open>Three connections: the first has ended, the second is idle, the third has data.\<close>

definition demo_three :: "unit thread_state" where
  "demo_three =
     \<lparr>th_abi = \<lparr>f_box = register_io_thread 3 1 mailbox_new,
                f_heap = [100 \<mapsto> \<lparr>cn_fd = 7, cn_conn = demo_conn []\<rparr>, 200 \<mapsto> \<lparr>cn_fd = 8, cn_conn = demo_conn []\<rparr>,
                          300 \<mapsto> \<lparr>cn_fd = 9, cn_conn = demo_conn []\<rparr>], f_signal = 0\<rparr>,
      th_kernel = \<lparr>k_open = [7, 8, 9], k_unlinked = []\<rparr>, th_conns = [100, 200, 300],
      th_nets = (\<lambda>_. demo_net)(100 := demo_net\<lparr>net_reads := [RdData []]\<rparr>,
                               200 := demo_net\<lparr>net_reads := [RdErr EAGAIN]\<rparr>,
                               300 := demo_net\<lparr>net_reads := [RdData [1]]\<rparr>)\<rparr>"

lemma demo_flush: "flush_writes demo_ops al (demo_conn []) demo_net = (Inr Live, demo_conn [], demo_net)"
proof -
  have "flush_pending (demo_conn []) demo_net = (Inr True, demo_conn [], demo_net)"
    by (subst flush_pending.simps) (simp add: has_pending_def demo_conn_def)
  moreover have "pull_send demo_ops (demo_conn [], demo_net) = (Inr [], demo_conn [], demo_net)"
    by (simp add: pull_send_def demo_ops_def demo_conn_def)
  ultimately have "flush_loop demo_ops al (demo_conn []) demo_net = (Inr True, demo_conn [], demo_net)"
    by (subst flush_loop.simps) simp
  then show ?thesis by (simp add: flush_writes_def conn_wants_read_def demo_ops_def)
qed

lemma demo_tick:
  assumes "f_heap w a = Some \<lparr>cn_fd = fd, cn_conn = demo_conn []\<rparr>" and "a \<noteq> 0"
  shows "conn_tick_read demo_ops H e a w (demo_net\<lparr>net_reads := [RdData []]\<rparr>) = Some (1, w, demo_net)"
    and "conn_tick_read demo_ops H e a w (demo_net\<lparr>net_reads := [RdErr EAGAIN]\<rparr>) = Some (0, w, demo_net)"
proof -
  have "(f_heap w)(a \<mapsto> \<lparr>cn_fd = fd, cn_conn = demo_conn []\<rparr>) = f_heap w" using assms(1) by auto
  then have same: "w\<lparr>f_heap := (f_heap w)(a \<mapsto> \<lparr>cn_fd = fd, cn_conn = demo_conn []\<rparr>)\<rparr> = w" by simp
  have c: "expire_deadlines demo_ops n (demo_conn []) = demo_conn []" "dispatch demo_ops H (demo_conn []) = (0, demo_conn [])"
    for n by (simp_all add: expire_deadlines_def dispatch_def demo_conn_def)
  have r: "sys_read 4096 (demo_net\<lparr>net_reads := [RdData []]\<rparr>) = (Inr [], demo_net)"
    "sys_read 4096 (demo_net\<lparr>net_reads := [RdErr EAGAIN]\<rparr>) = (Inl EAGAIN, demo_net)"
    by (simp_all add: sys_read_def demo_net_def)
  note eval = conn_tick_read_def tick_read_def tick_to_c_def drain_reads.simps [of demo_ops] c r demo_flush same assms Let_def
  show "conn_tick_read demo_ops H e a w (demo_net\<lparr>net_reads := [RdData []]\<rparr>) = Some (1, w, demo_net)"
    and "conn_tick_read demo_ops H e a w (demo_net\<lparr>net_reads := [RdErr EAGAIN]\<rparr>) = Some (0, w, demo_net)"
    by (simp_all add: eval would_block_def)
qed


end
