(* ===== verification/Spec2Isabelle.thy ===== *)
theory Spec2Isabelle
  imports Conn_Machine Session_Life Ffi_Health Ffi_Client Rust_Client Rust_Health Runtime Wirelog Plugin Build_Gen Sys_Build Cpp_Health Cpp_Thread
begin

text \<open>
  Verification development for grpcuds: gRPC over HTTP/2 over Unix domain sockets, written in Rust
  on top of libnghttp2, with a C and a Rust interface, C++ classes over the C one, and code generators for
  C, C++ and Rust. Paths below are relative to \<open>src/rust/\<close> unless they start with \<open>src/\<close>.

  \<^bold>\<open>The program.\<close> A server accepts connections on a socket (\<open>grpcuds-core/src/uds.rs\<close>). Each
  connection owns an nghttp2 session; a \<^emph>\<open>tick\<close> reads the socket, feeds the bytes to nghttp2, which
  calls back with headers, data and stream ends, dispatches the requests that are complete to the
  registered handlers and writes out what nghttp2 wants sent. A handler answers through an outbound
  queue per call, from which nghttp2 pulls the response body. Producers on other threads reach a
  connection through a mailbox and an eventfd; there is one mailbox for the C interface and one for
  the Rust interface. A blocking client runs one call at a time. The health service is built on
  the public interface three times, for C, C++ and Rust, and the generators write stubs and
  registrations against it.

  \<^bold>\<open>Theories and sources.\<close>
  \<^item> \<open>Prelude\<close>: types, sum-type helpers, lemmas on lists, words, saturating arithmetic, association
    lists and multisets that the components share.
  \<^item> \<open>Framing\<close>: the five-byte message header (\<open>grpcuds-core/src/framing.rs\<close>).
  \<^item> \<open>Headers\<close>: status table, response headers, trailers, percent encoding and \<open>grpc-timeout\<close>
    (\<open>headers.rs\<close>). Locale \<open>status_codec\<close>, which all four decoders of status numbers instantiate.
  \<^item> \<open>Out_Queue\<close>: outbound queue, back-pressure, copying and NO\_COPY draining
    (\<open>conn/out_queue.rs\<close>). Locales \<open>byte_source\<close> and \<open>live_byte_source\<close>: something pulled piece by
    piece that gives its bytes in order and, when live, to the end. Instances are both ways of
    draining, the pending bytes of a connection and the client's request body.
  \<^item> \<open>Posix\<close>: what reading and sending on a socket answers, as lists of coming results.
  \<^item> \<open>Conn_State\<close>: streams, connection, the operations on a call, deadlines and cancel hooks
    (\<open>conn/state.rs\<close>, constructors of \<open>session.rs\<close>). \<open>Session_Life\<close>: ownership of the nghttp2
    objects (\<open>Drop\<close> in \<open>session.rs\<close>, \<open>Conn::new_server\<close>).
  \<^item> \<open>Callbacks\<close>: each callback the server installs (\<open>conn/callbacks.rs\<close>), with the data provider
    of \<open>conn/dispatch.rs\<close>. \<open>Dispatch\<close>: the dispatch pass (\<open>conn/dispatch.rs\<close>).
  \<^item> \<open>Conn_Machine\<close>: the states a server connection reaches by its public operations.
  \<^item> \<open>Uds\<close>: listener, connection and tick over the system calls (\<open>uds.rs\<close>).
  \<^item> \<open>Wakeup\<close>: the promise of both mailboxes as a transition system and locale \<open>wakeup_queue\<close>.
  \<^item> \<open>Client_Codec\<close>: decoding, back-off and deadlines of the clients, with the locales
    \<open>frame_reader\<close> (messages come out as they were framed, however the bytes are cut) and
    \<open>deadline_wait\<close> (a wait ends once the clock passes its deadline). \<open>Client_Core\<close>: the blocking
    client (\<open>grpcuds-core/src/client.rs\<close>).
  \<^item> \<open>Ffi_Mailbox\<close>, \<open>Ffi_Server\<close>, \<open>Ffi_Health\<close>, \<open>Ffi_Client\<close>: the C interface
    (\<open>grpcuds-ffi-impl/src/\<close> \<open>mailbox.rs\<close>, \<open>server.rs\<close>, \<open>health.rs\<close>, \<open>client.rs\<close>). Locale
    \<open>status_registry\<close>, which the three health registries instantiate.
  \<^item> \<open>Cpp_Api\<close>, \<open>Cpp_Health\<close>, \<open>Cpp_Thread\<close>: the C++ headers (\<open>src/cpp/include/grpcudspp/\<close>): status,
    context, writers, server, builder, client and log sink over the functions of the C interface; the
    C++ health service (\<open>health.h\<close>) and its codec; and the poll loop that \<open>server_thread.h\<close> runs, whose
    rounds see the answers of \<open>poll\<close>, the sockets accepted and what other threads did meanwhile.
  \<^item> \<open>Rust_Server\<close>, \<open>Rust_Client\<close>, \<open>Rust_Health\<close>: the Rust interface (\<open>grpcuds/src/\<close> \<open>lib.rs\<close>,
    \<open>server.rs\<close>, \<open>client.rs\<close>, \<open>health.rs\<close>).
  \<^item> \<open>Runtime\<close>: log sinks, allocator and clock (\<open>grpcuds-core/src/\<close> \<open>logging.rs\<close>, \<open>allocator.rs\<close>,
    \<open>lib.rs\<close>, and the \<open>logging.rs\<close> of the two interfaces). \<open>Wirelog\<close>: the capture file
    (\<open>grpcuds-core/src/wirelog.rs\<close>).
  \<^item> \<open>Codegen_Text\<close>: text as lists of lines, and a lexer for it. \<open>Plugin_Names\<close>, \<open>Plugin_C\<close>,
    \<open>Plugin_Cpp\<close>, \<open>Plugin\<close>: the protoc plugin (\<open>protoc-gen-grpcudspp/src/main.rs\<close>).
    \<open>Build_Gen\<close>: the prost service generator (\<open>grpcuds-build/src/lib.rs\<close>). \<open>Sys_Build\<close>: the
    build script of the bindings (\<open>grpcuds-sys/build.rs\<close>).
  \<^item> This theory: a unary call from the client's bytes to the client's result, a status from a C++
    handler to a C++ client, and generated stubs against a running server.

  \<^bold>\<open>How the code is modelled.\<close> Records stand for structs, datatypes for enums, sums and options for
  \<open>Result\<close> and \<open>Option\<close>; a C return code is an \<open>int\<close>. Bytes are \<open>8 word\<close>, and widths are kept
  where the code can overflow (frame lengths, saturating sums, the random generator, TCP sequence
  numbers and checksums); counters that stay far below their width are \<open>nat\<close>. Strings of the
  generators are lists of characters that stand for UTF-8 bytes. Fallible allocation is an argument
  (\<open>alloc\<close>) and every branch for exhaustion is there. nghttp2 is a record of functions (\<open>ng_ops\<close>,
  \<open>cl_ops\<close>) whose entry points answer a tree of the callbacks they make; what is proved of a server
  connection holds for every such tree. Kernel answers are arguments. Handlers are arguments: the
  list of operations they perform and the status they return. Threads are interleavings of steps; a
  section under a lock is one step. An address of the C interface is a number, connections are a
  finite map on addresses, and a dereference of an address that is not mapped is visible in
  the result.

  \<^bold>\<open>What is shown.\<close>
  \<^item> \<open>Safety of a connection\<close>: the invariant of every reachable state, finality of the first finish,
    messages in flight are never touched, frames leave in order, expiry of deadlines.
  \<^item> \<open>Functional behaviour\<close>: verdict of dispatch on each kind of request, draining as \<open>take\<close> and
    \<open>drop\<close>, equality of the two ways of draining, outcome of the data provider, what a bounded queue
    keeps, the unary contract, results of both clients and their agreement, agreement of the C++ health
    service with the C one.
  \<^item> \<open>Termination and liveness\<close>: calls and connection attempts return by their deadline, one pass
    answers every complete request, no wakeup is lost, the serve loop stops, the C++ server thread
    stops with its connections freed and its descriptors closed.
  \<^item> \<open>Round trips\<close>: messages, percent encoding, timeouts; the whole unary call; C++ statuses.
  \<^item> \<open>Generators\<close>: the generated text is well formed (brackets, literals, comments) and its string
    literals are the method paths, the same in header and source; which files are refused; the
    registrations route each method of a generated stub to its handler.
  \<^item> \<open>Limits of the code\<close>: five properties of kind \<open>error\<close> that exhibit behaviour the documentation
    does not promise (watchers that outlive a connection, reordered status changes, reuse of an
    address, events of \<open>poll\<close> read for the wrong connection, a late stream close). Lemmas show a few
    more, such as the descriptor kept after a failed accept.

  \<^bold>\<open>Loops, bounds and fuel.\<close> Loops over data are structural or have a termination measure. Loops that
  wait for the outside consume a list of what each round will see and answer \<open>None\<close> when the list
  ends first; the termination properties say which lists are long enough: any that contains a round
  at or past the deadline. The two connection retries are partial functions into \<open>option\<close>, shown to
  return once the clock reaches the deadline. Constants are those of the code: eight expiries
  per pass, a message limit of four mebibytes, batches and buffer sizes as declared.

  \<^bold>\<open>Not modelled.\<close>
  \<^item> libnghttp2, the kernel, prost, prost-build, protobuf, nanopb, bindgen, CMake and application handlers:
    not in the sources, hence arguments. The bindings of \<open>grpcuds-sys/src/lib.rs\<close> are generated.
  \<^item> \<open>grpcuds-ffi/src/lib.rs\<close> and \<open>grpcuds-ffi-impl/src/lib.rs\<close>: re-exports, the choice of the
    allocator and a panic handler that aborts.
  \<^item> \<open>compile_protos\<close> of \<open>grpcuds-build\<close>: a call of prost-build with the parent directory of a path.
  \<^item> Calls of the logger and of the wire log inside other functions: they do not change the state of
    the caller. The sinks and the wire log themselves are modelled.
  \<^item> Spinning of locks, memory ordering, threads and the tokio runtime. A poisoned mutex does not occur,
    since nothing panics under one.
  \<^item> The formatting of paths and of I/O errors by the standard library, which appears as an argument,
    and accessors that return a field.
  \<^item> Moves of a C++ handle, and freeing a response or a stream: they change no other state.
    \<open>ServerWriter<T>::Write\<close> and \<open>UnaryResponder<T>::Respond\<close> exist only as text the plugin emits.
  \<^item> Examples, tests and benchmarks: programs that use the library.
\<close>

section \<open>A call from end to end\<close>

text \<open>
  The DATA chunks of a request as nghttp2 hands them to the server: the first callback that
  fails ends the session.
\<close>

fun body_in :: "int \<Rightarrow> bytes list \<Rightarrow> 'n conn \<Rightarrow> int \<times> 'n conn" where
  "body_in i [] c = (0, c)"
| "body_in i (chunk # chunks) c =
     (case on_data_chunk_recv al_all i chunk c of
        (rc, c) \<Rightarrow> if rc \<noteq> 0 then (rc, c) else body_in i chunks c)"

text \<open>The trailers \<open>data_provider_read\<close> submits for a finished queue, and the client reading them.\<close>

definition queue_trailers :: "out_queue \<Rightarrow> nv list" where
  "queue_trailers q =
     (case final_message q of
        Some msg \<Rightarrow> if msg \<noteq> [] then trailer_with_message (final_status q) msg else trailer (final_status q)
      | None \<Rightarrow> trailer (final_status q))"

definition headers_in :: "nv list \<Rightarrow> call_state \<Rightarrow> call_state" where
  "headers_in nvs = fold (\<lambda>h. cl_on_header (nv_name h) (nv_value h)) nvs"

lemma data_provider_trailers:
  assumes "find_stream c i = Some s" and "finished (sc_out s)"
    and "data_provider_read ops i len c = (CbRead rc buf fl, c')" and "df_eof fl"
  shows "session c' = fst (ng_submit_trailer ops (session c) i (queue_trailers (sc_out s)))"
proof -
  obtain out q where d: "drain_into len (sc_out s) = (out, q)" by fastforce
  with drain_into_frame [OF d] assms show ?thesis
    by (auto simp: data_provider_read_def queue_trailers_def no_flags_def Let_def
        split: if_splits prod.splits option.splits)
qed

lemma body_in_collects:
  assumes "find_stream c i = Some s"
    and "length (sc_request s @ concat chunks) \<le> unat (max_message_len c)"
  shows "\<exists>c'. body_in i chunks c = (0, c') \<and> max_message_len c' = max_message_len c
    \<and> find_stream c' i = Some (s\<lparr>sc_request := sc_request s @ concat chunks\<rparr>)"
  using assms
proof (induction chunks arbitrary: c s)
  case (Cons x xs)
  let ?c1 = "upd_stream i (\<lambda>s. s\<lparr>sc_request := sc_request s @ x\<rparr>) c"
  have "sat_add64 (length (sc_request s)) (length x) \<le> unat (max_message_len c)"
    using Cons.prems(2) by (simp add: sat_add64_def)
  then have step: "on_data_chunk_recv al_all i x c = (0, ?c1)"
    using Cons.prems(1) by (simp add: on_data_chunk_recv_def al_all_def)
  have "find_stream ?c1 i = Some (s\<lparr>sc_request := sc_request s @ x\<rparr>)" and
    "max_message_len ?c1 = max_message_len c"
    using find_upd_stream [OF Cons.prems(1)] by (simp_all add: upd_stream_def)
  with Cons.IH [of ?c1 "s\<lparr>sc_request := sc_request s @ x\<rparr>"] Cons.prems(2) step show ?case by simp
qed simp

lemma headers_in_trailers:
  "cs_messages (headers_in (queue_trailers q) st) = cs_messages st"
  "cs_grpc_status (headers_in (queue_trailers q) st) = Some (status_code (final_status q))"
  "final_message q = Some (percent_encode_message m []) \<Longrightarrow> m \<noteq> [] \<Longrightarrow>
     cs_grpc_message (headers_in (queue_trailers q) st) = (if utf8_valid m then Some m else None)"
proof -
  have st: "cl_on_header N_GRPC_STATUS (V_GRPC_STATUS ! nat (status_code s)) st
      = st\<lparr>cs_grpc_status := Some (status_code s)\<rparr>" for s st
    using trailer_status_roundtrip [of s "[]"]
    by (simp add: cl_on_header_def N_GRPC_STATUS_def ascii_def trailer_def nv_static_def)
  have ms: "cl_on_header N_GRPC_MESSAGE v st = st\<lparr>cs_grpc_message := percent_decode v\<rparr>" for v st
    by (simp add: cl_on_header_def N_GRPC_MESSAGE_def ascii_def)
  note simps = headers_in_def queue_trailers_def trailer_def trailer_with_message_def
    nv_static_def nv_dyn_value_def Let_def st ms
  show "cs_messages (headers_in (queue_trailers q) st) = cs_messages st"
    and "cs_grpc_status (headers_in (queue_trailers q) st) = Some (status_code (final_status q))"
    by (simp_all add: simps split: option.splits)
  show "cs_grpc_message (headers_in (queue_trailers q) st) = (if utf8_valid m then Some m else None)"
    if "final_message q = Some (percent_encode_message m [])" and "m \<noteq> []"
  proof -
    have "percent_encode_message m [] \<noteq> []"
      using that(2) by (cases m) (simp_all add: percent_encode_concat pct_byte_def)
    with that(1) show ?thesis by (simp add: simps percent_decode_def percent_decode_encode)
  qed
qed

lemma response_delivered:
  assumes "queue_inv q" and "front_offset q = 0" and "cs_inbuf st = []"
    and "list_all (\<lambda>m. length (om_body m) \<le> unat MAX_MESSAGE_LEN) (messages q)"
    and "list_all (\<lambda>n. 0 < n) ns" and "length (qbytes q) \<le> length ns"
    and "concat chunks = fst (pulls drain_into ns q)"
  shows "cs_messages (fold (cl_on_data al_all) chunks st) = cs_messages st @ map om_body (messages q)"
proof -
  have "concat chunks = frames (map om_body (messages q))"
    using drain.pulls_drain [OF assms(1,5,6)] qbytes_frames [OF assms(1)] assms(2,7) by simp
  then show ?thesis
    using core_reader.chunks_deliver [of st "map om_body (messages q)" chunks] assms(3,4)
    by (simp add: list_all_iff)
qed

lemma queued_eval:
  assumes "length m < 2 ^ 32"
  shows "queue_inv (finish_queue st None (queued m oq_new))"
    and "front_offset (finish_queue st None (queued m oq_new)) = 0"
    and "messages (finish_queue st None (queued m oq_new))
      = [\<lparr>om_hdr = encode_header False (of_nat (length m)), om_body = m\<rparr>]"
    and "final_status (finish_queue st None (queued m oq_new)) = st"
    and "qbytes (finish_queue st None (queued m oq_new)) = frame m"
  using assms
  by (simp_all add: finish_queue_def queued_def oq_new_def queue_inv_def msg_ok_def
      qbytes_def msg_bytes_def frame_def)

section \<open>Properties\<close>

text \<open>
  C2. A unary call from end to end, between the blocking client and the Rust server. The bytes
  the client's body provider hands over, cut into DATA chunks in any way, are accepted by the
  server and hold exactly the request as their payload. Once the handler has answered through
  the trampoline and the mailbox is applied, the bytes of the response queue, cut in any way
  again, and its trailers leave the client with exactly the handler's response and status 0.
\<close>

theorem unary_end_to_end:
  assumes client: "st1 = call_reset (encode_header False (of_nat (length req)) @ req) st"
    and up: "list_all (\<lambda>n. 0 < n) ns" "FRAME_HEADER_LEN + length req \<le> length ns"
      "concat up = fst (pulls body_pull ns st1)"
    and server: "find_stream c i = Some s" "sc_request s = []" "sc_out s = oq_new"
      "FRAME_HEADER_LEN + length req \<le> unat (max_message_len c)" "body_in i up c = (rc, c1)"
    and handler: "find (\<lambda>sl. sl_token sl = token \<and> \<not> sl_dead sl) sls = Some sl"
      "cn_conn (sl_conn sl) = c1" "rb_ops b = []" "\<And>wr. H entry req wr = UnaryAnswer (Inr resp)"
      "length resp \<le> unat MAX_MESSAGE_LEN"
      "open_call token i (fst (apply_ops ops al_all sls
         (snd (trampoline H token now remaining i req entry b)))) = Some s2"
    and down: "list_all (\<lambda>n. 0 < n) ms" "FRAME_HEADER_LEN + length resp \<le> length ms"
      "concat down = fst (pulls drain_into ms (sc_out s2))"
    and st2: "st2 = headers_in (queue_trailers (sc_out s2)) (fold (cl_on_data al_all) down st1)"
  shows "rc = 0 \<and> Option.bind (find_stream c1 i) (\<lambda>s. request_payload c1 (sc_request s)) = Some req
    \<and> cs_messages st2 = [resp] \<and> cs_grpc_status st2 = Some 0"
proof -
  have req: "concat up = frame req" using request_body_pulls [OF up(1,2)] up(3) client by simp
  then obtain s1 where c1: "rc = 0" "max_message_len c1 = max_message_len c"
      "find_stream c1 i = Some s1" "s1 = s\<lparr>sc_request := frame req\<rparr>"
    using body_in_collects [OF server(1), of up] server(2,4,5) by (auto simp: length_frame)
  then have "request_payload c1 (sc_request s1) = Some req"
    using request_payload_frame [of c1 "frame req" req] server(4) by auto
  moreover have "cs_messages st2 = [resp] \<and> cs_grpc_status st2 = Some 0"
  proof -
    let ?q = "finish_queue Ok None (queued resp oq_new)"
    have len: "length resp < 2 ^ 32" using handler(5) by (simp add: MAX_MESSAGE_LEN_def)
    have "open_call token i sls = Some s1" using handler(1,2) c1(3) by (simp add: open_call_def)
    then have "sc_out s2 = ?q"
      using unary_answered [of b token i sls s1 H entry req resp ops now remaining] handler(3,4,6) len c1(4) server(3) by (simp add: oq_new_def)
    moreover have "queue_inv ?q" "front_offset ?q = 0"
        "messages ?q = [\<lparr>om_hdr = encode_header False (of_nat (length resp)), om_body = resp\<rparr>]"
        "final_status ?q = Ok" "qbytes ?q = frame resp"
      using len by (simp_all add: queued_eval)
    moreover have "cs_inbuf st1 = []" "cs_messages st1 = []" by (simp_all add: client call_reset_def)
    ultimately show ?thesis
      using response_delivered [of ?q st1 ms down] handler(5) down
      by (simp add: st2 headers_in_trailers length_frame)
  qed
  ultimately show ?thesis using c1 by simp
qed

theorem unary_end_to_end_witness:
  "let st1 = call_reset (encode_header False (of_nat (length [1 :: byte])) @ [1]) call_state_new;
       c1 = snd (body_in 1 [frame [1]] (demo_conn [demo_stream 1 None]));
       sls = [\<lparr>sl_token = 1, sl_conn = \<lparr>cn_fd = 5, cn_conn = c1\<rparr>, sl_net = demo_net, sl_dead = False\<rparr>];
       b = \<lparr>rb_ops = [], rb_signal = 0, rb_shared = (\<lambda>_. shared_default), rb_fresh = 0\<rparr>
   in \<exists>s2. open_call 1 1 (fst (apply_ops demo_ops al_all sls
            (snd (trampoline (\<lambda>_ _ _. UnaryAnswer (Inr [2])) 1 0 None 1 [1] 0 b)))) = Some s2
        \<and> cs_messages (headers_in (queue_trailers (sc_out s2)) (fold (cl_on_data al_all) [frame [2]] st1)) = [[2]]"
proof -
  define st1 where "st1 = call_reset (encode_header False (of_nat (length [1 :: byte])) @ [1]) call_state_new"
  define c where "c = demo_conn [demo_stream 1 None]"
  define c1 where "c1 = snd (body_in 1 [frame [1]] c)"
  define sls where "sls = [\<lparr>sl_token = 1, sl_conn = \<lparr>cn_fd = 5, cn_conn = c1\<rparr>, sl_net = demo_net, sl_dead = False\<rparr>]"
  let ?b = "\<lparr>rb_ops = [], rb_signal = 0, rb_shared = (\<lambda>_. shared_default), rb_fresh = 0\<rparr>"
  have ns: "list_all (\<lambda>n. 0 < n) (replicate 6 (1 :: nat))" "FRAME_HEADER_LEN + length [1 :: byte] \<le> length (replicate 6 (1 :: nat))"
    by (simp_all add: FRAME_HEADER_LEN_def list_all_iff)
  have up: "concat [frame [1]] = fst (pulls body_pull (replicate 6 1) st1)"
    using request_body_pulls [of "replicate 6 1" "[1]" call_state_new] by (simp add: FRAME_HEADER_LEN_def st1_def list_all_iff)
  have s: "find_stream c 1 = Some (demo_stream 1 None)" "sc_request (demo_stream 1 None) = []"
      "sc_out (demo_stream 1 None) = oq_new" "FRAME_HEADER_LEN + length [1 :: byte] \<le> unat (max_message_len c)"
    by (simp_all add: c_def demo_conn_def demo_stream_def find_stream_def FRAME_HEADER_LEN_def)
  obtain s1 where b: "body_in 1 [frame [1]] c = (0, c1)" and o: "open_call 1 1 sls = Some s1"
      and s1: "sc_out s1 = oq_new"
    using body_in_collects [OF s(1), of "[frame [1]]"] s(2-4)
    by (auto simp: c1_def sls_def open_call_def length_frame)
  note a = unary_answered [of ?b 1 1 sls s1 "\<lambda>_ _ _. UnaryAnswer (Inr [2])" 0 "[1]" "[2]" demo_ops 0 None,
      OF _ o, simplified s1]
  let ?s2 = "s1\<lparr>sc_out := finish_queue Ok None (queued [2] oq_new)\<rparr>"
  have s2: "open_call 1 1 (fst (apply_ops demo_ops al_all sls
      (snd (trampoline (\<lambda>_ _ _. UnaryAnswer (Inr [2])) 1 0 None 1 [1] 0 ?b)))) = Some ?s2"
    using a by (simp add: oq_new_def)
  have "concat [frame [2]] = fst (pulls drain_into (replicate 6 1) (sc_out ?s2))"
    using drain.pulls_drain [of "finish_queue Ok None (queued [2] oq_new)" "replicate 6 1"] queued_eval [of "[2]" Ok]
    by (simp add: length_frame FRAME_HEADER_LEN_def list_all_iff)
  from unary_end_to_end [OF st1_def ns up s b _ _ _ _ _ s2 ns(1) _ this refl,
      where sl = "\<lparr>sl_token = 1, sl_conn = \<lparr>cn_fd = 5, cn_conn = c1\<rparr>, sl_net = demo_net, sl_dead = False\<rparr>"] s2
  show ?thesis
    unfolding Let_def st1_def [symmetric] c_def [symmetric] c1_def [symmetric] sls_def [symmetric]
    by (auto simp: sls_def MAX_MESSAGE_LEN_def FRAME_HEADER_LEN_def)
qed

section \<open>A status from a C++ server to a C++ client\<close>

text \<open>
  The status a client reports for the state its call ended in, and that it is what \<open>UnaryRaw\<close>
  answers whenever the call underneath came to an end.
\<close>

definition seen_status :: "call_state \<Rightarrow> cpp_status" where
  "seen_status st =
     (case cs_grpc_status st of
        None \<Rightarrow> cpp_status_new 2 (case cs_grpc_message st of None \<Rightarrow> [] | Some m \<Rightarrow> m)
      | Some code \<Rightarrow>
          if code = 0 then cpp_ok else cpp_status_new code (case cs_grpc_message st of None \<Rightarrow> [] | Some m \<Rightarrow> m))"

lemma unary_raw_status:
  assumes "unary ops env w2 al now pes path req c k w = Some (Inr r, c1, k1, w1)"
    and "unary_raw ops env w2 al now pes (Some path) req out (Some c) k w = Some (st, out', c2, k2, w3)"
  shows "st = seen_status (cc_state c1)"
  using assms
  by (auto simp: unary_raw_def client_unary_def seen_status_def response_error_def response_status_def
      response_message_bytes_def Let_def split: option.splits if_splits)

lemma headers_in_no_message:
  "final_message q = None \<Longrightarrow> cs_grpc_message (headers_in (queue_trailers q) st) = cs_grpc_message st"
  by (simp add: headers_in_def queue_trailers_def trailer_def nv_static_def cl_on_header_def
      N_GRPC_STATUS_def ascii_def)

lemma raw_finish_open:
  assumes "ctx_call rw \<noteq> 0" and "f_heap w (ctx_call rw) = Some cn" and "on_io_thread me (f_box w)"
    and "find_stream (cn_conn cn) (ctx_call_id rw) = Some s"
  shows "\<exists>w' cn' s'. raw_finish ops al me rw st w = Some (True, w') \<and> f_heap w' (ctx_call rw) = Some cn'
    \<and> find_stream (cn_conn cn') (ctx_call_id rw) = Some s'
    \<and> sc_out s' = finish_queue (status_from_c (error_code st)) (Some (error_message st)) (sc_out s)"
proof -
  have msg: "finish_queue g (Some m) = finish_queue g (Some (c_slice (Some m) (length m)))" for g m
    by (simp add: c_slice_def)
  show ?thesis
    using assms finish_call_found(1) [OF assms(4), of ops "status_from_c (error_code st)" "error_message st"]
    by (auto simp: raw_finish_def returned_0_def call_finish_msg_def with_conn_def c_slice_def Let_def
        unit_to_c_def finish_call_msg_def finish_call_inner_def split: prod.splits)
qed

text \<open>
  C20. The status a C++ handler finishes with is the status the C++ client reports: finishing an open
  call, then the trailers, then the client's header callback give back the code, if it is one of the
  seventeen, and \<open>UNKNOWN\<close> otherwise; and for a code other than \<open>OK\<close> the message, byte for byte, if
  it is valid UTF-8, and no message otherwise.
\<close>

theorem cpp_status_roundtrip:
  assumes "ctx_call rw \<noteq> 0" and "f_heap w (ctx_call rw) = Some cn" and "on_io_thread me (f_box w)"
    and "find_stream (cn_conn cn) (ctx_call_id rw) = Some s" and "\<not> finished (sc_out s)"
    and "final_message (sc_out s) = None"
  shows "\<exists>w' cn' s'. raw_finish ops al me rw st w = Some (True, w') \<and> f_heap w' (ctx_call rw) = Some cn'
    \<and> find_stream (cn_conn cn') (ctx_call_id rw) = Some s'
    \<and> seen_status (headers_in (queue_trailers (sc_out s')) (call_reset req cst))
      = (if error_code st = 0 then cpp_ok
         else cpp_status_new (if 0 \<le> error_code st \<and> error_code st \<le> 16 then error_code st else 2)
                (if utf8_valid (error_message st) then error_message st else []))"
proof -
  let ?g = "status_from_c (error_code st)" and ?m = "error_message st"
  let ?q = "finish_queue ?g (Some ?m) (sc_out s)" and ?st = "call_reset req cst"
  have g: "status_code ?g = (if 0 \<le> error_code st \<and> error_code st \<le> 16 then error_code st else 2)"
    using c_status.normalise [of "error_code st"] by simp
  have "final_status ?q = ?g" using assms(5) by (simp add: finish_queue_def Let_def)
  moreover have "cs_grpc_message (headers_in (queue_trailers ?q) ?st)
      = (if ?m \<noteq> [] \<and> utf8_valid ?m then Some ?m else None)"
  proof (cases "?m = []")
    case True
    then have "final_message ?q = None" using assms(5,6) by (simp add: finish_queue_def Let_def)
    then show ?thesis using True by (simp add: headers_in_no_message call_reset_def)
  next
    case False
    then have "final_message ?q = Some (percent_encode_message ?m [])"
      using assms(5) by (simp add: finish_queue_def Let_def)
    from headers_in_trailers(3) [OF this False] False show ?thesis by simp
  qed
  ultimately have "seen_status (headers_in (queue_trailers ?q) ?st)
      = (if status_code ?g = 0 then cpp_ok else cpp_status_new (status_code ?g) (if utf8_valid ?m then ?m else []))"
    by (auto simp: seen_status_def headers_in_trailers(2))
  moreover have "status_code ?g = 0 \<longleftrightarrow> error_code st = 0" unfolding g by auto
  ultimately show ?thesis using raw_finish_open [OF assms(1-4), of ops al st] unfolding g by metis
qed

theorem cpp_status_roundtrip_witness:
  "\<exists>w' cn' s'. raw_finish demo_ops al_all 1 \<lparr>ctx_call = 100, ctx_call_id = 1\<rparr> (cpp_status_new 5 [110, 111]) demo_abi
       = Some (True, w')
     \<and> f_heap w' 100 = Some cn' \<and> find_stream (cn_conn cn') 1 = Some s'
     \<and> seen_status (headers_in (queue_trailers (sc_out s')) (call_reset [] call_state_new))
       = cpp_status_new 5 [110, 111]"
proof -
  let ?rw = "\<lparr>ctx_call = 100, ctx_call_id = 1\<rparr>"
  have "ctx_call ?rw \<noteq> 0" "f_heap demo_abi (ctx_call ?rw) = Some demo_open" "on_io_thread 1 (f_box demo_abi)"
    "find_stream (cn_conn demo_open) (ctx_call_id ?rw) = Some (demo_stream 1 None)"
    "\<not> finished (sc_out (demo_stream 1 None))" "final_message (sc_out (demo_stream 1 None)) = None"
    by (simp_all add: demo_abi_sel on_io_thread_def demo_open_def demo_conn_def find_stream_def demo_stream_def
        oq_new_def)
  from cpp_status_roundtrip [OF this, of demo_ops al_all "cpp_status_new 5 [110, 111]" "[]" call_state_new]
  show ?thesis by (simp add: cpp_status_new_def)
qed

section \<open>Generated services on a running server\<close>

text \<open>
  The calls a generated \<open>BindToServer\<close> or \<open>_register\<close> makes: one \<open>grpcuds_server_register_method\<close> for
  each path, with the trampoline of that method and the service object.
\<close>

definition register_paths :: "(nat \<Rightarrow> nat) \<Rightarrow> nat \<Rightarrow> string list \<Rightarrow> ffi_server option \<Rightarrow> ffi_server option" where
  "register_paths tr svc paths srv =
     fold (\<lambda>(i, p) srv. snd (server_register_method al_all srv (Some (ascii p)) (Some (tr i)) svc))
       (enumerate 0 paths) srv"

lemma register_paths_entries:
  "fold (\<lambda>(i, p) srv. snd (server_register_method al_all srv (Some (ascii p)) (Some (tr i)) svc))
      (enumerate n paths) (Some srv)
   = Some (srv\<lparr>fs_methods := fs_methods srv
       @ map (\<lambda>(i, p). \<lparr>cm_path = ascii p, cm_handler = tr i, cm_user_data = svc\<rparr>) (enumerate n paths)\<rparr>)"
  by (induction paths arbitrary: n srv) (simp_all add: server_register_method_def al_all_def)

lemma of_char_byte_inj: "(of_char c :: byte) = of_char d \<Longrightarrow> c = d"
proof -
  have "unat (of_char e :: byte) = of_char e" for e
  proof -
    have "(of_char e :: byte) = of_nat (of_char e)" by (simp add: of_char_def)
    then show ?thesis by (simp add: unat_of_nat)
  qed
  then show "(of_char c :: byte) = of_char d \<Longrightarrow> c = d" by (metis of_char_eq_iff)
qed

lemma ascii_inj: "ascii s = ascii t \<longleftrightarrow> s = t"
  using of_char_byte_inj by (auto simp: ascii_def inj_on_def intro: map_injective)

lemma position_entries:
  assumes "distinct paths" and "i < length paths"
  shows "position (\<lambda>e. cm_path e = ascii (paths ! i))
      (map (\<lambda>(i, p). \<lparr>cm_path = ascii p, cm_handler = tr i, cm_user_data = svc\<rparr>) (enumerate n paths)) = Some i"
  using assms
proof (induction paths arbitrary: n i)
  case (Cons p paths)
  then show ?case by (cases i) (auto simp: ascii_inj)
qed simp



end
